(* ===== verification/Cpp_Prelude.thy ===== *)
theory Cpp_Prelude
  imports Main "HOL-Library.Word" "HOL-Library.Signed_Division"
begin

text \<open>
  The vocabulary every component theory shares.

  \<^item> \<open>fault\<close> lists the ways an execution of the C++ code stops without a result: a failed
    \<open>assert\<close>, an access outside a container or through a null pointer, an exception of the
    standard library, \<open>abort\<close> from \<open>LOG_FATAL\<close>, another use the language leaves
    undefined (\<open>Undefined\<close>: a missing \<open>return\<close>, an uninitialised read). A fallible operation returns
    \<open>fault + 'a\<close>; \<open>andThen\<close> sequences two of them.
  \<^item> \<open>cassert dbg P k\<close> is the statement \<open>assert(P); k\<close>. The argument \<open>dbg\<close> says whether
    assertions are compiled in: the CMake files define \<open>NDEBUG\<close> for the Release build (the
    default) and leave it undefined for the Debug build, so both programs are modelled.
  \<^item> \<open>size_t\<close> values are \<open>nat\<close> below \<open>2 ^ 64\<close>, with the wrap-around of \<open>+\<close> and
    \<open>-\<close> written out in \<open>sz_add\<close> and \<open>sz_sub\<close>; \<open>to_int32\<close> is the conversion to
    \<open>int\<close>. Division of signed values is the library's truncating \<open>sdiv\<close> and \<open>smod\<close>.
  \<^item> \<open>read_at\<close> and \<open>write_at\<close> are the accesses of a \<open>char\<close> array by offset, which
    fault when they leave the array.
\<close>

named_theorems res_simps \<open>unfolding of the result combinators\<close>
named_theorems sz_simps \<open>size_t arithmetic inside its range\<close>

section \<open>Results\<close>

datatype fault =
    AssertFail
  | OutOfBounds
  | NullDeref
  | EmptyContainer
  | LengthError
  | LogicError string
  | LogFatal
  | Undefined
  | Diverges

type_synonym 'a res = "fault + 'a"

fun andThen :: "'a res \<Rightarrow> ('a \<Rightarrow> 'b res) \<Rightarrow> 'b res" where
  "andThen (Inl e) f = Inl e"
| "andThen (Inr x) f = f x"

definition cassert :: "bool \<Rightarrow> bool \<Rightarrow> 'a res \<Rightarrow> 'a res" where
  "cassert dbg P k = (if dbg \<and> \<not> P then Inl AssertFail else k)"

fun foldRes :: "('a \<Rightarrow> 's \<Rightarrow> 's res) \<Rightarrow> 'a list \<Rightarrow> 's \<Rightarrow> 's res" where
  "foldRes f [] s = Inr s"
| "foldRes f (x # xs) s = andThen (f x s) (foldRes f xs)"

lemma andThen_eq_Inr [res_simps]:
  "andThen m f = Inr y \<longleftrightarrow> (\<exists>x. m = Inr x \<and> f x = Inr y)"
  by (cases m) auto

lemma andThen_assoc: "andThen (andThen m f) g = andThen m (\<lambda>x. andThen (f x) g)"
  by (cases m) auto

lemma andThen_Inr [simp]: "andThen m Inr = m"
  by (cases m) simp_all

lemma cassert_release [simp]: "cassert False P k = k"
  by (simp add: cassert_def)

lemma cassert_true [simp]: "cassert dbg True k = k"
  by (simp add: cassert_def)

lemma cassert_holds: "P \<Longrightarrow> cassert dbg P k = k"
  by (simp add: cassert_def)

lemma cassert_eq_Inr [res_simps]:
  "cassert dbg P k = Inr y \<longleftrightarrow> (dbg \<longrightarrow> P) \<and> k = Inr y"
  by (auto simp: cassert_def)

lemma foldRes_map: "foldRes f (map g xs) = foldRes (f \<circ> g) xs"
proof
  fix s
  show "foldRes f (map g xs) s = foldRes (f \<circ> g) xs s"
  proof (induction xs arbitrary: s)
    case (Cons x xs)
    then show ?case by (cases "f (g x) s") simp_all
  qed simp
qed

lemma foldRes_append: "foldRes f (xs @ ys) s = andThen (foldRes f xs s) (foldRes f ys)"
proof (induction xs arbitrary: s)
  case (Cons x xs)
  then show ?case by (cases "f x s") simp_all
qed simp

text \<open>An invariant every step keeps is kept by the loop over a list.\<close>

lemma foldRes_invariant:
  assumes "foldRes f xs s = Inr t" and "I s"
    and step: "\<And>x s s'. x \<in> set xs \<Longrightarrow> I s \<Longrightarrow> f x s = Inr s' \<Longrightarrow> I s'"
  shows "I t"
  using assms
proof (induction xs arbitrary: s)
  case Nil
  then show ?case by simp
next
  case (Cons x xs)
  then obtain s1 where s1: "f x s = Inr s1" "foldRes f xs s1 = Inr t"
    by (auto simp: res_simps)
  have "I s1" using Cons.prems s1(1) by auto
  moreover have "\<And>y s s'. y \<in> set xs \<Longrightarrow> I s \<Longrightarrow> f y s = Inr s' \<Longrightarrow> I s'"
    using Cons.prems(3) by (meson list.set_intros(2))
  ultimately show ?case using Cons.IH [OF s1(2)] by blast
qed

text \<open>
  The contract every stateful component shares: operations as data, one step that may fault, and
  an invariant each step keeps. A run over any list of operations then keeps it, too, and what
  one step can change bounds what a run can change.
\<close>

locale invariant_machine =
  fixes step :: "'op \<Rightarrow> 's \<Rightarrow> 's res"
    and inv :: "'s \<Rightarrow> bool"
  assumes inv_step: "inv s \<Longrightarrow> step op s = Inr s' \<Longrightarrow> inv s'"
begin

lemma inv_run: "inv s \<Longrightarrow> foldRes step ops s = Inr s' \<Longrightarrow> inv s'"
  using foldRes_invariant [where f = step and I = inv] inv_step by blast

lemma inv_prefix: "inv s \<Longrightarrow> foldRes step (xs @ ys) s = Inr s' \<Longrightarrow>
    \<exists>t. foldRes step xs s = Inr t \<and> inv t \<and> foldRes step ys t = Inr s'"
  by (auto simp: foldRes_append res_simps dest: inv_run)

lemma run_frame:
  assumes "inv s" "foldRes step ops s = Inr s'"
    and keep: "\<And>op s s'. inv s \<Longrightarrow> step op s = Inr s' \<Longrightarrow> F s' = F s"
  shows "F s' = F s"
proof -
  have "inv s' \<and> F s' = F s"
    by (rule foldRes_invariant [OF assms(2), where I = "\<lambda>t. inv t \<and> F t = F s"])
      (use assms(1) keep inv_step in auto)
  then show ?thesis ..
qed

end

text \<open>
  The contract between a component and its specification: each step that the precondition \<open>ok\<close>
  admits succeeds, keeps the invariant and does to the abstract state what \<open>spec\<close> says. Then so
  does every run, and of two runs from states with the same abstraction neither can be told from
  the other by it.
\<close>

locale refinement =
  fixes step :: "'op \<Rightarrow> 's \<Rightarrow> 's res"
    and inv :: "'s \<Rightarrow> bool"
    and abs :: "'s \<Rightarrow> 'a"
    and ok :: "'op \<Rightarrow> bool"
    and spec :: "'op \<Rightarrow> 'a \<Rightarrow> 'a"
  assumes refines: "inv s \<Longrightarrow> ok op \<Longrightarrow>
    \<exists>s'. step op s = Inr s' \<and> inv s' \<and> abs s' = spec op (abs s)"
begin

lemma run_refines:
  "inv s \<Longrightarrow> list_all ok ops \<Longrightarrow>
    \<exists>s'. foldRes step ops s = Inr s' \<and> inv s' \<and> abs s' = fold spec ops (abs s)"
proof (induction ops arbitrary: s)
  case (Cons op ops)
  then obtain s1 where "step op s = Inr s1" "inv s1" "abs s1 = spec op (abs s)"
    using refines [of s op] by auto
  then show ?case using Cons by force
qed simp

lemma run_abstract:
  assumes "inv s" "inv t" "abs s = abs t" "list_all ok ops"
    and "foldRes step ops s = Inr s'" "foldRes step ops t = Inr t'"
  shows "abs s' = abs t'"
  using run_refines [OF assms(1,4)] run_refines [OF assms(2,4)] assms(3,5,6) by auto

end

text \<open>
  Total correctness: the result satisfies \<open>I\<close>, or the run ended in one of the faults \<open>E\<close>.
\<close>

definition yields :: "fault set \<Rightarrow> ('a \<Rightarrow> bool) \<Rightarrow> 'a res \<Rightarrow> bool" where
  "yields E I r \<longleftrightarrow> (case r of Inl e \<Rightarrow> e \<in> E | Inr s \<Rightarrow> I s)"

lemma yields_simps [simp]: "yields E I (Inl e) \<longleftrightarrow> e \<in> E" "yields E I (Inr s) \<longleftrightarrow> I s"
  by (simp_all add: yields_def)

lemma yields_andThen:
  "yields E J m \<Longrightarrow> (\<And>s. J s \<Longrightarrow> yields E I (f s)) \<Longrightarrow> yields E I (andThen m f)"
  by (cases m) simp_all

lemma yields_foldRes:
  assumes "I s" "\<And>x s. x \<in> set xs \<Longrightarrow> I s \<Longrightarrow> yields E I (f x s)"
  shows "yields E I (foldRes f xs s)"
  using assms
proof (induction xs arbitrary: s)
  case (Cons x xs)
  have "yields E I (f x s)" using Cons.prems by simp
  then show ?case using Cons by (auto intro: yields_andThen)
qed simp

lemma yields_mono: "yields E I r \<Longrightarrow> (\<And>s. I s \<Longrightarrow> J s) \<Longrightarrow> yields E J r"
  by (cases r) simp_all

text \<open>
  A specification need not fix the outcome of a step: \<open>simulation\<close> is the contract of a
  component whose steps are steps of a relation \<open>spec\<close> on the abstract state, or end in a fault
  of \<open>E\<close>. A refinement is the case of a specification that is a function, where no step faults.
\<close>

primrec spec_run :: "('op \<Rightarrow> 'a \<Rightarrow> 'a \<Rightarrow> bool) \<Rightarrow> 'op list \<Rightarrow> 'a \<Rightarrow> 'a \<Rightarrow> bool" where
  "spec_run spec [] a b \<longleftrightarrow> a = b"
| "spec_run spec (op # ops) a b \<longleftrightarrow> (\<exists>c. spec op a c \<and> spec_run spec ops c b)"

lemma spec_run_append:
  "spec_run spec (xs @ ys) a b \<longleftrightarrow> (\<exists>c. spec_run spec xs a c \<and> spec_run spec ys c b)"
  by (induction xs arbitrary: a) auto

lemma spec_run_invariant:
  "spec_run spec xs a b \<Longrightarrow> P a \<Longrightarrow> (\<And>op a b. spec op a b \<Longrightarrow> P a \<Longrightarrow> P b) \<Longrightarrow> P b"
  by (induction xs arbitrary: a) auto

locale simulation =
  fixes step :: "'op \<Rightarrow> 's \<Rightarrow> 's res"
    and faults :: "fault set"
    and inv :: "'s \<Rightarrow> bool"
    and abs :: "'s \<Rightarrow> 'a"
    and ok :: "'op \<Rightarrow> bool"
    and spec :: "'op \<Rightarrow> 'a \<Rightarrow> 'a \<Rightarrow> bool"
  assumes simulates: "inv s \<Longrightarrow> ok op \<Longrightarrow>
    yields faults (\<lambda>s'. inv s' \<and> spec op (abs s) (abs s')) (step op s)"
begin

lemma run_simulates:
  "inv s \<Longrightarrow> list_all ok ops \<Longrightarrow>
    yields faults (\<lambda>s'. inv s' \<and> spec_run spec ops (abs s) (abs s')) (foldRes step ops s)"
proof (induction ops arbitrary: s)
  case (Cons op ops)
  have "yields faults (\<lambda>s'. inv s' \<and> spec_run spec (op # ops) (abs s) (abs s')) (foldRes step ops t)"
    if "inv t \<and> spec op (abs s) (abs t)" for t
    by (rule yields_mono [OF Cons.IH]) (use Cons.prems that in auto)
  then show ?case using simulates [of s op] Cons.prems by (auto intro: yields_andThen)
qed simp

text \<open>What every abstract step keeps of the abstract state, every run keeps.\<close>

lemma run_keeps:
  assumes "inv s" "list_all ok ops" "P (abs s)" and "\<And>op a b. spec op a b \<Longrightarrow> P a \<Longrightarrow> P b"
  shows "yields faults (\<lambda>s'. inv s' \<and> P (abs s')) (foldRes step ops s)"
  by (rule yields_mono [OF run_simulates [OF assms(1,2)]])
    (use spec_run_invariant [where P = P] assms(3,4) in blast)

end

sublocale refinement \<subseteq> simulation step "{}" inv abs ok "\<lambda>op a b. b = spec op a"
  by unfold_locales (use refines in fastforce)

section \<open>Unsigned sizes and signed conversions\<close>

definition sz_add :: "nat \<Rightarrow> nat \<Rightarrow> nat" where
  "sz_add a b = (a + b) mod 2 ^ 64"

definition sz_sub :: "nat \<Rightarrow> nat \<Rightarrow> nat" where
  "sz_sub a b = (a + 2 ^ 64 - b) mod 2 ^ 64"

definition to_int32 :: "int \<Rightarrow> int" where
  "to_int32 x = (x + 2 ^ 31) mod 2 ^ 32 - 2 ^ 31"

definition sz_of_int :: "int \<Rightarrow> nat" where
  "sz_of_int x = nat (x mod 2 ^ 64)"

definition int32_ok :: "int \<Rightarrow> bool" where
  "int32_ok x \<longleftrightarrow> - (2 ^ 31) \<le> x \<and> x < 2 ^ 31"

lemma sz_add_small [sz_simps]: "a + b < 2 ^ 64 \<Longrightarrow> sz_add a b = a + b"
  by (simp add: sz_add_def)

lemma sz_sub_small [sz_simps]: "b \<le> a \<Longrightarrow> a < 2 ^ 64 \<Longrightarrow> sz_sub a b = a - b"
proof -
  assume "b \<le> a" "a < 2 ^ 64"
  then obtain c where c: "a = b + c" using le_Suc_ex by blast
  with \<open>a < 2 ^ 64\<close> have "c < 2 ^ 64" by linarith
  then have "(c + 2 ^ 64) mod 2 ^ 64 = c" by (simp only: mod_add_self2 mod_less)
  moreover have "a + 2 ^ 64 - b = c + 2 ^ 64" using c by simp
  moreover have "a - b = c" using c by simp
  ultimately show ?thesis by (simp only: sz_sub_def)
qed

lemma sz_sub_self [simp]: "a < 2 ^ 64 \<Longrightarrow> sz_sub a a = 0"
  by (simp add: sz_sub_small)

lemma to_int32_id: "int32_ok x \<Longrightarrow> to_int32 x = x"
  by (simp add: to_int32_def int32_ok_def)

lemma to_int32_range: "int32_ok (to_int32 x)"
proof -
  have "0 \<le> (x + 2 ^ 31) mod 2 ^ 32" "(x + 2 ^ 31) mod 2 ^ 32 < 2 ^ 32" by simp_all
  then show ?thesis by (simp add: to_int32_def int32_ok_def)
qed

lemma sz_of_int_nat: "0 \<le> x \<Longrightarrow> x < 2 ^ 64 \<Longrightarrow> sz_of_int x = nat x"
  by (simp add: sz_of_int_def)

text \<open>On a non-negative dividend and a positive divisor C's division is \<open>div\<close> and \<open>mod\<close>.\<close>

lemma sdiv_nonneg: "0 \<le> a \<Longrightarrow> 0 < b \<Longrightarrow> (a :: int) sdiv b = a div b"
  by (simp add: signed_divide_int_def sgn_if)

lemma smod_nonneg: "0 \<le> a \<Longrightarrow> 0 < b \<Longrightarrow> (a :: int) smod b = a mod b"
  by (cases "a = 0") (simp_all add: signed_modulo_int_def sdiv_nonneg minus_div_mult_eq_mod [symmetric] sgn_if)

section \<open>Byte arrays\<close>

type_synonym byte = "8 word"

definition read_at :: "'a list \<Rightarrow> nat \<Rightarrow> nat \<Rightarrow> 'a list res" where
  "read_at m off n = (if off + n \<le> length m then Inr (take n (drop off m)) else Inl OutOfBounds)"

definition write_at :: "'a list \<Rightarrow> nat \<Rightarrow> 'a list \<Rightarrow> 'a list res" where
  "write_at m off d =
     (if off + length d \<le> length m
      then Inr (take off m @ d @ drop (off + length d) m) else Inl OutOfBounds)"

lemma length_write_at: "write_at m off d = Inr m' \<Longrightarrow> length m' = length m"
  by (auto simp: write_at_def split: if_splits)

lemma write_at_drop:
  "write_at m off d = Inr m' \<Longrightarrow> drop off m' = d @ drop (off + length d) m"
  by (auto simp: write_at_def split: if_splits)

lemma write_at_take:
  "write_at m off d = Inr m' \<Longrightarrow> k \<le> off \<Longrightarrow> take k m' = take k m"
  by (auto simp: write_at_def min_def split: if_splits)

text \<open>Unfolding of \<open>replicate\<close> at a numeral, for evaluating concrete arrays.\<close>

lemma replicate_numeral_unfold:
  "replicate (numeral k) x = x # replicate (pred_numeral k) x"
  by (simp add: numeral_eq_Suc)

end
