(* ===== verification/Cpp_Format.thy ===== *)
theory Cpp_Format
  imports Cpp_Prelude
begin

text \<open>
  Decimal text: the conversions of \<open>printf\<close> and of \<open>ostream\<close> that the code uses
  (\<open>%d\<close>, \<open>%0wd\<close>, \<open>%wd\<close>), as reference functions on strings, and the value of a decimal
  text, with which their round trips are stated.
\<close>

section \<open>Printing\<close>

definition digit_char :: "nat \<Rightarrow> char" where
  "digit_char d = (char_of (48 + d) :: char)"

fun dec_nat :: "nat \<Rightarrow> string" where
  "dec_nat n = (if n < 10 then [digit_char n] else dec_nat (n div 10) @ [digit_char (n mod 10)])"

declare dec_nat.simps [simp del]

definition dec_int :: "int \<Rightarrow> string" where
  "dec_int i = (if i < 0 then CHR ''-'' # dec_nat (nat (- i)) else dec_nat (nat i))"

text \<open>\<open>%0wd\<close> fills with zeros behind the sign, \<open>%wd\<close> with blanks in front of it.\<close>

definition zero_pad :: "nat \<Rightarrow> int \<Rightarrow> string" where
  "zero_pad w i =
     (if i < 0
      then let s = dec_nat (nat (- i)) in CHR ''-'' # replicate (w - 1 - length s) (CHR ''0'') @ s
      else let s = dec_nat (nat i) in replicate (w - length s) (CHR ''0'') @ s)"

definition blank_pad :: "nat \<Rightarrow> int \<Rightarrow> string" where
  "blank_pad w i = (let s = dec_int i in replicate (w - length s) (CHR '' '') @ s)"

section \<open>Reading\<close>

definition digit_val :: "char \<Rightarrow> nat" where
  "digit_val c = of_char c - 48"

definition is_digit :: "char \<Rightarrow> bool" where
  "is_digit c \<longleftrightarrow> 48 \<le> (of_char c :: nat) \<and> (of_char c :: nat) \<le> 57"

definition dec_value :: "string \<Rightarrow> nat" where
  "dec_value s = foldl (\<lambda>a c. 10 * a + digit_val c) 0 s"

lemma of_digit_char: "d < 10 \<Longrightarrow> (of_char (digit_char d) :: nat) = 48 + d"
  by (simp add: digit_char_def)

lemma digit_val_char [simp]: "d < 10 \<Longrightarrow> digit_val (digit_char d) = d"
  by (simp add: digit_val_def of_digit_char)

lemma is_digit_char [simp]: "d < 10 \<Longrightarrow> is_digit (digit_char d)"
  by (simp add: is_digit_def of_digit_char)

lemma dec_value_snoc [simp]: "dec_value (s @ [c]) = 10 * dec_value s + digit_val c"
  by (simp add: dec_value_def)

lemma dec_value_one [simp]: "dec_value [c] = digit_val c"
  by (simp add: dec_value_def)

lemma dec_value_dec_nat [simp]: "dec_value (dec_nat n) = n"
proof (induction n rule: dec_nat.induct)
  case (1 n)
  then show ?case by (subst dec_nat.simps) auto
qed

lemma dec_nat_digits: "c \<in> set (dec_nat n) \<Longrightarrow> is_digit c"
proof (induction n rule: dec_nat.induct)
  case (1 n)
  then show ?case by (subst (asm) (2) dec_nat.simps) (auto split: if_splits)
qed

lemma dec_nat_inject [simp]: "dec_nat m = dec_nat n \<longleftrightarrow> m = n"
  by (metis dec_value_dec_nat)

lemma dec_nat_nonempty [simp]: "dec_nat n \<noteq> []"
  by (subst dec_nat.simps) simp

lemma dec_value_zeros: "dec_value (replicate k (CHR ''0'') @ s) = dec_value s"
  by (induction k) (simp_all add: dec_value_def digit_val_def)

text \<open>A number below \<open>10 ^ w\<close> has at most \<open>w\<close> digits.\<close>

lemma length_dec_nat: "0 < w \<Longrightarrow> n < 10 ^ w \<Longrightarrow> length (dec_nat n) \<le> w"
proof (induction n arbitrary: w rule: dec_nat.induct)
  case (1 n)
  show ?case
  proof (cases "n < 10")
    case True
    then show ?thesis using 1 by (subst dec_nat.simps) simp
  next
    case False
    then obtain v where v: "w = Suc v" "0 < v"
      using 1 by (cases w; cases "w - 1") auto
    then have "n div 10 < 10 ^ v" using 1(3) by (simp add: less_mult_imp_div_less mult.commute)
    then show ?thesis using 1(1) [OF False v(2)] False v(1) by (subst dec_nat.simps) simp
  qed
qed

lemma length_zero_pad: "0 \<le> i \<Longrightarrow> 0 < w \<Longrightarrow> i < 10 ^ w \<Longrightarrow> length (zero_pad w i) = w"
  using length_dec_nat [of w "nat i"] by (simp add: zero_pad_def Let_def nat_less_iff)

lemma dec_value_zero_pad: "0 \<le> i \<Longrightarrow> dec_value (zero_pad w i) = nat i"
  by (simp add: zero_pad_def Let_def dec_value_zeros)

lemma length_blank_pad: "0 \<le> i \<Longrightarrow> 0 < w \<Longrightarrow> i < 10 ^ w \<Longrightarrow> length (blank_pad w i) = w"
  using length_dec_nat [of w "nat i"] by (simp add: blank_pad_def dec_int_def Let_def nat_less_iff)

end
