(* ===== verification/Cpp_Set.thy ===== *)
theory Cpp_Set
  imports Cpp_Prelude "HOL-Library.Product_Lexorder"
begin

text \<open>
  \<open>std::set\<close> as the strictly ascending list of its elements, with the operations the code
  calls: \<open>insert\<close> (and whether it inserted), \<open>erase\<close> of a value (and how many it erased), and
  \<open>lower_bound\<close> as the split of the list in front of it. The locale \<open>keyed_set\<close> is the
  contract of a set that holds one key of each owner in a set of owners.
\<close>

section \<open>Operations\<close>

definition set_insert :: "'a::linorder \<Rightarrow> 'a list \<Rightarrow> 'a list \<times> bool" where
  "set_insert x xs = (if x \<in> set xs then (xs, False) else (insort x xs, True))"

definition set_erase :: "'a::linorder \<Rightarrow> 'a list \<Rightarrow> 'a list \<times> nat" where
  "set_erase x xs = (if x \<in> set xs then (remove1 x xs, 1) else (xs, 0))"

definition set_below :: "'a::linorder \<Rightarrow> 'a list \<Rightarrow> 'a list" where
  "set_below s xs = takeWhile (\<lambda>x. x < s) xs"

definition set_from :: "'a::linorder \<Rightarrow> 'a list \<Rightarrow> 'a list" where
  "set_from s xs = dropWhile (\<lambda>x. x < s) xs"

lemma set_split: "set_below s xs @ set_from s xs = xs"
  by (simp add: set_below_def set_from_def)

lemma set_below_less: "x \<in> set (set_below s xs) \<Longrightarrow> x < s"
  by (auto simp: set_below_def dest: set_takeWhileD)

lemma set_from_ge: "sorted_wrt (<) xs \<Longrightarrow> x \<in> set (set_from s xs) \<Longrightarrow> s \<le> x"
proof (induction xs)
  case (Cons y ys)
  then show ?case
    by (cases "y < s") (auto simp: set_from_def intro: less_imp_le order.trans)
qed (simp add: set_from_def)

lemma strict_insort:
  "sorted_wrt (<) xs \<Longrightarrow> x \<notin> set xs \<Longrightarrow> sorted_wrt (<) (insort x xs)"
  by (simp add: strict_sorted_iff sorted_insort distinct_insort)

lemma strict_remove1: "sorted_wrt (<) (xs :: 'a::linorder list) \<Longrightarrow> sorted_wrt (<) (remove1 x xs)"
  by (simp add: strict_sorted_iff sorted_remove1)

lemma set_remove1_strict:
  "sorted_wrt (<) (xs :: 'a::linorder list) \<Longrightarrow> set (remove1 x xs) = set xs - {x}"
  by (simp add: strict_sorted_iff)

section \<open>A set that indexes its owners\<close>

definition holds :: "('p \<Rightarrow> 'k::linorder) \<Rightarrow> 'p set \<Rightarrow> 'k list \<Rightarrow> bool" where
  "holds key A xs \<longleftrightarrow> sorted_wrt (<) xs \<and> set xs = key ` A"

lemma holds_cong: "(\<And>a. a \<in> A \<Longrightarrow> key a = key' a) \<Longrightarrow> holds key A xs = holds key' A xs"
  by (simp add: holds_def cong: image_cong)

lemma holds_empty [simp]: "holds key {} []"
  by (simp add: holds_def)

locale keyed_set =
  fixes key :: "'p \<Rightarrow> 'k::linorder"
  assumes key_inj: "key a = key b \<Longrightarrow> a = b"
begin

lemma key_eq [simp]: "key a = key b \<longleftrightarrow> a = b"
  using key_inj by blast

lemma mem: "holds key A xs \<Longrightarrow> key a \<in> set xs \<longleftrightarrow> a \<in> A"
  by (auto simp: holds_def)

lemma size: "holds key A xs \<Longrightarrow> length xs = card A"
  by (metis card_image distinct_card holds_def inj_onI key_inj strict_sorted_iff)

lemma insert_new:
  assumes "holds key A xs" "a \<notin> A"
  shows "set_insert (key a) xs = (insort (key a) xs, True)"
    and "holds key (insert a A) (insort (key a) xs)"
  using assms mem [OF assms(1)] strict_insort [of xs "key a"]
  by (auto simp: set_insert_def holds_def set_insort_key)

lemma erase_old:
  assumes "holds key A xs" "a \<in> A"
  shows "set_erase (key a) xs = (remove1 (key a) xs, 1)"
    and "holds key (A - {a}) (remove1 (key a) xs)"
  using assms mem [OF assms(1)] strict_remove1 [of xs "key a"]
  by (auto simp: set_erase_def holds_def set_remove1_strict)

lemma erase_absent:
  "holds key A xs \<Longrightarrow> a \<notin> A \<Longrightarrow> set_erase (key a) xs = (xs, 0)"
  using mem by (auto simp: set_erase_def)

text \<open>Erasing a range from the front.\<close>

lemma erase_front:
  assumes "holds key A (ys @ zs)"
  shows "\<exists>B. B \<subseteq> A \<and> set ys = key ` B \<and> holds key (A - B) zs"
proof -
  let ?B = "{a \<in> A. key a \<in> set ys}"
  have s: "sorted_wrt (<) (ys @ zs)" "set ys \<union> set zs = key ` A"
    using assms by (auto simp: holds_def)
  then have "set ys \<inter> set zs = {}" by (auto simp: sorted_wrt_append)
  have "set zs = key ` A - set ys" using s(2) \<open>set ys \<inter> set zs = {}\<close> by blast
  then have "set zs = key ` (A - ?B)" by auto
  moreover have "set ys = key ` ?B" using s(2) by auto
  ultimately show ?thesis
    using s(1) by (intro exI [of _ ?B]) (auto simp: holds_def sorted_wrt_append)
qed

end

end
