(* ===== verification/Cpp_Map.thy ===== *)
theory Cpp_Map
  imports Cpp_Prelude "HOL-Library.Char_ord" "HOL-Library.List_Lexorder"
begin

text \<open>
  \<open>std::map\<close> as the list of its entries in the order of the keys, which is the order of
  iteration: assignment through \<open>operator[]\<close>, \<open>erase\<close> of a key with its count, lookup by
  \<open>map_of\<close>. The lemmas relate the list to the map it stands for.
\<close>

fun map_put :: "'k::linorder \<Rightarrow> 'v \<Rightarrow> ('k \<times> 'v) list \<Rightarrow> ('k \<times> 'v) list" where
  "map_put k v [] = [(k, v)]"
| "map_put k v ((k', v') # r) =
     (if k = k' then (k, v) # r else if k < k' then (k, v) # (k', v') # r
      else (k', v') # map_put k v r)"

definition map_erase :: "'k \<Rightarrow> ('k \<times> 'v) list \<Rightarrow> nat \<times> ('k \<times> 'v) list" where
  "map_erase k xs = (length (filter (\<lambda>e. fst e = k) xs), filter (\<lambda>e. fst e \<noteq> k) xs)"

definition map_ok :: "('k::linorder \<times> 'v) list \<Rightarrow> bool" where
  "map_ok xs \<longleftrightarrow> sorted_wrt (<) (map fst xs)"

lemma map_ok_simps [simp]:
  "map_ok []" "map_ok ((k, v) # r) \<longleftrightarrow> (\<forall>e \<in> set r. k < fst e) \<and> map_ok r"
  by (auto simp: map_ok_def)

lemma keys_map_put: "fst ` set (map_put k v xs) = insert k (fst ` set xs)"
  by (induction k v xs rule: map_put.induct) auto

lemma map_put_above:
  assumes "\<forall>e \<in> set r. a < fst e" "a < k" "e \<in> set (map_put k v r)"
  shows "a < fst e"
proof -
  have "fst e \<in> insert k (fst ` set r)" using assms(3) keys_map_put [of k v r] by blast
  then show ?thesis using assms(1,2) by auto
qed

lemma map_ok_put: "map_ok xs \<Longrightarrow> map_ok (map_put k v xs)"
proof (induction xs)
  case (Cons e r)
  obtain k' v' where e: "e = (k', v')" by (cases e)
  consider "k = k'" | "k < k'" | "k' < k" by (rule linorder_cases)
  then show ?case
  proof cases
    case 2
    then show ?thesis using Cons.prems by (auto simp: e)
  next
    case 3
    then show ?thesis using Cons map_put_above [of r k' k _ v] by (auto simp: e)
  qed (use Cons.prems e in simp)
qed simp

lemma map_of_put [simp]: "map_of (map_put k v xs) = (map_of xs)(k \<mapsto> v)"
  by (induction k v xs rule: map_put.induct) auto

lemma map_of_erase [simp]: "map_of (snd (map_erase k xs)) = (map_of xs)(k := None)"
  unfolding map_erase_def by (induction xs) (auto simp: fun_upd_twist)

lemma map_ok_erase: "map_ok xs \<Longrightarrow> map_ok (snd (map_erase k xs))"
  by (induction xs) (auto simp: map_erase_def)

lemma map_ok_distinct: "map_ok xs \<Longrightarrow> distinct (map fst xs)"
  by (simp add: map_ok_def strict_sorted_iff)

text \<open>A fresh key adds an entry, an old one takes exactly its entry away.\<close>

lemma set_map_put: "k \<notin> fst ` set xs \<Longrightarrow> set (map_put k v xs) = insert (k, v) (set xs)"
  by (induction k v xs rule: map_put.induct) auto

lemma map_erase_present:
  assumes "map_ok xs" "(k, v) \<in> set xs"
  shows "fst (map_erase k xs) = 1" "set (snd (map_erase k xs)) = set xs - {(k, v)}"
proof -
  have d: "distinct (map fst xs)" by (rule map_ok_distinct [OF assms(1)])
  show "fst (map_erase k xs) = 1"
    using d assms(2) unfolding map_erase_def
    by (induction xs) (auto simp: filter_empty_conv image_iff)
  show "set (snd (map_erase k xs)) = set xs - {(k, v)}"
    using d assms(2) eq_key_imp_eq_value [OF d] by (auto simp: map_erase_def)
qed

lemma map_erase_absent: "k \<notin> fst ` set xs \<Longrightarrow> map_erase k xs = (0, xs)"
  by (auto simp: map_erase_def filter_empty_conv filter_id_conv)

end
