(* ===== verification/Base_TimeStamp.thy ===== *)
theory Base_TimeStamp
  imports Cpp_Format
begin

text \<open>
  Time stamps (\<open>base/time_stamp.h\<close>, \<open>base/time_stamp.cpp\<close>): microseconds since the epoch in
  an \<open>int64_t\<close>, here an \<open>int\<close> (the class does no arithmetic that is bound to wrap; overflow
  of a signed value is undefined). The interval a \<open>double\<close> gives is represented by \<open>delta\<close>,
  the microseconds its cast to \<open>int64_t\<close> yields.
\<close>

definition k_micro_seconds_persecond :: int where
  "k_micro_seconds_persecond = 1000 * 1000"

type_synonym timestamp = int

definition TimeStamp_valid :: "timestamp \<Rightarrow> bool" where
  "TimeStamp_valid t \<longleftrightarrow> 0 < t"

definition TimeStamp_invalid :: timestamp where
  "TimeStamp_invalid = 0"

definition seconds_since_epoch :: "timestamp \<Rightarrow> int" where
  "seconds_since_epoch t = t sdiv k_micro_seconds_persecond"

text \<open>\<open>now()\<close> of the \<open>timeval\<close> that \<open>gettimeofday\<close> fills.\<close>

definition TimeStamp_now :: "int \<times> int \<Rightarrow> timestamp" where
  "TimeStamp_now tv = (case tv of (tv_sec, tv_usec) \<Rightarrow> tv_sec * k_micro_seconds_persecond)"

definition TimeStamp_swap :: "timestamp \<Rightarrow> timestamp \<Rightarrow> timestamp \<times> timestamp" where
  "TimeStamp_swap a b = (b, a)"

definition TimeStamp_less :: "timestamp \<Rightarrow> timestamp \<Rightarrow> bool" where
  "TimeStamp_less lhs rhs \<longleftrightarrow> lhs < rhs"

definition TimeStamp_eq :: "timestamp \<Rightarrow> timestamp \<Rightarrow> bool" where
  "TimeStamp_eq lhs rhs \<longleftrightarrow> lhs = rhs"

definition from_unix_time :: "int \<Rightarrow> int \<Rightarrow> timestamp" where
  "from_unix_time t microseconds = t * k_micro_seconds_persecond"

definition add_time :: "timestamp \<Rightarrow> int \<Rightarrow> timestamp" where
  "add_time t delta = t + delta"

definition TimeStamp_to_string :: "timestamp \<Rightarrow> string" where
  "TimeStamp_to_string t =
     (let seconds = t sdiv k_micro_seconds_persecond;
          microseconds = t smod k_micro_seconds_persecond in
      take 31 (dec_int seconds @ CHR ''.'' # zero_pad 6 microseconds))"

text \<open>The value of a text "seconds.microseconds".\<close>

definition stamp_of_string :: "string \<Rightarrow> int" where
  "stamp_of_string s =
     (let sec = takeWhile is_digit s; usec = tl (dropWhile is_digit s) in
      int (dec_value sec) * 1000000 + int (dec_value usec))"

lemma takeWhile_dec_nat:
  "takeWhile is_digit (dec_nat n @ CHR ''.'' # s) = dec_nat n"
  "dropWhile is_digit (dec_nat n @ CHR ''.'' # s) = CHR ''.'' # s"
  using dec_nat_digits [of _ n]
  by (simp_all add: takeWhile_append2 dropWhile_append2 is_digit_def)

text \<open>For a non-negative 64-bit time stamp \<open>to_string\<close> loses nothing: the text has a
  decimal point followed by exactly six digits, fits the 32-byte buffer, and its value is the
  stamp.\<close>

theorem TimeStamp_text_roundtrip:
  assumes "0 \<le> t" "t < 2 ^ 63"
  shows "stamp_of_string (TimeStamp_to_string t) = t \<and>
    (\<exists>sec usec. TimeStamp_to_string t = sec @ CHR ''.'' # usec \<and> length usec = 6 \<and> length sec \<le> 13)"
proof -
  let ?s = "t div 1000000" and ?u = "t mod 1000000"
  let ?txt = "dec_nat (nat ?s) @ CHR ''.'' # zero_pad 6 ?u"
  have "t div 1000000 < 10 ^ 13" using assms by simp
  then have "nat ?s < 10 ^ 13" using assms(1) by (simp add: nat_less_iff)
  then have sec: "length (dec_nat (nat ?s)) \<le> 13" by (intro length_dec_nat) simp_all
  have usec: "length (zero_pad 6 ?u) = 6" by (rule length_zero_pad) simp_all
  have "TimeStamp_to_string t = take 31 ?txt"
    using assms by (simp add: TimeStamp_to_string_def k_micro_seconds_persecond_def sdiv_nonneg
        smod_nonneg Let_def dec_int_def pos_imp_zdiv_neg_iff)
  also have "\<dots> = ?txt" using sec usec by (intro take_all) simp
  finally have full: "TimeStamp_to_string t = ?txt" .
  have "stamp_of_string ?txt = ?s * 1000000 + ?u"
    using assms by (simp add: stamp_of_string_def takeWhile_dec_nat dec_value_zero_pad Let_def
        pos_imp_zdiv_nonneg_iff)
  then have "stamp_of_string ?txt = t" by simp
  with full sec usec show ?thesis by auto
qed

theorem TimeStamp_text_roundtrip_witness:
  "stamp_of_string (TimeStamp_to_string 1700000000000042) = 1700000000000042"
  using TimeStamp_text_roundtrip [of 1700000000000042] by simp

end
