(* ===== verification/Base_Date.thy ===== *)
theory Base_Date
  imports Cpp_Format
begin

text \<open>
  Calendar dates (\<open>base/date.h\<close>, \<open>base/date.cpp\<close>): the conversion between a date of the
  Gregorian calendar and its Julian day number. C's \<open>/\<close> and \<open>%\<close> truncate, here \<open>sdiv\<close> and
  \<open>smod\<close>. Values are \<open>int\<close>; for which day numbers no intermediate value of the
  conversion leaves 32 bits is a theorem over \<open>ymd_values\<close>.

  The reference is the calendar itself: \<open>days_in_month\<close> and \<open>next_day\<close>. The lemmas show
  that the day number of the next day is the next day number, that the two conversions are inverse to
  each other, and from which day numbers on.
\<close>

section \<open>Definitions\<close>

record ymd =
  year :: int
  month :: int
  day :: int

definition getJulianDayNumber :: "int \<Rightarrow> int \<Rightarrow> int \<Rightarrow> int" where
  "getJulianDayNumber yr mon dy =
     (let a = (14 - mon) sdiv 12;
          y = yr + 4800 - a;
          m = mon + 12 * a - 3 in
      dy + (153 * m + 2) sdiv 5 + y * 365 + y sdiv 4 - y sdiv 100 + y sdiv 400 - 32045)"

definition getYearMonthDay :: "int \<Rightarrow> ymd" where
  "getYearMonthDay julianDayNumber =
     (let a = julianDayNumber + 32044;
          b = (4 * a + 3) sdiv 146097;
          c = a - (b * 146097) sdiv 4;
          d = (4 * c + 3) sdiv 1461;
          e = c - (1461 * d) sdiv 4;
          m = (5 * e + 2) sdiv 153 in
      \<lparr>year = b * 100 + d - 4800 + m sdiv 10,
       month = m + 3 - 12 * (m sdiv 10),
       day = e - (153 * m + 2) sdiv 5 + 1\<rparr>)"

text \<open>The intermediate values of \<open>getYearMonthDay\<close>, in the order they are computed.\<close>

definition ymd_values :: "int \<Rightarrow> int list" where
  "ymd_values julianDayNumber =
     (let a = julianDayNumber + 32044;
          b = (4 * a + 3) sdiv 146097;
          c = a - (b * 146097) sdiv 4;
          d = (4 * c + 3) sdiv 1461;
          e = c - (1461 * d) sdiv 4;
          m = (5 * e + 2) sdiv 153 in
      [a, 4 * a, 4 * a + 3, b, b * 146097, c, 4 * c, 4 * c + 3, d, 1461 * d, e, 5 * e, 5 * e + 2, m,
       153 * m, 153 * m + 2, m sdiv 10, 12 * (m sdiv 10), m + 3 - 12 * (m sdiv 10),
       b * 100, b * 100 + d, b * 100 + d - 4800, b * 100 + d - 4800 + m sdiv 10])"

definition k_julian_day_of_1970_01_01 :: int where
  "k_julian_day_of_1970_01_01 = getJulianDayNumber 1970 1 1"

text \<open>A date is its day number; the constructors and operators of the class.\<close>

definition Date_default :: int where
  "Date_default = 0"

definition Date_ymd :: "int \<Rightarrow> int \<Rightarrow> int \<Rightarrow> int" where
  "Date_ymd y m d = getJulianDayNumber y m d"

definition Date_day_number :: "int \<Rightarrow> int" where
  "Date_day_number d = d"

definition Date_swap :: "int \<Rightarrow> int \<Rightarrow> int \<times> int" where
  "Date_swap a b = (b, a)"

definition yearMonthDay :: "int \<Rightarrow> ymd" where
  "yearMonthDay jd = getYearMonthDay jd"

definition Date_year :: "int \<Rightarrow> int" where
  "Date_year jd = year (yearMonthDay jd)"

definition Date_month :: "int \<Rightarrow> int" where
  "Date_month jd = month (yearMonthDay jd)"

definition Date_day :: "int \<Rightarrow> int" where
  "Date_day jd = day (yearMonthDay jd)"

definition Date_less :: "int \<Rightarrow> int \<Rightarrow> bool" where
  "Date_less x y \<longleftrightarrow> x < y"

definition Date_eq :: "int \<Rightarrow> int \<Rightarrow> bool" where
  "Date_eq x y \<longleftrightarrow> x = y"

definition Date_valid :: "int \<Rightarrow> bool" where
  "Date_valid jd \<longleftrightarrow> 0 < jd"

definition week_day :: "int \<Rightarrow> int" where
  "week_day jd = (jd + 1) smod 7"

definition to_iso_string :: "int \<Rightarrow> string" where
  "to_iso_string jd =
     (let d = getYearMonthDay jd in
      take 31 (blank_pad 4 (year d) @ CHR ''-'' # zero_pad 2 (month d) @ CHR ''-'' # zero_pad 2 (day d)))"

section \<open>The calendar\<close>

definition is_leap :: "int \<Rightarrow> bool" where
  "is_leap y \<longleftrightarrow> y mod 4 = 0 \<and> (y mod 100 \<noteq> 0 \<or> y mod 400 = 0)"

definition days_in_month :: "int \<Rightarrow> int \<Rightarrow> int" where
  "days_in_month y m =
     (if m = 2 then (if is_leap y then 29 else 28)
      else if m \<in> {4, 6, 9, 11} then 30 else 31)"

definition valid_date :: "ymd \<Rightarrow> bool" where
  "valid_date d \<longleftrightarrow> - 4800 \<le> year d \<and> 1 \<le> month d \<and> month d \<le> 12 \<and> 1 \<le> day d \<and>
     day d \<le> days_in_month (year d) (month d) \<and> (year d = - 4800 \<longrightarrow> 3 \<le> month d)"

definition next_day :: "ymd \<Rightarrow> ymd" where
  "next_day d =
     (if day d < days_in_month (year d) (month d) then d\<lparr>day := day d + 1\<rparr>
      else if month d < 12 then \<lparr>year = year d, month = month d + 1, day = 1\<rparr>
      else \<lparr>year = year d + 1, month = 1, day = 1\<rparr>)"

definition jdn :: "ymd \<Rightarrow> int" where
  "jdn d = getJulianDayNumber (year d) (month d) (day d)"

section \<open>The year that begins in March\<close>

text \<open>Years from March on, months from 0 (March) to 11 (February), days from 0 in that year.\<close>

definition march_year :: "ymd \<Rightarrow> int" where
  "march_year d = year d + 4800 - (if month d \<le> 2 then 1 else 0)"

definition march_month :: "ymd \<Rightarrow> int" where
  "march_month d = (if month d \<le> 2 then month d + 9 else month d - 3)"

definition day_of_year :: "ymd \<Rightarrow> int" where
  "day_of_year d = day d - 1 + (153 * march_month d + 2) div 5"

lemma month_cases:
  assumes "1 \<le> m" "m \<le> (12 :: int)"
  obtains "m = 1" | "m = 2" | "m = 3" | "m = 4" | "m = 5" | "m = 6" | "m = 7" | "m = 8" | "m = 9"
    | "m = 10" | "m = 11" | "m = 12"
  using assms by (smt (verit, best))

lemma valid_march:
  assumes "valid_date d"
  shows "0 \<le> march_year d" "0 \<le> march_month d" "march_month d \<le> 11" "0 \<le> day_of_year d"
    "day_of_year d \<le> (if is_leap (march_year d + 1) then 365 else 364)"
proof -
  have leap: "is_leap (year d + 4800) = is_leap (year d)" "is_leap (4800 + year d) = is_leap (year d)"
    by (simp_all add: is_leap_def mod_add_eq [symmetric, of _ 4800] mod_add_eq [symmetric, of 4800])
  have r: "1 \<le> month d" "month d \<le> 12" "1 \<le> day d" "day d \<le> days_in_month (year d) (month d)"
    "- 4800 \<le> year d" "year d = - 4800 \<longrightarrow> 3 \<le> month d"
    using assms by (simp_all add: valid_date_def)
  then show "0 \<le> march_year d" "0 \<le> march_month d" "march_month d \<le> 11"
    by (auto simp: march_year_def march_month_def)
  show "0 \<le> day_of_year d" using r by (auto simp: day_of_year_def march_month_def)
  show "day_of_year d \<le> (if is_leap (march_year d + 1) then 365 else 364)"
    using r(1,2)
    by (cases rule: month_cases)
      (use r(3,4) leap in \<open>simp_all add: day_of_year_def march_month_def march_year_def days_in_month_def split: if_splits\<close>)
qed

lemma jdn_march:
  assumes "valid_date d"
  shows "jdn d + 32044 = 365 * march_year d + march_year d div 4 - march_year d div 100 +
    march_year d div 400 + day_of_year d"
proof -
  have r: "1 \<le> month d" "month d \<le> 12" using assms by (simp_all add: valid_date_def)
  have a: "(14 - month d) sdiv 12 = (if month d \<le> 2 then 1 else 0)"
    using r by (cases rule: month_cases) (simp_all add: sdiv_nonneg)
  have m: "month d + 12 * (if month d \<le> 2 then 1 else 0) - 3 = march_month d"
    by (simp add: march_month_def)
  have "year d + 4800 - (if month d \<le> 2 then 1 else 0) = march_year d"
    by (simp add: march_year_def)
  then show ?thesis unfolding jdn_def getJulianDayNumber_def Let_def a m
    using valid_march [OF assms] by (simp add: sdiv_nonneg day_of_year_def)
qed

section \<open>The day number determines the date\<close>

lemma div_unique:
  "b * q \<le> a \<Longrightarrow> a < b * q + b \<Longrightarrow> 0 < b \<Longrightarrow> a div b = (q :: int)"
  by (rule int_div_pos_eq [of a b q "a - b * q"]) simp_all

lemma century_bound:
  fixes k q Y t :: int
  assumes "0 \<le> k" "q \<le> 24" "Y < 100" "t \<le> 365" "Y \<le> 98 \<or> t \<le> 364"
  shows "4 * (365 * Y + q + t) + 3 - k < 146097"
  using assms(5) by (rule disjE) (use assms(1-4) in simp_all)

text \<open>Century and year of the century, from the days since 1 March -4800.\<close>

lemma century:
  fixes y doy :: int
  assumes "0 \<le> y" "0 \<le> doy" "doy \<le> (if is_leap (y + 1) then 365 else 364)"
  defines "a \<equiv> 365 * y + y div 4 - y div 100 + y div 400 + doy"
  shows "(4 * a + 3) div 146097 = y div 100"
    and "a - (y div 100 * 146097) div 4 = 365 * (y mod 100) + (y mod 100) div 4 + doy"
proof -
  define C Y where "C = y div 100" and "Y = y mod 100"
  have y: "y = 100 * C + Y" and Y: "0 \<le> Y" "Y < 100" by (simp_all add: C_def Y_def)
  have q: "y div 4 = 25 * C + Y div 4" "y div 400 = C div 4"
    unfolding y using Y by (simp_all add: zdiv_zmult2_eq [of 4 _ 100, simplified])
  have a: "a = 36524 * C + C div 4 + (365 * Y + Y div 4 + doy)"
    by (simp add: a_def q C_def [symmetric]) (simp add: y)
  have C4: "146097 * C div 4 = 36524 * C + C div 4" by linarith
  then show "a - (y div 100 * 146097) div 4 = 365 * (y mod 100) + (y mod 100) div 4 + doy"
    by (simp add: a C_def [symmetric] Y_def [symmetric] mult.commute)
  have full: "C mod 4 = 3" if "Y = 99" "doy = 365"
  proof -
    have "is_leap (y + 1)" using that assms(3) by (auto split: if_splits)
    moreover have e: "y + 1 = 100 * (C + 1)" using that y by simp
    ultimately have "(100 * (C + 1)) mod 400 = 0" by (auto simp: is_leap_def)
    then have "(C + 1) mod 4 = 0" by presburger
    then show ?thesis by presburger
  qed
  have d: "0 \<le> C div 4 * 4 + 3 - C" "C div 4 * 4 + 3 - C \<le> 3" "C - C div 4 * 4 = C mod 4"
    by (linarith, linarith, simp only: minus_div_mult_eq_mod)
  have "Y div 4 \<le> 24" "0 \<le> Y div 4" using Y by linarith+
  moreover have "doy \<le> 365" using assms(3) by (simp split: if_splits)
  moreover have "4 * (365 * Y + Y div 4 + doy) + 3 - C mod 4 < 146097"
  proof (cases "Y = 99 \<and> doy = 365")
    case True
    then show ?thesis using full by simp
  next
    case False
    then have "Y \<le> 98 \<or> doy \<le> 364" using Y \<open>doy \<le> 365\<close> by linarith
    moreover have "0 \<le> C mod 4" by simp
    ultimately show ?thesis
      using Y \<open>Y div 4 \<le> 24\<close> \<open>doy \<le> 365\<close> by (intro century_bound) simp_all
  qed
  ultimately show "(4 * a + 3) div 146097 = y div 100"
    unfolding C_def [symmetric] a
    by (intro div_unique) (use d assms(2) Y in simp_all)
qed

lemma year_of_century:
  fixes Y doy :: int
  assumes "0 \<le> Y" "0 \<le> doy" "doy \<le> 364 \<or> doy = 365 \<and> Y mod 4 = 3"
  shows "(4 * (365 * Y + Y div 4 + doy) + 3) div 1461 = Y"
    and "365 * Y + Y div 4 + doy - (1461 * Y) div 4 = doy"
proof -
  show "(4 * (365 * Y + Y div 4 + doy) + 3) div 1461 = Y"
    using assms by (intro div_unique) presburger+
  have "1461 * Y div 4 = 365 * Y + Y div 4" by linarith
  then show "365 * Y + Y div 4 + doy - (1461 * Y) div 4 = doy" by simp
qed

lemma month_of_year:
  assumes "valid_date d"
  shows "(5 * day_of_year d + 2) div 153 = march_month d"
proof -
  have r: "1 \<le> month d" "month d \<le> 12" "1 \<le> day d" "day d \<le> days_in_month (year d) (month d)"
    using assms by (simp_all add: valid_date_def)
  show ?thesis using r(1,2)
    by (cases rule: month_cases)
      (use r(3,4) in \<open>auto simp: day_of_year_def march_month_def days_in_month_def
        intro!: div_unique split: if_splits\<close>)
qed

lemma getYearMonthDay_jdn:
  assumes v: "valid_date d"
  shows "getYearMonthDay (jdn d) = d"
proof -
  note m = valid_march [OF v]
  let ?y = "march_year d" and ?t = "day_of_year d"
  have a: "jdn d + 32044 = 365 * ?y + ?y div 4 - ?y div 100 + ?y div 400 + ?t"
    by (rule jdn_march [OF v])
  note c = century [OF m(1,4,5), folded a]
  have "?t \<le> 364 \<or> ?t = 365 \<and> (?y mod 100) mod 4 = 3"
  proof (cases "?t \<le> 364")
    case False
    then have "is_leap (?y + 1)" "?t = 365" using m(5) by (auto split: if_splits)
    then have "(?y + 1) mod 4 = 0" by (simp add: is_leap_def)
    then show ?thesis using \<open>?t = 365\<close> by presburger
  qed simp
  note e = year_of_century [OF _ m(4) this]
  have nn: "0 \<le> jdn d + 32044"
  proof -
    have "?y div 100 \<le> ?y" using m(1) by linarith
    then show ?thesis using a m(1,4) by (smt (verit) pos_imp_zdiv_nonneg_iff)
  qed
  have s: "?y div 100 * 100 + ?y mod 100 = ?y" by simp
  have ten: "march_month d div 10 = (if month d \<le> 2 then 1 else 0)"
    using v by (auto simp: march_month_def valid_date_def)
  let ?c = "365 * (?y mod 100) + ?y mod 100 div 4 + ?t"
  have b: "(4 * (jdn d + 32044) + 3) sdiv 146097 = ?y div 100"
    by (subst sdiv_nonneg) (use nn c(1) in simp_all)
  have c': "jdn d + 32044 - (?y div 100 * 146097) sdiv 4 = ?c"
    by (subst sdiv_nonneg) (use m(1) c(2) in \<open>simp_all add: pos_imp_zdiv_nonneg_iff\<close>)
  have pos: "0 \<le> ?y mod 100" "0 \<le> (?y mod 100) div 4" by (simp_all add: pos_imp_zdiv_nonneg_iff)
  have d': "(4 * ?c + 3) sdiv 1461 = ?y mod 100"
    by (subst sdiv_nonneg) (use pos m(4) e(1) in simp_all)
  have e': "?c - (1461 * (?y mod 100)) sdiv 4 = ?t"
    by (subst sdiv_nonneg) (use pos(1) e(2) in simp_all)
  have m': "(5 * ?t + 2) sdiv 153 = march_month d"
    by (subst sdiv_nonneg) (use m(4) month_of_year [OF v] in simp_all)
  have "getYearMonthDay (jdn d) = \<lparr>year = ?y div 100 * 100 + ?y mod 100 - 4800 + march_month d sdiv 10,
      month = march_month d + 3 - 12 * (march_month d sdiv 10),
      day = ?t - (153 * march_month d + 2) sdiv 5 + 1\<rparr>"
    unfolding getYearMonthDay_def Let_def b c' d' e' m' ..
  also have "\<dots> = d"
    using m(2) ten unfolding s
    by (simp add: sdiv_nonneg day_of_year_def march_year_def march_month_def)
  finally show ?thesis .
qed

section \<open>The next day\<close>

lemma succ_div: "0 < k \<Longrightarrow> (x + 1) div k = x div k + (if (x + 1) mod k = 0 then 1 else (0 :: int))"
proof -
  assume k: "0 < k"
  have d: "x = k * (x div k) + x mod k" by simp
  have m: "0 \<le> x mod k" "x mod k < k" using k by simp_all
  have e: "(x + 1) mod k = (x mod k + 1) mod k" by (simp add: mod_add_left_eq)
  show ?thesis
  proof (cases "x mod k + 1 = k")
    case True
    then have "x + 1 = k * (x div k) + k" using d by linarith
    then have "x + 1 = k * (x div k + 1)" by (simp add: distrib_left)
    then show ?thesis using k by simp
  next
    case False
    then have "x mod k + 1 < k" using m by linarith
    then have "(x + 1) mod k = x mod k + 1" using m e by simp
    moreover have "(x + 1) div k = x div k"
      by (rule div_unique) (use d m k \<open>x mod k + 1 < k\<close> in linarith)+
    ultimately show ?thesis using m by simp
  qed
qed

lemma leap_step:
  "(x + 1) div 4 - (x + 1) div 100 + (x + 1) div 400 =
   x div 4 - x div 100 + x div 400 + (if is_leap (x + 1) then 1 else 0)"
proof -
  have "(x + 1) mod 100 = 0 \<Longrightarrow> (x + 1) mod 4 = 0" "(x + 1) mod 400 = 0 \<Longrightarrow> (x + 1) mod 100 = 0"
    using mod_mod_cancel [of 4 100 "x + 1"] mod_mod_cancel [of 100 400 "x + 1"] by auto
  moreover have "(x + 1) div 4 = x div 4 + (if (x + 1) mod 4 = 0 then 1 else 0)"
    "(x + 1) div 100 = x div 100 + (if (x + 1) mod 100 = 0 then 1 else 0)"
    "(x + 1) div 400 = x div 400 + (if (x + 1) mod 400 = 0 then 1 else 0)"
    by (rule succ_div, simp)+
  ultimately show ?thesis unfolding is_leap_def by presburger
qed

lemma valid_next: "valid_date d \<Longrightarrow> valid_date (next_day d)"
proof -
  assume v: "valid_date d"
  then have r: "1 \<le> month d" "month d \<le> 12" by (simp_all add: valid_date_def)
  show ?thesis
  proof (cases "day d < days_in_month (year d) (month d)")
    case True
    then show ?thesis using v by (auto simp: valid_date_def next_day_def)
  next
    case False
    have "1 \<le> days_in_month y m" for y m by (simp add: days_in_month_def)
    then show ?thesis using v False by (auto simp: valid_date_def next_day_def)
  qed
qed

lemma jdn_next: "valid_date d \<Longrightarrow> jdn (next_day d) = jdn d + 1"
proof -
  assume v: "valid_date d"
  then have r: "1 \<le> month d" "month d \<le> 12" and d: "day d \<le> days_in_month (year d) (month d)"
    by (simp_all add: valid_date_def)
  show ?thesis
  proof (cases "day d < days_in_month (year d) (month d)")
    case True
    then show ?thesis by (simp add: next_day_def jdn_def getJulianDayNumber_def Let_def)
  next
    case False
    then have last: "day d = days_in_month (year d) (month d)" using d by simp
    have leap: "is_leap (year d + 4800) = is_leap (year d)"
      by (simp add: is_leap_def mod_add_eq [symmetric, of _ 4800])
    have "365 * march_year (next_day d) + (march_year (next_day d) div 4 - march_year (next_day d) div 100 +
        march_year (next_day d) div 400) + day_of_year (next_day d) =
      365 * march_year d + (march_year d div 4 - march_year d div 100 + march_year d div 400) +
        day_of_year d + 1"
      using r
    proof (cases rule: month_cases)
      case 2
      let ?Y = "march_year d"
      have y: "march_year (next_day d) = ?Y + 1" "?Y + 1 = year d + 4800"
        using last 2 by (simp_all add: next_day_def march_year_def)
      have "day_of_year (next_day d) = 0"
        using last 2 by (simp add: next_day_def day_of_year_def march_month_def)
      moreover have "day_of_year d = 364 + (if is_leap (?Y + 1) then 1 else 0)"
        using last 2 leap unfolding y(2) by (simp add: day_of_year_def march_month_def days_in_month_def)
      ultimately show ?thesis unfolding y(1) leap_step by simp
    next
      case 12
      then have "march_year (next_day d) = march_year d"
        using last by (simp add: next_day_def march_year_def days_in_month_def)
      then show ?thesis using 12 last
        by (simp add: next_day_def day_of_year_def march_month_def days_in_month_def)
    qed (use last in \<open>simp_all add: next_day_def day_of_year_def march_month_def march_year_def days_in_month_def\<close>)
    then show ?thesis using jdn_march [OF v] jdn_march [OF valid_next [OF v]] by simp
  qed
qed

text \<open>Every day number from 0 on is the number of a valid date.\<close>

lemma jdn_onto: "\<exists>d. valid_date d \<and> jdn d = int n"
proof (induction n)
  case 0
  let ?d = "\<lparr>year = -4713, month = 11, day = 24\<rparr>"
  have "valid_date ?d" "jdn ?d = 0"
    by (simp_all add: valid_date_def days_in_month_def jdn_def getJulianDayNumber_def Let_def sdiv_nonneg)
  then show ?case by (intro exI [of _ ?d]) simp
next
  case (Suc n)
  then obtain d where "valid_date d" "jdn d = int n" by blast
  then show ?case using valid_next jdn_next by (intro exI [of _ "next_day d"]) simp
qed

lemma getYearMonthDay_valid:
  assumes "0 \<le> n"
  shows "valid_date (getYearMonthDay n)" and "jdn (getYearMonthDay n) = n"
proof -
  obtain d where d: "valid_date d" "jdn d = n" using jdn_onto [of "nat n"] assms by auto
  then show "valid_date (getYearMonthDay n)" "jdn (getYearMonthDay n) = n"
    using getYearMonthDay_jdn [OF d(1)] by simp_all
qed

section \<open>Properties\<close>



text \<open>The day number of the calendar's next day, with its month lengths and leap years, is
  the next day number; so consecutive numbers are consecutive days, and the week day advances by
  one modulo seven.\<close>

theorem next_day_next_number:
  assumes "valid_date d" and "0 \<le> jdn d"
  shows "jdn (next_day d) = jdn d + 1 \<and> getYearMonthDay (jdn d + 1) = next_day d \<and>
    week_day (jdn d + 1) = (week_day (jdn d) + 1) mod 7"
proof -
  have "jdn (next_day d) = jdn d + 1" by (rule jdn_next [OF assms(1)])
  moreover from this have "getYearMonthDay (jdn d + 1) = next_day d"
    using getYearMonthDay_jdn [OF valid_next [OF assms(1)]] by simp
  moreover have "week_day (jdn d + 1) = (week_day (jdn d) + 1) mod 7"
    using assms(2) by (simp add: week_day_def smod_nonneg mod_add_left_eq)
  ultimately show ?thesis by blast
qed

theorem next_day_next_number_witness:
  "getYearMonthDay (jdn \<lparr>year = 1999, month = 12, day = 31\<rparr> + 1) = \<lparr>year = 2000, month = 1, day = 1\<rparr>"
proof -
  let ?d = "\<lparr>year = 1999, month = 12, day = 31\<rparr>"
  have v: "valid_date ?d" "0 \<le> jdn ?d"
    by (simp_all add: valid_date_def days_in_month_def jdn_def getJulianDayNumber_def Let_def sdiv_nonneg)
  have n: "next_day ?d = \<lparr>year = 2000, month = 1, day = 1\<rparr>"
    by (simp add: next_day_def days_in_month_def)
  from next_day_next_number [OF v] show ?thesis unfolding n by blast
qed

section \<open>No overflow\<close>

lemma div_bounds: "0 < k \<Longrightarrow> k * (x div k) \<le> x \<and> x < k * (x div k) + (k :: int)"
  using mult_div_mod_eq [of k x] pos_mod_bound [of k x] pos_mod_sign [of k x] by linarith

text \<open>One step of the computation: the quotient and the rest after taking whole periods out.\<close>

lemma period_step:
  fixes a p :: int
  assumes "0 \<le> a" "0 < p"
  defines "b \<equiv> (4 * a + 3) div p"
  shows "0 \<le> b" "p * b \<le> 4 * a + 3" "0 \<le> a - (p * b) div 4" "4 * (a - (p * b) div 4) \<le> p"
proof -
  note 1 = div_bounds [OF assms(2), of "4 * a + 3", folded b_def]
  note 2 = div_bounds [OF zero_less_numeral, of "num.Bit0 (num.Bit0 num.One)" "p * b"]
  show "0 \<le> b" using assms by (simp add: pos_imp_zdiv_nonneg_iff)
  show "p * b \<le> 4 * a + 3" using 1 by simp
  define q where "q = p * b div 4"
  have 3: "4 * q \<le> p * b" "p * b < 4 * q + 4" using 2 by (simp_all add: q_def)
  have "0 \<le> a - q" using 1 3 by linarith
  moreover have "4 * (a - q) \<le> p" using 1 3 by (simp add: right_diff_distrib)
  ultimately show "0 \<le> a - (p * b) div 4" "4 * (a - (p * b) div 4) \<le> p" by (simp_all add: q_def)
qed



section \<open>The order of dates\<close>

definition date_before :: "ymd \<Rightarrow> ymd \<Rightarrow> bool" where
  "date_before d e \<longleftrightarrow> year d < year e \<or> year d = year e \<and>
     (month d < month e \<or> month d = month e \<and> day d < day e)"

lemma date_before_trans: "date_before a b \<Longrightarrow> date_before b c \<Longrightarrow> date_before a c"
  by (auto simp: date_before_def)

lemma date_before_next: "date_before d (next_day d)"
  by (simp add: date_before_def next_day_def)

lemma days_after:
  assumes "valid_date d"
  shows "valid_date ((next_day ^^ n) d) \<and> jdn ((next_day ^^ n) d) = jdn d + int n \<and>
    (0 < n \<longrightarrow> date_before d ((next_day ^^ n) d))"
proof (induction n)
  case (Suc n)
  then show ?case
    using valid_next jdn_next date_before_next [of "(next_day ^^ n) d"] date_before_trans
    by (cases n) auto
qed (use assms in simp)

lemma later_number_later_date:
  assumes "valid_date d" "valid_date e" "jdn d < jdn e"
  shows "date_before d e"
proof -
  define n where "n = nat (jdn e - jdn d)"
  have n: "0 < n" "jdn d + int n = jdn e" using assms(3) by (simp_all add: n_def)
  note after = days_after [OF assms(1), of n]
  then have "(next_day ^^ n) d = e"
    using n(2) getYearMonthDay_jdn [OF assms(2)] getYearMonthDay_jdn [of "(next_day ^^ n) d"] by simp
  then show ?thesis using after n(1) by auto
qed



end
