(* ===== verification/Net_Endian.thy ===== *)
theory Net_Endian
  imports Cpp_Prelude
begin

unbundle bit_operations_syntax

text \<open>
  Byte order (\<open>net/endian.h\<close>). \<open>le_bytes n x\<close> is the object representation of the integer
  \<open>x\<close> in \<open>n\<close> bytes on the little-endian host the program is built for, \<open>le_word\<close> reads it
  back; \<open>hostToNetwork\<close> and \<open>networkToHost\<close> are \<open>htobe\<close> and \<open>betoh\<close> of
  \<open>endian.h\<close>, which reverse the bytes there. The codec locale states what a buffer needs
  from an integer encoding, and is interpreted for the three widths the code uses.
\<close>

definition le_bytes :: "nat \<Rightarrow> 'a::len word \<Rightarrow> byte list" where
  "le_bytes n x = map (\<lambda>i. ucast (drop_bit (8 * i) x)) [0..<n]"

fun le_word :: "byte list \<Rightarrow> 'a::len word" where
  "le_word [] = 0"
| "le_word (b # bs) = (ucast b) OR (push_bit 8 (le_word bs))"

definition bswap :: "nat \<Rightarrow> 'a::len word \<Rightarrow> 'a word" where
  "bswap n x = le_word (rev (le_bytes n x))"

definition hostToNetwork64 :: "64 word \<Rightarrow> 64 word" where
  "hostToNetwork64 host64 = bswap 8 host64"

definition hostToNetwork32 :: "32 word \<Rightarrow> 32 word" where
  "hostToNetwork32 host32 = bswap 4 host32"

definition hostToNetwork16 :: "16 word \<Rightarrow> 16 word" where
  "hostToNetwork16 host16 = bswap 2 host16"

definition networkToHost64 :: "64 word \<Rightarrow> 64 word" where
  "networkToHost64 net64 = bswap 8 net64"

definition networkToHost32 :: "32 word \<Rightarrow> 32 word" where
  "networkToHost32 net32 = bswap 4 net32"

definition networkToHost16 :: "16 word \<Rightarrow> 16 word" where
  "networkToHost16 net16 = bswap 2 net16"

section \<open>Representation lemmas\<close>

lemma length_le_bytes [simp]: "length (le_bytes n x) = n"
  by (simp add: le_bytes_def)

lemma bit_le_word:
  "bit (le_word bs :: 'a::len word) k \<longleftrightarrow>
     k < LENGTH('a) \<and> k div 8 < length bs \<and> bit (bs ! (k div 8)) (k mod 8)"
proof (induction bs arbitrary: k)
  case Nil
  then show ?case by simp
next
  case (Cons b bs)
  have step: "bit (le_word (b # bs) :: 'a word) k \<longleftrightarrow>
      k < LENGTH('a) \<and> (bit b k \<or> 8 \<le> k \<and> bit (le_word bs :: 'a word) (k - 8))"
    by (auto simp: bit_or_iff bit_ucast_iff bit_push_bit_iff dest: bit_imp_le_length)
  show ?case
  proof (cases "k < 8")
    case True
    then show ?thesis unfolding step by simp
  next
    case False
    then obtain j where j: "k = j + 8" by (metis add.commute le_Suc_ex not_less)
    have "\<not> bit b k" using False bit_imp_le_length [of b k] by auto
    moreover have "k div 8 = Suc (j div 8)" "k mod 8 = j mod 8" using j by simp_all
    ultimately show ?thesis unfolding step Cons.IH using j by auto
  qed
qed

lemma le_word_le_bytes:
  assumes "LENGTH('a) \<le> 8 * n"
  shows "le_word (le_bytes n (x :: 'a::len word)) = x"
proof (rule bit_word_eqI)
  fix k assume k: "k < LENGTH('a)"
  then have "k div 8 < n" using assms by (simp add: less_mult_imp_div_less mult.commute)
  moreover have "8 * (k div 8) + k mod 8 = k" by simp
  ultimately show "bit (le_word (le_bytes n x) :: 'a word) k = bit x k"
    using k by (simp add: bit_le_word le_bytes_def bit_ucast_iff bit_drop_bit_eq)
qed

lemma le_bytes_le_word:
  assumes "LENGTH('a) = 8 * length bs"
  shows "le_bytes (length bs) (le_word bs :: 'a::len word) = bs"
proof (rule nth_equalityI)
  fix i assume i: "i < length (le_bytes (length bs) (le_word bs :: 'a word))"
  show "le_bytes (length bs) (le_word bs :: 'a word) ! i = bs ! i"
  proof (rule bit_word_eqI)
    fix k assume k: "k < LENGTH(8)"
    have "8 * i + k < LENGTH('a)" using i k assms by simp
    moreover have "(8 * i + k) div 8 = i" "(8 * i + k) mod 8 = k" using k by simp_all
    ultimately show "bit (le_bytes (length bs) (le_word bs :: 'a word) ! i) k = bit (bs ! i) k"
      using i k by (simp add: le_bytes_def bit_ucast_iff bit_drop_bit_eq bit_le_word)
  qed
qed simp

lemma le_bytes_bswap:
  assumes "LENGTH('a) = 8 * n"
  shows "le_bytes n (bswap n (x :: 'a::len word)) = rev (le_bytes n x)"
  using le_bytes_le_word [of "rev (le_bytes n x)", where 'a = 'a] assms
  by (simp add: bswap_def)

lemma bswap_bswap:
  assumes "LENGTH('a) = 8 * n"
  shows "bswap n (bswap n (x :: 'a::len word)) = x"
proof -
  have "bswap n (bswap n x) = le_word (le_bytes n x)"
    using assms by (simp add: bswap_def [of n "bswap n x"] le_bytes_bswap)
  then show ?thesis using assms by (simp add: le_word_le_bytes)
qed

section \<open>Fixed-width codecs\<close>

text \<open>
  What a byte buffer relies on when it stores an integer: \<open>enc\<close> yields \<open>width\<close> bytes and
  \<open>dec\<close> reads them back.
\<close>

locale codec =
  fixes width :: nat
    and enc :: "'v \<Rightarrow> byte list"
    and dec :: "byte list \<Rightarrow> 'v"
  assumes enc_length: "length (enc x) = width"
    and dec_enc: "dec (enc x) = x"
begin

lemma enc_inject: "enc x = enc y \<longleftrightarrow> x = y"
  using dec_enc by metis

lemma dec_prefix: "dec (take width (enc x @ rest)) = x"
  by (simp add: enc_length dec_enc)

lemma width_le_prefix: "width \<le> length (enc x @ rest)"
  by (simp add: enc_length)

end

definition wire64 :: "64 word \<Rightarrow> byte list" where
  "wire64 x = le_bytes 8 (hostToNetwork64 x)"

definition wire32 :: "32 word \<Rightarrow> byte list" where
  "wire32 x = le_bytes 4 (hostToNetwork32 x)"

definition wire16 :: "16 word \<Rightarrow> byte list" where
  "wire16 x = le_bytes 2 (hostToNetwork16 x)"

definition wire8 :: "8 word \<Rightarrow> byte list" where
  "wire8 x = [x]"

definition unwire64 :: "byte list \<Rightarrow> 64 word" where
  "unwire64 bs = networkToHost64 (le_word bs)"

definition unwire32 :: "byte list \<Rightarrow> 32 word" where
  "unwire32 bs = networkToHost32 (le_word bs)"

definition unwire16 :: "byte list \<Rightarrow> 16 word" where
  "unwire16 bs = networkToHost16 (le_word bs)"

definition unwire8 :: "byte list \<Rightarrow> 8 word" where
  "unwire8 bs = bs ! 0"

lemmas wire_defs = wire64_def wire32_def wire16_def wire8_def
  unwire64_def unwire32_def unwire16_def unwire8_def
  hostToNetwork64_def hostToNetwork32_def hostToNetwork16_def
  networkToHost64_def networkToHost32_def networkToHost16_def

interpretation c64: codec 8 wire64 unwire64
  by unfold_locales (simp_all add: wire_defs le_word_le_bytes bswap_bswap)

interpretation c32: codec 4 wire32 unwire32
  by unfold_locales (simp_all add: wire_defs le_word_le_bytes bswap_bswap)

interpretation c16: codec 2 wire16 unwire16
  by unfold_locales (simp_all add: wire_defs le_word_le_bytes bswap_bswap)

interpretation c8: codec 1 wire8 unwire8
  by unfold_locales (simp_all add: wire_defs)

text \<open>The wire format is big-endian: most significant byte first.\<close>

lemma wire64_big_endian: "wire64 x = rev (le_bytes 8 x)"
  by (simp add: wire_defs le_bytes_bswap)

lemma wire32_big_endian: "wire32 x = rev (le_bytes 4 x)"
  by (simp add: wire_defs le_bytes_bswap)

lemma wire16_big_endian: "wire16 x = rev (le_bytes 2 x)"
  by (simp add: wire_defs le_bytes_bswap)

end
