(* ===== verification/Base_TimeZone.thy ===== *)
theory Base_TimeZone
  imports Base_Date Net_Endian
begin

text \<open>
  Time zones (\<open>base/time_zone.h\<close>, \<open>base/time_zone.cpp\<close>): broken-down UTC time, the table of
  transitions of a zone with its binary search, and the reader of zone files.

  \<open>gmtime_r\<close> and \<open>timegm\<close> of the C library are the parameters \<open>gmtime\<close> and \<open>timegm\<close>;
  the class's own \<open>to_utc_time\<close> and \<open>from_utc_time\<close> are an instance of what is assumed of
  them. A zone file is the list of its bytes, \<open>None\<close> when it cannot be opened; a
  \<open>logic_error\<close> thrown while reading is caught by the reader, which keeps what it has read.
\<close>

section \<open>Data\<close>

record tm =
  tm_sec :: int
  tm_min :: int
  tm_hour :: int
  tm_mday :: int
  tm_mon :: int
  tm_year :: int
  tm_wday :: int
  tm_yday :: int
  tm_isdst :: bool
  tm_gmtoff :: int
  tm_zone :: "byte list"

record transition =
  gmttime :: int
  localtime :: int
  localtimeIdx :: int

record localtime_type =
  gmtOffset :: int
  isDst :: bool
  arrbIdx :: int

record tz_data =
  transitions :: "transition list"
  localtimes :: "localtime_type list"
  tz_abbrev :: "byte list"

definition kSecondsPerDay :: int where
  "kSecondsPerDay = 24 * 60 * 60"

definition empty_tz :: tz_data where
  "empty_tz = \<lparr>transitions = [], localtimes = [], tz_abbrev = []\<rparr>"

definition TimeZone_fixed :: "int \<Rightarrow> byte list \<Rightarrow> tz_data" where
  "TimeZone_fixed eastOfUtc name =
     \<lparr>transitions = [], localtimes = [\<lparr>gmtOffset = eastOfUtc, isDst = False, arrbIdx = 0\<rparr>],
      tz_abbrev = name\<rparr>"

section \<open>UTC\<close>

definition zero_tm :: tm where
  "zero_tm = \<lparr>tm_sec = 0, tm_min = 0, tm_hour = 0, tm_mday = 0, tm_mon = 0, tm_year = 0,
     tm_wday = 0, tm_yday = 0, tm_isdst = False, tm_gmtoff = 0, tm_zone = []\<rparr>"

definition fillHMS :: "int \<Rightarrow> tm \<Rightarrow> tm" where
  "fillHMS seconds utc =
     (let minutes = seconds div 60 in
      utc\<lparr>tm_sec := seconds mod 60, tm_min := minutes mod 60, tm_hour := minutes div 60\<rparr>)"

text \<open>\<open>"GMT"\<close>\<close>

definition GMT :: "byte list" where "GMT = [71, 77, 84]"

definition to_utc_time :: "int \<Rightarrow> bool \<Rightarrow> tm" where
  "to_utc_time secondsSinceEpoch yday =
     (let seconds0 = to_int32 (secondsSinceEpoch smod kSecondsPerDay);
          days0 = to_int32 (secondsSinceEpoch sdiv kSecondsPerDay);
          (seconds, days) = (if seconds0 < 0 then (seconds0 + kSecondsPerDay, days0 - 1) else (seconds0, days0));
          utc = fillHMS seconds (zero_tm\<lparr>tm_zone := GMT\<rparr>);
          date = days + k_julian_day_of_1970_01_01;
          d = getYearMonthDay date;
          utc1 = utc\<lparr>tm_year := year d - 1900, tm_mon := month d - 1, tm_mday := day d,
                     tm_wday := week_day date\<rparr> in
      if yday then utc1\<lparr>tm_yday := date - getJulianDayNumber (year d) 1 1\<rparr> else utc1)"

definition from_utc_time_fields :: "int \<Rightarrow> int \<Rightarrow> int \<Rightarrow> int \<Rightarrow> int \<Rightarrow> int \<Rightarrow> int" where
  "from_utc_time_fields yr mon dy hour minute seconds =
     (let date = getJulianDayNumber yr mon dy;
          secondsInDay = hour * 3600 + minute * 60 + seconds;
          days = date - k_julian_day_of_1970_01_01 in
      days * kSecondsPerDay + secondsInDay)"

definition from_utc_time :: "tm \<Rightarrow> int" where
  "from_utc_time utc = from_utc_time_fields (tm_year utc + 1900) (tm_mon utc + 1) (tm_mday utc)
     (tm_hour utc) (tm_min utc) (tm_sec utc)"

section \<open>The transition table\<close>

text \<open>\<open>Comp\<close>: compare by UTC or by local time.\<close>

definition comp_key :: "bool \<Rightarrow> transition \<Rightarrow> int" where
  "comp_key compareGmt tr = (if compareGmt then gmttime tr else localtime tr)"

text \<open>\<open>std::lower_bound\<close>: halving the range \<open>[first, first + len)\<close>.\<close>

fun lower_bound :: "('a \<Rightarrow> bool) \<Rightarrow> 'a list \<Rightarrow> nat \<Rightarrow> nat \<Rightarrow> nat" where
  "lower_bound below xs first len =
     (if len = 0 then first
      else let half = len div 2; middle = first + half in
        if below (xs ! middle) then lower_bound below xs (middle + 1) (len - half - 1)
        else lower_bound below xs first half)"

declare lower_bound.simps [simp del]

definition local_at :: "tz_data \<Rightarrow> int \<Rightarrow> localtime_type res" where
  "local_at data i =
     (if 0 \<le> i \<and> i < int (length (localtimes data)) then Inr (localtimes data ! nat i) else Inl OutOfBounds)"

definition findLocaltime :: "bool \<Rightarrow> tz_data \<Rightarrow> transition \<Rightarrow> bool \<Rightarrow> localtime_type res" where
  "findLocaltime dbg data sentry compareGmt =
     (let key = comp_key compareGmt; trs = transitions data in
      if trs = [] \<or> key sentry < key (hd trs)
      then (case localtimes data of [] \<Rightarrow> Inl EmptyContainer | local # _ \<Rightarrow> Inr local)
      else let i = lower_bound (\<lambda>tr. key tr < key sentry) trs 0 (length trs) in
        if i < length trs
        then if key sentry \<noteq> key (trs ! i)
             then cassert dbg (i \<noteq> 0)
               (if i = 0 then Inl OutOfBounds else local_at data (localtimeIdx (trs ! (i - 1))))
             else local_at data (localtimeIdx (trs ! i))
        else local_at data (localtimeIdx (last trs)))"

definition to_local_time ::
    "bool \<Rightarrow> (int \<Rightarrow> tm) \<Rightarrow> tz_data option \<Rightarrow> int \<Rightarrow> tm res" where
  "to_local_time dbg gmtime m_data seconds =
     cassert dbg (m_data \<noteq> None)
     (case m_data of
        None \<Rightarrow> Inl NullDeref
      | Some data \<Rightarrow>
          andThen (findLocaltime dbg data \<lparr>gmttime = seconds, localtime = 0, localtimeIdx = 0\<rparr> True) (\<lambda>local.
          if 0 \<le> arrbIdx local \<and> arrbIdx local \<le> int (length (tz_abbrev data))
          then Inr ((gmtime (seconds + gmtOffset local))
            \<lparr>tm_isdst := isDst local, tm_gmtoff := gmtOffset local,
             tm_zone := takeWhile (\<lambda>c. c \<noteq> 0) (drop (nat (arrbIdx local)) (tz_abbrev data))\<rparr>)
          else Inl OutOfBounds))"

definition from_local_time ::
    "bool \<Rightarrow> (int \<Rightarrow> tm) \<Rightarrow> (tm \<Rightarrow> int) \<Rightarrow> tz_data option \<Rightarrow> tm \<Rightarrow> int res" where
  "from_local_time dbg gmtime timegm m_data localTm =
     cassert dbg (m_data \<noteq> None)
     (case m_data of
        None \<Rightarrow> Inl NullDeref
      | Some data \<Rightarrow>
          let seconds = timegm localTm in
          andThen (findLocaltime dbg data \<lparr>gmttime = 0, localtime = seconds, localtimeIdx = 0\<rparr> False) (\<lambda>local.
          if tm_isdst localTm
          then andThen (to_local_time dbg gmtime m_data (seconds - gmtOffset local)) (\<lambda>tryTm.
            let seconds1 = (if \<not> tm_isdst tryTm \<and> tm_hour tryTm = tm_hour localTm \<and>
                              tm_min tryTm = tm_min localTm then seconds - 3600 else seconds) in
            Inr (seconds1 - gmtOffset local))
          else Inr (seconds - gmtOffset local)))"

section \<open>Zone files\<close>

text \<open>A reading step: \<open>None\<close> is a thrown \<open>logic_error\<close>.\<close>

definition file_readBytes :: "nat \<Rightarrow> byte list \<Rightarrow> (byte list \<times> byte list) option" where
  "file_readBytes n f = (if n \<le> length f then Some (take n f, drop n f) else None)"

definition file_readInt32 :: "byte list \<Rightarrow> (int \<times> byte list) option" where
  "file_readInt32 f =
     (case file_readBytes 4 f of None \<Rightarrow> None
      | Some (x, f') \<Rightarrow> Some (sint (networkToHost32 (le_word x)), f'))"

definition file_readUInt8 :: "byte list \<Rightarrow> (int \<times> byte list) option" where
  "file_readUInt8 f = (case f of [] \<Rightarrow> None | x # f' \<Rightarrow> Some (uint x, f'))"

fun read_many :: "(byte list \<Rightarrow> ('a \<times> byte list) option) \<Rightarrow> nat \<Rightarrow> byte list \<Rightarrow> ('a list \<times> byte list) option" where
  "read_many rd 0 f = Some ([], f)"
| "read_many rd (Suc n) f =
     (case rd f of None \<Rightarrow> None
      | Some (x, f1) \<Rightarrow> (case read_many rd n f1 of None \<Rightarrow> None | Some (xs, f2) \<Rightarrow> Some (x # xs, f2)))"

text \<open>The local time types go into the data one by one, so those read before an error stay.\<close>

fun read_types :: "nat \<Rightarrow> byte list \<Rightarrow> localtime_type list \<Rightarrow> localtime_type list \<times> byte list option" where
  "read_types 0 f acc = (acc, Some f)"
| "read_types (Suc n) f acc =
     (case file_readInt32 f of None \<Rightarrow> (acc, None) | Some (gmtoff, f1) \<Rightarrow>
      case file_readUInt8 f1 of None \<Rightarrow> (acc, None) | Some (isdst, f2) \<Rightarrow>
      case file_readUInt8 f2 of None \<Rightarrow> (acc, None) | Some (abbrind, f3) \<Rightarrow>
      read_types n f3 (acc @ [\<lparr>gmtOffset = gmtoff, isDst = (isdst \<noteq> 0), arrbIdx = abbrind\<rparr>]))"

fun make_transitions ::
    "localtime_type list \<Rightarrow> (int \<times> int) list \<Rightarrow> transition list res" where
  "make_transitions lts [] = Inr []"
| "make_transitions lts ((t, localIdx) # rest) =
     (if nat localIdx < length lts
      then andThen (make_transitions lts rest) (\<lambda>trs.
        Inr (\<lparr>gmttime = t, localtime = t + gmtOffset (lts ! nat localIdx), localtimeIdx = localIdx\<rparr> # trs))
      else Inl OutOfBounds)"

text \<open>The part after the header. A negative \<open>timecnt\<close> makes \<open>reserve\<close> throw
  \<open>length_error\<close>, which is a \<open>logic_error\<close>; a negative \<open>charcnt\<close> leaves the array.\<close>

definition read_body :: "int \<Rightarrow> int \<Rightarrow> int \<Rightarrow> byte list \<Rightarrow> tz_data res" where
  "read_body timecnt typecnt charcnt f =
     (if timecnt < 0 then Inr empty_tz else
      case read_many file_readInt32 (nat timecnt) f of None \<Rightarrow> Inr empty_tz | Some (tms, f1) \<Rightarrow>
      case read_many file_readUInt8 (nat timecnt) f1 of None \<Rightarrow> Inr empty_tz | Some (idx, f2) \<Rightarrow>
      case read_types (nat typecnt) f2 [] of
        (lts, None) \<Rightarrow> Inr (empty_tz\<lparr>localtimes := lts\<rparr>)
      | (lts, Some f3) \<Rightarrow>
          andThen (make_transitions lts (zip tms idx)) (\<lambda>trs.
          let data = empty_tz\<lparr>localtimes := lts, transitions := trs\<rparr> in
          if charcnt < 0 then Inl OutOfBounds
          else case file_readBytes (nat charcnt) f3 of
            None \<Rightarrow> Inr data | Some (abbr, _) \<Rightarrow> Inr (data\<lparr>tz_abbrev := abbr\<rparr>)))"

text \<open>\<open>"TZif"\<close>\<close>

definition TZif :: "byte list" where "TZif = [84, 90, 105, 102]"

definition readTimeZoneFile :: "byte list option \<Rightarrow> (bool \<times> tz_data) res" where
  "readTimeZoneFile file =
     andThen
      (case file of None \<Rightarrow> Inr empty_tz | Some f \<Rightarrow>
       (case file_readBytes 4 f of None \<Rightarrow> Inr empty_tz | Some (head, f1) \<Rightarrow>
        if head \<noteq> TZif then Inr empty_tz else
        case file_readBytes 1 f1 of None \<Rightarrow> Inr empty_tz | Some (version, f2) \<Rightarrow>
        case file_readBytes 15 f2 of None \<Rightarrow> Inr empty_tz | Some (_, f3) \<Rightarrow>
        case read_many file_readInt32 6 f3 of None \<Rightarrow> Inr empty_tz
        | Some (cnts, f4) \<Rightarrow> read_body (cnts ! 3) (cnts ! 4) (cnts ! 5) f4))
      (\<lambda>data. Inr (True, data))"

definition TimeZone_ctor :: "byte list option \<Rightarrow> tz_data option res" where
  "TimeZone_ctor file =
     andThen (readTimeZoneFile file) (\<lambda>(ok, data). Inr (if \<not> ok then None else Some data))"

section \<open>Binary search\<close>

text \<open>On a range whose first part satisfies \<open>below\<close> and whose rest does not, the search finds the border.\<close>

lemma lower_bound_border:
  assumes below: "\<And>i. i < length xs \<Longrightarrow> below (xs ! i) \<longleftrightarrow> i < k"
  shows "first \<le> k \<Longrightarrow> k \<le> first + len \<Longrightarrow> first + len \<le> length xs \<Longrightarrow>
    lower_bound below xs first len = k"
proof (induction len arbitrary: first rule: less_induct)
  case (less len)
  show ?case
  proof (cases "len = 0")
    case True
    then show ?thesis using less.prems by (simp add: lower_bound.simps)
  next
    case False
    let ?h = "len div 2"
    have h: "?h < len" "len - ?h - 1 < len" using False by simp_all
    have b: "below (xs ! (first + ?h)) \<longleftrightarrow> first + ?h < k"
      using below [of "first + ?h"] less.prems h by simp
    show ?thesis
    proof (cases "first + ?h < k")
      case True
      then have "lower_bound below xs (first + ?h + 1) (len - ?h - 1) = k"
        using less.prems h by (intro less.IH) simp_all
      then show ?thesis using True b False by (subst lower_bound.simps) (simp add: Let_def)
    next
      case nb: False
      then have "lower_bound below xs first ?h = k"
        using less.prems h by (intro less.IH) simp_all
      then show ?thesis using nb b False by (subst lower_bound.simps) (simp add: Let_def)
    qed
  qed
qed

lemma lower_bound_sorted:
  assumes "sorted (map f xs)"
  shows "lower_bound (\<lambda>x. f x < s) xs 0 (length xs) = length (takeWhile (\<lambda>x. f x < (s :: int)) xs)"
proof -
  let ?k = "length (takeWhile (\<lambda>x. f x < s) xs)"
  have k: "?k \<le> length xs" by (rule length_takeWhile_le)
  have "f (xs ! i) < s \<longleftrightarrow> i < ?k" if "i < length xs" for i
  proof
    assume lt: "f (xs ! i) < s"
    show "i < ?k"
    proof (rule ccontr)
      assume "\<not> i < ?k"
      then have "?k \<le> i" by simp
      then have "f (xs ! ?k) \<le> f (xs ! i)" and kl: "?k < length xs"
        using sorted_nth_mono [OF assms, of ?k i] that by simp_all
      then show False using nth_length_takeWhile [OF kl] lt by simp
    qed
  next
    assume "i < ?k"
    then show "f (xs ! i) < s" using set_takeWhileD nth_mem takeWhile_nth
      by (metis (mono_tags, lifting))
  qed
  from lower_bound_border [of xs "\<lambda>x. f x < s", OF this] k show ?thesis by simp
qed

section \<open>Which local time applies\<close>

text \<open>
  The reference: the type of the last transition at or before the key; the first type before all
  transitions.
\<close>

definition transition_at :: "(transition \<Rightarrow> int) \<Rightarrow> int \<Rightarrow> transition list \<Rightarrow> transition option" where
  "transition_at key s trs =
     (case filter (\<lambda>tr. key tr \<le> s) trs of [] \<Rightarrow> None | ts \<Rightarrow> Some (last ts))"

definition well_formed_zone :: "tz_data \<Rightarrow> bool" where
  "well_formed_zone data \<longleftrightarrow> localtimes data \<noteq> [] \<and>
     (\<forall>tr \<in> set (transitions data). 0 \<le> localtimeIdx tr \<and> localtimeIdx tr < int (length (localtimes data)))"

lemma filter_le_sorted:
  assumes "sorted_wrt (\<lambda>a b. f a < f b) xs"
  shows "filter (\<lambda>x. f x \<le> s) xs = takeWhile (\<lambda>x. f x < s) xs @
    (case dropWhile (\<lambda>x. f x < s) xs of [] \<Rightarrow> [] | x # _ \<Rightarrow> if f x = (s :: int) then [x] else [])"
  using assms
proof (induction xs)
  case (Cons x xs)
  have gt: "filter (\<lambda>y. f y \<le> s) xs = []" if "s \<le> f x"
    using Cons.prems that by (force simp: filter_empty_conv)
  show ?case using Cons gt by (cases "f x < s") auto
qed simp

lemma transition_at_last:
  "filter (\<lambda>tr. key tr \<le> s) trs = ys \<Longrightarrow> ys \<noteq> [] \<Longrightarrow> transition_at key s trs = Some (last ys)"
  by (cases ys) (simp_all add: transition_at_def)

lemma last_takeWhile:
  "takeWhile P xs \<noteq> [] \<Longrightarrow> last (takeWhile P xs) = xs ! (length (takeWhile P xs) - 1)"
  by (simp add: last_conv_nth takeWhile_nth)

text \<open>The reference in terms of the position the binary search finds.\<close>

lemma transition_at_search:
  assumes "sorted_wrt (\<lambda>a b. f a < f b) xs" and k: "k = length (takeWhile (\<lambda>x. f x < s) xs)"
  shows "transition_at f s xs =
    (if k < length xs \<and> f (xs ! k) = s then Some (xs ! k) else if k = 0 then None else Some (xs ! (k - 1)))"
proof -
  let ?tw = "takeWhile (\<lambda>x. f x < s) xs"
  have flt: "filter (\<lambda>x. f x \<le> s) xs =
      ?tw @ (case drop k xs of [] \<Rightarrow> [] | x # _ \<Rightarrow> if f x = s then [x] else [])"
    using filter_le_sorted [OF assms(1), of s] by (simp add: dropWhile_eq_drop k)
  show ?thesis
  proof (cases "k < length xs \<and> f (xs ! k) = s")
    case True
    then have "filter (\<lambda>x. f x \<le> s) xs = ?tw @ [xs ! k]" using flt by (simp flip: Cons_nth_drop_Suc)
    then show ?thesis using True transition_at_last by fastforce
  next
    case False
    then have f: "filter (\<lambda>x. f x \<le> s) xs = ?tw"
      using flt by (cases "k < length xs") (auto simp flip: Cons_nth_drop_Suc)
    show ?thesis
    proof (cases "?tw = []")
      case True
      then show ?thesis using False f k by (simp add: transition_at_def)
    next
      case ne: False
      then have "k \<noteq> 0" by (simp add: k)
      then show ?thesis using False transition_at_last [OF f ne] last_takeWhile [OF ne] by (auto simp flip: k)
    qed
  qed
qed

lemma findLocaltime_search:
  assumes "sorted_wrt (\<lambda>a b. comp_key gmt a < comp_key gmt b) (transitions data)"
    and "transitions data \<noteq> []" and "comp_key gmt (hd (transitions data)) \<le> comp_key gmt sentry"
    and k: "k = length (takeWhile (\<lambda>tr. comp_key gmt tr < comp_key gmt sentry) (transitions data))"
  shows "findLocaltime dbg data sentry gmt = local_at data (localtimeIdx (transitions data !
    (if k < length (transitions data) \<and> comp_key gmt (transitions data ! k) = comp_key gmt sentry then k else k - 1)))"
proof -
  let ?f = "comp_key gmt" and ?trs = "transitions data"
  have "sorted (map ?f ?trs)"
    unfolding sorted_map by (rule sorted_wrt_mono_rel [OF _ assms(1)]) simp
  from lower_bound_sorted [OF this, of "?f sentry"]
  have lb: "lower_bound (\<lambda>tr. ?f tr < ?f sentry) ?trs 0 (length ?trs) = k" by (simp add: k)
  have k0: "?f (?trs ! k) = ?f sentry" if "k = 0"
    using that assms(2,3) k by (cases ?trs) (auto split: if_splits)
  have kl: "k \<le> length ?trs" unfolding k by (rule length_takeWhile_le)
  then have "last ?trs = ?trs ! (k - 1)" if "\<not> k < length ?trs"
    using that assms(2) by (simp add: last_conv_nth)
  then show ?thesis using assms(2,3) lb k0 by (auto simp: findLocaltime_def Let_def cassert_def)
qed

lemma findLocaltime_spec:
  assumes wf: "well_formed_zone data"
    and srt: "sorted_wrt (\<lambda>a b. comp_key gmt a < comp_key gmt b) (transitions data)"
  shows "findLocaltime dbg data sentry gmt =
    Inr (case transition_at (comp_key gmt) (comp_key gmt sentry) (transitions data) of
           None \<Rightarrow> hd (localtimes data)
         | Some tr \<Rightarrow> localtimes data ! nat (localtimeIdx tr))"
proof -
  let ?f = "comp_key gmt" and ?trs = "transitions data"
  define k where k: "k = length (takeWhile (\<lambda>tr. ?f tr < ?f sentry) ?trs)"
  note at = transition_at_search [OF srt k]
  have local: "local_at data (localtimeIdx (?trs ! i)) = Inr (localtimes data ! nat (localtimeIdx (?trs ! i)))"
    if "i < length ?trs" for i
    using wf nth_mem [OF that] by (auto simp: well_formed_zone_def local_at_def)
  show ?thesis
  proof (cases "?trs = [] \<or> ?f sentry < ?f (hd ?trs)")
    case True
    then have "k = 0" "\<not> (k < length ?trs \<and> ?f (?trs ! k) = ?f sentry)"
      unfolding k by (cases ?trs; auto)+
    moreover obtain l ls where "localtimes data = l # ls"
      using wf by (cases "localtimes data") (auto simp: well_formed_zone_def)
    ultimately show ?thesis using True at by (auto simp: findLocaltime_def)
  next
    case False
    then have ne: "?trs \<noteq> []" and first: "?f (hd ?trs) \<le> ?f sentry" by auto
    have "?f (?trs ! k) = ?f sentry" if "k = 0"
      using that ne first unfolding k by (cases ?trs) (auto split: if_splits)
    moreover have "k - 1 < length ?trs"
      using length_takeWhile_le [of "\<lambda>tr. ?f tr < ?f sentry" ?trs] ne unfolding k
      by (cases ?trs) (simp_all add: less_Suc_eq_le)
    ultimately show ?thesis
      using findLocaltime_search [OF srt ne first k] at local ne by auto
  qed
qed

section \<open>UTC both ways\<close>

definition utc_range :: "int \<Rightarrow> bool" where
  "utc_range t \<longleftrightarrow> - 2440588 * 86400 \<le> t \<and> t < 534398280 * 86400"

lemma jd1970: "k_julian_day_of_1970_01_01 = 2440588"
  by (simp add: k_julian_day_of_1970_01_01_def getJulianDayNumber_def Let_def sdiv_nonneg)

lemma trunc_neg:
  "t < 0 \<Longrightarrow> t sdiv 86400 = - (- t div 86400) \<and> t smod 86400 = - (- t mod (86400 :: int))"
  by (simp add: signed_divide_int_def signed_modulo_int_def minus_div_mult_eq_mod [symmetric] sgn_if)

lemma smod_bound: "\<bar>t smod 86400\<bar> < (86400 :: int)"
  using trunc_neg [of t] pos_mod_bound [of 86400 "- t"] pos_mod_sign [of 86400 "- t"]
    smod_nonneg [of t 86400] by (cases "t < 0") auto

lemma trunc_split:
  fixes t :: int
  shows "(if t smod 86400 < 0 then (t smod 86400 + 86400, t sdiv 86400 - 1)
    else (t smod 86400, t sdiv 86400)) = (t mod 86400, t div 86400)"
proof (cases "0 \<le> t")
  case True
  then show ?thesis by (simp add: sdiv_nonneg smod_nonneg)
next
  case False
  then have s: "t sdiv 86400 = - (- t div 86400)" "t smod 86400 = - (- t mod 86400)"
    using trunc_neg [of t] by simp_all
  have m: "- (- t) mod 86400 = (if - t mod 86400 = 0 then 0 else 86400 - (- t mod 86400))"
    "- (- t) div 86400 = (if - t mod 86400 = 0 then - (- t div 86400) else - (- t div 86400) - 1)"
    by (rule zmod_zminus1_eq_if, rule zdiv_zminus1_eq_if) simp
  have "0 \<le> - t mod 86400" by simp
  then show ?thesis using m unfolding s by (auto split: if_splits)
qed

lemma sdiv_bound: "- (b :: int) * 86400 \<le> t \<Longrightarrow> t < b * 86400 \<Longrightarrow> - b \<le> t sdiv 86400 \<and> t sdiv 86400 \<le> b"
proof -
  assume t: "- b * 86400 \<le> t" "t < b * 86400"
  have "t sdiv 86400 = t div 86400 \<or> t sdiv 86400 = t div 86400 + 1"
    using trunc_split [of t] by (auto split: if_splits)
  moreover have "- b \<le> t div 86400" "t div 86400 < b" using t by linarith+
  ultimately show ?thesis by auto
qed

lemma to_utc_split:
  assumes "utc_range t"
  shows "to_utc_time t yd =
    (let utc = fillHMS (t mod 86400) (zero_tm\<lparr>tm_zone := GMT\<rparr>);
         date = t div 86400 + 2440588; d = getYearMonthDay date;
         utc1 = utc\<lparr>tm_year := year d - 1900, tm_mon := month d - 1, tm_mday := day d,
                    tm_wday := week_day date\<rparr> in
     if yd then utc1\<lparr>tm_yday := date - getJulianDayNumber (year d) 1 1\<rparr> else utc1)"
proof -
  have k: "kSecondsPerDay = 86400" by (simp add: kSecondsPerDay_def)
  have s: "to_int32 (t smod 86400) = t smod 86400"
    using smod_bound [of t] by (intro to_int32_id) (simp add: int32_ok_def abs_less_iff)
  have "- 534398280 \<le> t sdiv 86400 \<and> t sdiv 86400 \<le> 534398280"
    using assms by (intro sdiv_bound) (simp_all add: utc_range_def)
  then have d: "to_int32 (t sdiv 86400) = t sdiv 86400"
    by (intro to_int32_id) (simp add: int32_ok_def)
  show ?thesis unfolding to_utc_time_def Let_def k s d jd1970
    by (subst trunc_split) (simp add: Let_def)
qed

section \<open>Properties\<close>

text \<open>On the times from day number 0 to the year 1465072, \<open>from_utc_time\<close> undoes
  \<open>to_utc_time\<close>, whose fields are in their ranges and name a valid date, with the week day and
  the day of the year of that date.\<close>

theorem utc_roundtrip:
  assumes "utc_range t"
  shows "from_utc_time (to_utc_time t yd) = t \<and>
    (let u = to_utc_time t yd in
     0 \<le> tm_sec u \<and> tm_sec u < 60 \<and> 0 \<le> tm_min u \<and> tm_min u < 60 \<and> 0 \<le> tm_hour u \<and> tm_hour u < 24 \<and>
     valid_date \<lparr>year = tm_year u + 1900, month = tm_mon u + 1, day = tm_mday u\<rparr> \<and>
     0 \<le> tm_wday u \<and> tm_wday u < 7)"
proof -
  let ?s = "t mod 86400" and ?n = "t div 86400 + 2440588"
  have n: "0 \<le> ?n" using assms by (simp add: utc_range_def) linarith
  define d where "d = getYearMonthDay ?n"
  have d: "valid_date d" "jdn d = ?n" using getYearMonthDay_valid [OF n] by (simp_all add: d_def)
  have s: "0 \<le> ?s" "?s < 86400" by simp_all
  have hms: "?s div 60 div 60 * 3600 + ?s div 60 mod 60 * 60 + ?s mod 60 = ?s"
    using mult_div_mod_eq [of 60 ?s] mult_div_mod_eq [of 60 "?s div 60"] by linarith
  have h: "0 \<le> ?s div 60 div 60" "?s div 60 div 60 < 24" using s by (simp_all add: pos_imp_zdiv_nonneg_iff)
  have w: "0 \<le> week_day ?n" "week_day ?n < 7" using n by (simp_all add: week_day_def smod_nonneg)
  have j: "getJulianDayNumber (year d) (month d) (day d) = ?n" using d(2) by (simp add: jdn_def)
  have f: "from_utc_time (to_utc_time t yd) = t div 86400 * 86400 + ?s"
    unfolding to_utc_split [OF assms] Let_def d_def [symmetric]
    by (simp add: from_utc_time_def from_utc_time_fields_def fillHMS_def Let_def j jd1970
        kSecondsPerDay_def hms)
  have v: "valid_date \<lparr>year = year d, month = month d, day = day d\<rparr>"
    using d(1) by (simp add: valid_date_def)
  show ?thesis
    unfolding f unfolding to_utc_split [OF assms] Let_def d_def [symmetric]
    using h w v by (simp add: fillHMS_def Let_def)
qed

theorem utc_roundtrip_witness:
  "from_utc_time (to_utc_time (- 1) True) = - 1 \<and> valid_date \<lparr>year = 1969, month = 12, day = 31\<rparr>"
proof -
  have r: "utc_range (- 1)" by (simp add: utc_range_def)
  have "getYearMonthDay 2440587 = \<lparr>year = 1969, month = 12, day = 31\<rparr>"
    using getYearMonthDay_jdn [of "\<lparr>year = 1969, month = 12, day = 31\<rparr>"]
    by (simp add: valid_date_def days_in_month_def jdn_def getJulianDayNumber_def Let_def sdiv_nonneg)
  then have "tm_year (to_utc_time (- 1) True) = 69" "tm_mon (to_utc_time (- 1) True) = 11"
    "tm_mday (to_utc_time (- 1) True) = 31"
    unfolding to_utc_split [OF r]
    by (simp_all add: fillHMS_def Let_def)
  then show ?thesis using utc_roundtrip [OF r, of True] by (simp add: Let_def)
qed


text \<open>A zone that is one hour ahead from time 100 on and two hours from time 200 to 300.\<close>

definition demo_zone :: tz_data where
  "demo_zone = \<lparr>transitions = [\<lparr>gmttime = 100, localtime = 3700, localtimeIdx = 0\<rparr>,
       \<lparr>gmttime = 200, localtime = 7400, localtimeIdx = 1\<rparr>,
       \<lparr>gmttime = 300, localtime = 3900, localtimeIdx = 0\<rparr>],
     localtimes = [\<lparr>gmtOffset = 3600, isDst = False, arrbIdx = 0\<rparr>,
       \<lparr>gmtOffset = 7200, isDst = True, arrbIdx = 0\<rparr>],
     tz_abbrev = []\<rparr>"


text \<open>Local time and back in a zone of fixed offset, given that \<open>timegm\<close> undoes
  \<open>gmtime_r\<close> and ignores the daylight and zone fields: \<open>from_local_time\<close> undoes
  \<open>to_local_time\<close>.\<close>

theorem fixed_zone_roundtrip:
  assumes "\<And>t. timegm (gmtime t) = t"
    and "\<And>u dst off z. timegm (u\<lparr>tm_isdst := dst, tm_gmtoff := off, tm_zone := z\<rparr>) = timegm u"
  shows "\<exists>u. to_local_time dbg gmtime (Some (TimeZone_fixed east name)) t = Inr u \<and>
    tm_gmtoff u = east \<and> \<not> tm_isdst u \<and>
    from_local_time dbg gmtime timegm (Some (TimeZone_fixed east name)) u = Inr t"
  using assms by (simp add: to_local_time_def from_local_time_def findLocaltime_def TimeZone_fixed_def Let_def)

theorem fixed_zone_roundtrip_witness:
  "\<exists>u. to_local_time True (\<lambda>t. zero_tm\<lparr>tm_sec := t\<rparr>) (Some (TimeZone_fixed 28800 [67])) 7 = Inr u \<and>
    from_local_time True (\<lambda>t. zero_tm\<lparr>tm_sec := t\<rparr>) tm_sec (Some (TimeZone_fixed 28800 [67])) u = Inr 7"
  using fixed_zone_roundtrip [of tm_sec "\<lambda>t. zero_tm\<lparr>tm_sec := t\<rparr>" True 28800 "[67]" 7] by auto

text \<open>C40: A zone file that cannot be opened, or does not begin with \<open>"TZif"\<close>, still yields a
  zone that is \<open>valid()\<close>; asking it for a local time then takes the front of an empty vector.\<close>

theorem unreadable_zone_faults:
  assumes "file = None \<or> (\<exists>f. file = Some f \<and> take 4 f \<noteq> TZif)"
  shows "TimeZone_ctor file = Inr (Some empty_tz) \<and>
    to_local_time dbg gmtime (Some empty_tz) t = Inl EmptyContainer"
  using assms
  by (auto simp: TimeZone_ctor_def readTimeZoneFile_def file_readBytes_def to_local_time_def
      findLocaltime_def empty_tz_def)

theorem unreadable_zone_faults_witness:
  "TimeZone_ctor (Some [1, 2, 3, 4, 5]) = Inr (Some empty_tz)"
  using unreadable_zone_faults [of "Some [1, 2, 3, 4, 5]"] by (simp add: TZif_def)

section \<open>Zone files, printed and read\<close>

text \<open>The file of a zone in the format of the reader, with no leap seconds or indicators.\<close>

definition put32 :: "int \<Rightarrow> byte list" where
  "put32 i = wire32 (word_of_int i)"

definition put8 :: "int \<Rightarrow> byte list" where
  "put8 i = [word_of_int i]"

definition put_type :: "localtime_type \<Rightarrow> byte list" where
  "put_type lt = put32 (gmtOffset lt) @ put8 (if isDst lt then 1 else 0) @ put8 (arrbIdx lt)"

definition print_zone :: "tz_data \<Rightarrow> byte list" where
  "print_zone data =
     TZif @ [0] @ replicate 15 0 @
     concat (map put32 [0, 0, 0, int (length (transitions data)), int (length (localtimes data)),
                        int (length (tz_abbrev data))]) @
     concat (map put32 (map gmttime (transitions data))) @
     concat (map put8 (map localtimeIdx (transitions data))) @
     concat (map put_type (localtimes data)) @ tz_abbrev data"

definition printable_zone :: "tz_data \<Rightarrow> bool" where
  "printable_zone data \<longleftrightarrow>
     length (transitions data) < 2 ^ 31 \<and> length (localtimes data) < 2 ^ 31 \<and>
     length (tz_abbrev data) < 2 ^ 31 \<and>
     (\<forall>lt \<in> set (localtimes data). int32_ok (gmtOffset lt) \<and> 0 \<le> arrbIdx lt \<and> arrbIdx lt < 256) \<and>
     (\<forall>tr \<in> set (transitions data). int32_ok (gmttime tr) \<and>
        0 \<le> localtimeIdx tr \<and> localtimeIdx tr < 256 \<and> nat (localtimeIdx tr) < length (localtimes data) \<and>
        localtime tr = gmttime tr + gmtOffset (localtimes data ! nat (localtimeIdx tr)))"

lemma readBytes_append: "length x = n \<Longrightarrow> file_readBytes n (x @ f) = Some (x, f)"
  by (auto simp: file_readBytes_def)

lemma sint_word32: "int32_ok i \<Longrightarrow> sint (word_of_int i :: 32 word) = i"
  by (simp add: int32_ok_def int_word_sint)

lemma file_readInt32_put: "int32_ok i \<Longrightarrow> file_readInt32 (put32 i @ f) = Some (i, f)"
  using c32.dec_enc [of "word_of_int i"] readBytes_append [of "put32 i" 4 f] c32.enc_length [of "word_of_int i"]
  by (simp add: file_readInt32_def put32_def unwire32_def sint_word32)

lemma readUInt8_put: "0 \<le> i \<Longrightarrow> i < 256 \<Longrightarrow> file_readUInt8 (put8 i @ f) = Some (i, f)"
  by (simp add: file_readUInt8_def put8_def uint_word_of_int)

lemma read_many_put:
  "(\<And>x f. x \<in> set xs \<Longrightarrow> rd (put x @ f) = Some (x, f)) \<Longrightarrow>
   read_many rd (length xs) (concat (map put xs) @ f) = Some (xs, f)"
  by (induction xs) simp_all

lemma read_types_put:
  "(\<forall>lt \<in> set lts. int32_ok (gmtOffset lt) \<and> 0 \<le> arrbIdx lt \<and> arrbIdx lt < 256) \<Longrightarrow>
   read_types (length lts) (concat (map put_type lts) @ f) acc = (acc @ lts, Some f)"
proof (induction lts arbitrary: acc)
  case (Cons lt lts)
  then have "0 \<le> (if isDst lt then 1 else 0 :: int)" "int32_ok (gmtOffset lt)" "0 \<le> arrbIdx lt" "arrbIdx lt < 256"
    by auto
  then show ?case using Cons
    by (simp add: put_type_def file_readInt32_put readUInt8_put)
qed simp

lemma make_transitions_put:
  "(\<forall>tr \<in> set trs. nat (localtimeIdx tr) < length lts \<and>
      localtime tr = gmttime tr + gmtOffset (lts ! nat (localtimeIdx tr))) \<Longrightarrow>
   make_transitions lts (zip (map gmttime trs) (map localtimeIdx trs)) = Inr trs"
  by (induction trs) simp_all

lemma read_body_put:
  assumes "printable_zone data"
  shows "read_body (int (length (transitions data))) (int (length (localtimes data))) (int (length (tz_abbrev data)))
    (concat (map put32 (map gmttime (transitions data))) @
     concat (map put8 (map localtimeIdx (transitions data))) @
     concat (map put_type (localtimes data)) @ tz_abbrev data) = Inr data"
proof -
  let ?trs = "transitions data" and ?lts = "localtimes data"
  have ok: "\<forall>lt \<in> set ?lts. int32_ok (gmtOffset lt) \<and> 0 \<le> arrbIdx lt \<and> arrbIdx lt < 256"
    "\<forall>tr \<in> set ?trs. nat (localtimeIdx tr) < length ?lts \<and>
      localtime tr = gmttime tr + gmtOffset (?lts ! nat (localtimeIdx tr))"
    "\<forall>tr \<in> set ?trs. int32_ok (gmttime tr) \<and> 0 \<le> localtimeIdx tr \<and> localtimeIdx tr < 256"
    using assms by (auto simp: printable_zone_def)
  have 1: "read_many file_readInt32 (length ?trs) (concat (map put32 (map gmttime ?trs)) @ f) = Some (map gmttime ?trs, f)" for f
    using read_many_put [of "map gmttime ?trs" file_readInt32 put32 f] file_readInt32_put ok(3) by auto
  have 2: "read_many file_readUInt8 (length ?trs) (concat (map put8 (map localtimeIdx ?trs)) @ f) = Some (map localtimeIdx ?trs, f)" for f
    using read_many_put [of "map localtimeIdx ?trs" file_readUInt8 put8 f] readUInt8_put ok(3) by auto
  have 3: "file_readBytes (length (tz_abbrev data)) (tz_abbrev data) = Some (tz_abbrev data, [])"
    by (simp add: file_readBytes_def)
  show ?thesis unfolding read_body_def
    by (simp only: 1 2 3 read_types_put [OF ok(1)] make_transitions_put [OF ok(2)] nat_int
        option.case prod.case append_Nil of_nat_less_0_iff if_False andThen.simps Let_def)
      (simp add: empty_tz_def)
qed

text \<open>C28: Reading the file of a zone yields the zone: the reader undoes the printing of every zone
  whose numbers fit the format.\<close>

theorem zone_file_roundtrip:
  assumes "printable_zone data"
  shows "readTimeZoneFile (Some (print_zone data)) = Inr (True, data)"
proof -
  let ?cnt = "[0, 0, 0, int (length (transitions data)), int (length (localtimes data)),
    int (length (tz_abbrev data))]"
  have "read_many file_readInt32 (length ?cnt) (concat (map put32 ?cnt) @ f) = Some (?cnt, f)" for f
    by (rule read_many_put) (use assms in \<open>auto simp: printable_zone_def int32_ok_def intro!: file_readInt32_put\<close>)
  then have c: "read_many file_readInt32 6 (concat (map put32 ?cnt) @ f) = Some (?cnt, f)" for f
    by (simp add: eval_nat_numeral)
  have h: "file_readBytes 4 (TZif @ f) = Some (TZif, f)" "file_readBytes 1 ([0] @ f) = Some ([0], f)"
    "file_readBytes 15 (replicate 15 0 @ f) = Some (replicate 15 0, f)" for f :: "byte list"
    by (rule readBytes_append, simp add: TZif_def)+
  have n: "?cnt ! 3 = int (length (transitions data))" "?cnt ! 4 = int (length (localtimes data))"
    "?cnt ! 5 = int (length (tz_abbrev data))" by simp_all
  show ?thesis
    unfolding readTimeZoneFile_def print_zone_def option.case h prod.case c n
    using read_body_put [OF assms] by simp
qed

theorem zone_file_roundtrip_witness:
  "readTimeZoneFile (Some (print_zone demo_zone)) = Inr (True, demo_zone)"
  by (rule zone_file_roundtrip)
    (simp add: printable_zone_def demo_zone_def int32_ok_def)

end
