(* ===== verification/Base_StringPiece.thy ===== *)
theory Base_StringPiece
  imports Cpp_Prelude "HOL-Library.Char_ord" "HOL-Library.List_Lexorder" "HOL-Library.Sublist"
begin

text \<open>
  Character pointers and \<open>StringPiece\<close>, \<open>StringArg\<close> (\<open>base/string_piece.h\<close>).

  A \<open>const char *\<close> is null or an offset into one object (\<open>Ptr obj off\<close>); reading a range that
  leaves the object is a fault, and a negative \<open>int\<close> length is the huge \<open>size_t\<close> it converts to.
  A piece is a pointer and an \<open>int\<close> length, as in the source; \<open>piece_text\<close> is the abstract
  string it denotes. \<open>memcmp\<close> is the library's comparison of unsigned bytes, of which the code
  uses the sign only. The lemmas show that on valid pieces the comparison operators are equality
  and the lexicographic order of the texts.
\<close>

section \<open>Pointers to characters\<close>

datatype cptr = Null | Ptr string int

fun ptr_add :: "cptr \<Rightarrow> int \<Rightarrow> cptr" where
  "ptr_add Null n = Null"
| "ptr_add (Ptr m off) n = Ptr m (off + n)"

fun ptr_read :: "cptr \<Rightarrow> nat \<Rightarrow> string res" where
  "ptr_read Null n = (if n = 0 then Inr [] else Inl NullDeref)"
| "ptr_read (Ptr m off) n = (if off < 0 then Inl OutOfBounds else read_at m (nat off) n)"

text \<open>A string literal, or \<open>c_str()\<close> of a string: its bytes and the terminating NUL.\<close>

definition cstr :: "string \<Rightarrow> cptr" where
  "cstr s = Ptr (s @ [CHR 0x00]) 0"

fun strlen :: "cptr \<Rightarrow> nat res" where
  "strlen Null = Inl NullDeref"
| "strlen (Ptr m off) =
     (if off < 0 \<or> length m < nat off then Inl OutOfBounds
      else let s = drop (nat off) m; k = length (takeWhile (\<lambda>c. c \<noteq> CHR 0x00) s) in
           if k < length s then Inr k else Inl OutOfBounds)"

fun memcmp :: "string \<Rightarrow> string \<Rightarrow> int" where
  "memcmp (x # xs) (y # ys) = (if x = y then memcmp xs ys else if x < y then - 1 else 1)"
| "memcmp _ _ = 0"

text \<open>The first position of a character: \<open>std::string::find\<close>, and \<open>strchr\<close> in a string without NUL.\<close>

definition find_char :: "char \<Rightarrow> string \<Rightarrow> nat option" where
  "find_char c s = (let k = length (takeWhile (\<lambda>x. x \<noteq> c) s) in if k < length s then Some k else None)"

lemma find_char_append: "c \<notin> set a \<Longrightarrow> find_char c (a @ c # b) = Some (length a)"
  by (subgoal_tac "takeWhile (\<lambda>x. x \<noteq> c) (a @ c # b) = a") (auto simp: find_char_def takeWhile_append)

lemma ptr_read_cstr: "n \<le> length s \<Longrightarrow> ptr_read (cstr s) n = Inr (take n s)"
  by (simp add: cstr_def read_at_def)

lemma ptr_read_length: "ptr_read p n = Inr s \<Longrightarrow> length s = n"
  by (cases p) (auto simp: read_at_def split: if_splits)

text \<open>A shorter read gives the prefix of a longer one.\<close>

lemma ptr_read_take: "ptr_read p n = Inr s \<Longrightarrow> k \<le> n \<Longrightarrow> ptr_read p k = Inr (take k s)"
  by (cases p) (auto simp: read_at_def min_def split: if_splits)

lemma strlen_cstr: "CHR 0x00 \<notin> set s \<Longrightarrow> strlen (cstr s) = Inr (length s)"
  by (subgoal_tac "takeWhile (\<lambda>c. c \<noteq> CHR 0x00) (s @ [CHR 0x00]) = s")
    (auto simp: cstr_def Let_def takeWhile_append)

section \<open>StringPiece\<close>

record string_piece =
  m_ptr :: cptr
  m_length :: int

definition StringArg :: "cptr \<Rightarrow> cptr" where
  "StringArg str = str"

definition StringArg_string :: "string \<Rightarrow> cptr" where
  "StringArg_string str = cstr str"

definition StringPiece_empty :: string_piece where
  "StringPiece_empty = \<lparr>m_ptr = Null, m_length = 0\<rparr>"

definition StringPiece_cstr :: "cptr \<Rightarrow> string_piece res" where
  "StringPiece_cstr str =
     andThen (strlen str) (\<lambda>k. Inr \<lparr>m_ptr = str, m_length = to_int32 (int k)\<rparr>)"

definition StringPiece_string :: "string \<Rightarrow> string_piece" where
  "StringPiece_string str = \<lparr>m_ptr = cstr str, m_length = to_int32 (int (length str))\<rparr>"

definition StringPiece_range :: "cptr \<Rightarrow> int \<Rightarrow> string_piece" where
  "StringPiece_range offset len = \<lparr>m_ptr = offset, m_length = len\<rparr>"

definition sp_empty :: "string_piece \<Rightarrow> bool" where
  "sp_empty p \<longleftrightarrow> m_length p = 0"

definition sp_end :: "string_piece \<Rightarrow> cptr" where
  "sp_end p = ptr_add (m_ptr p) (m_length p)"

definition sp_clear :: "string_piece \<Rightarrow> string_piece" where
  "sp_clear p = p\<lparr>m_ptr := Null, m_length := 0\<rparr>"

definition sp_set :: "cptr \<Rightarrow> int \<Rightarrow> string_piece \<Rightarrow> string_piece" where
  "sp_set buffer len p = p\<lparr>m_ptr := buffer, m_length := len\<rparr>"

definition sp_set_cstr :: "cptr \<Rightarrow> string_piece \<Rightarrow> string_piece res" where
  "sp_set_cstr str p =
     andThen (strlen str) (\<lambda>k. Inr (p\<lparr>m_ptr := str, m_length := to_int32 (int k)\<rparr>))"

text \<open>\<open>operator[]\<close> is declared to return \<open>bool\<close>: it gives the truth value of the character.\<close>

definition sp_index :: "int \<Rightarrow> string_piece \<Rightarrow> bool res" where
  "sp_index i p =
     (case m_ptr p of Null \<Rightarrow> Inl NullDeref
      | _ \<Rightarrow> andThen (ptr_read (ptr_add (m_ptr p) i) 1) (\<lambda>c. Inr (c \<noteq> [CHR 0x00])))"

definition remove_prefix :: "int \<Rightarrow> string_piece \<Rightarrow> string_piece" where
  "remove_prefix n p = p\<lparr>m_ptr := ptr_add (m_ptr p) n, m_length := m_length p - n\<rparr>"

definition remove_suffix :: "int \<Rightarrow> string_piece \<Rightarrow> string_piece" where
  "remove_suffix n p = p\<lparr>m_length := m_length p - n\<rparr>"

text \<open>\<open>memcmp\<close> on the first \<open>n\<close> bytes of two pieces, \<open>n\<close> an \<open>int\<close> converted to \<open>size_t\<close>.\<close>

definition sp_memcmp :: "string_piece \<Rightarrow> string_piece \<Rightarrow> int \<Rightarrow> int res" where
  "sp_memcmp p q n =
     andThen (ptr_read (m_ptr p) (sz_of_int n)) (\<lambda>a.
     andThen (ptr_read (m_ptr q) (sz_of_int n)) (\<lambda>b. Inr (memcmp a b)))"

definition sp_eq :: "string_piece \<Rightarrow> string_piece \<Rightarrow> bool res" where
  "sp_eq p x =
     (if m_length p = m_length x
      then andThen (sp_memcmp p x (m_length p)) (\<lambda>r. Inr (r = 0)) else Inr False)"

definition sp_neq :: "string_piece \<Rightarrow> string_piece \<Rightarrow> bool res" where
  "sp_neq p x = andThen (sp_eq p x) (\<lambda>b. Inr (\<not> b))"

text \<open>The macro \<open>STRINGPIECE_BINARY_PREDICATE(cmp, auxcmp)\<close> and its four uses.\<close>

definition sp_predicate ::
    "(int \<Rightarrow> int \<Rightarrow> bool) \<Rightarrow> (int \<Rightarrow> int \<Rightarrow> bool) \<Rightarrow> string_piece \<Rightarrow> string_piece \<Rightarrow> bool res" where
  "sp_predicate cmp auxcmp p x =
     andThen (sp_memcmp p x (if m_length p < m_length x then m_length p else m_length x))
       (\<lambda>r. Inr (auxcmp r 0 \<or> (r = 0 \<and> cmp (m_length p) (m_length x))))"

definition sp_less :: "string_piece \<Rightarrow> string_piece \<Rightarrow> bool res" where
  "sp_less = sp_predicate (<) (<)"

definition sp_less_eq :: "string_piece \<Rightarrow> string_piece \<Rightarrow> bool res" where
  "sp_less_eq = sp_predicate (\<le>) (<)"

definition sp_greater_eq :: "string_piece \<Rightarrow> string_piece \<Rightarrow> bool res" where
  "sp_greater_eq = sp_predicate (\<ge>) (>)"

definition sp_greater :: "string_piece \<Rightarrow> string_piece \<Rightarrow> bool res" where
  "sp_greater = sp_predicate (>) (>)"

definition sp_compare :: "string_piece \<Rightarrow> string_piece \<Rightarrow> int res" where
  "sp_compare p x =
     andThen (sp_memcmp p x (if m_length p < m_length x then m_length p else m_length x))
       (\<lambda>r. Inr (if r = 0
                 then (if m_length p < m_length x then - 1
                       else if m_length p > m_length x then 1 else r)
                 else r))"

text \<open>\<open>string(data(), size())\<close> and \<open>assign\<close>; a negative length is a \<open>length_error\<close>.\<close>

definition as_string :: "string_piece \<Rightarrow> string res" where
  "as_string p = (if m_length p < 0 then Inl LengthError
                  else ptr_read (m_ptr p) (sz_of_int (m_length p)))"

definition copy_to_string :: "string_piece \<Rightarrow> string \<Rightarrow> string res" where
  "copy_to_string p target = as_string p"

definition starts_with :: "string_piece \<Rightarrow> string_piece \<Rightarrow> bool res" where
  "starts_with p x =
     (if m_length p \<ge> m_length x
      then andThen (sp_memcmp p x (m_length x)) (\<lambda>r. Inr (r = 0)) else Inr False)"

section \<open>The text of a piece\<close>

definition piece_text :: "string_piece \<Rightarrow> string \<Rightarrow> bool" where
  "piece_text p s \<longleftrightarrow> m_length p = int (length s) \<and> length s < 2 ^ 31 \<and>
     ptr_read (m_ptr p) (length s) = Inr s"

lemma piece_text_string: "length s < 2 ^ 31 \<Longrightarrow> piece_text (StringPiece_string s) s"
  by (simp add: piece_text_def StringPiece_string_def ptr_read_cstr to_int32_id int32_ok_def)

lemma piece_text_cstr:
  assumes "CHR 0x00 \<notin> set s" "length s < 2 ^ 31"
  shows "\<exists>p. StringPiece_cstr (cstr s) = Inr p \<and> piece_text p s"
  using assms by (simp add: StringPiece_cstr_def strlen_cstr piece_text_def ptr_read_cstr
    to_int32_id int32_ok_def)

lemma as_string_text: "piece_text p s \<Longrightarrow> as_string p = Inr s"
  by (simp add: piece_text_def as_string_def sz_of_int_nat)

text \<open>\<open>memcmp\<close> over the common length decides the lexicographic order up to the lengths.\<close>

lemma memcmp_refl [simp]: "memcmp s s = 0"
  by (induction s) simp_all

lemma Nil_less_nonempty: "s \<noteq> [] \<Longrightarrow> [] < (s :: string)"
  by (cases s) simp_all

lemma memcmp_lex:
  fixes a b :: string
  defines "m \<equiv> memcmp (take (min (length a) (length b)) a) (take (min (length a) (length b)) b)"
  shows "a < b \<longleftrightarrow> m < 0 \<or> (m = 0 \<and> length a < length b)"
    and "a = b \<longleftrightarrow> m = 0 \<and> length a = length b"
  unfolding m_def
  by (induction a b rule: memcmp.induct) (auto intro: Nil_less_nonempty)

lemma memcmp_prefix:
  "length x \<le> length a \<Longrightarrow> memcmp (take (length x) a) x = 0 \<longleftrightarrow> prefix x a"
  by (induction a x rule: memcmp.induct) auto

lemma sp_memcmp_text:
  assumes "piece_text p a" "piece_text q b" "n \<le> length a" "n \<le> length b"
  shows "sp_memcmp p q (int n) = Inr (memcmp (take n a) (take n b))"
proof -
  have "n < 2 ^ 64" using assms by (simp add: piece_text_def)
  then show ?thesis
    using assms ptr_read_take [of "m_ptr p" "length a" a n] ptr_read_take [of "m_ptr q" "length b" b n]
    by (simp add: sp_memcmp_def sz_of_int_nat piece_text_def)
qed

lemma sp_memcmp_min:
  assumes "piece_text p a" "piece_text q b"
  shows "sp_memcmp p q (if m_length p < m_length q then m_length p else m_length q) =
    Inr (memcmp (take (min (length a) (length b)) a) (take (min (length a) (length b)) b))"
  using sp_memcmp_text [OF assms, of "min (length a) (length b)"] assms
  by (auto simp: piece_text_def min_def)

text \<open>C37: On valid pieces \<open>==\<close>, the four order predicates and \<open>starts_with\<close> are equality, the
  lexicographic order by unsigned bytes and the prefix relation of the denoted strings.\<close>

theorem string_piece_order:
  assumes "piece_text p a" and "piece_text q b"
  shows "sp_eq p q = Inr (a = b) \<and> sp_neq p q = Inr (a \<noteq> b) \<and>
    sp_less p q = Inr (a < b) \<and> sp_less_eq p q = Inr (a \<le> b) \<and>
    sp_greater_eq p q = Inr (b \<le> a) \<and> sp_greater p q = Inr (b < a) \<and>
    starts_with p q = Inr (prefix b a)"
proof -
  have len: "m_length p = int (length a)" "m_length q = int (length b)"
    using assms by (simp_all add: piece_text_def)
  have eq: "sp_eq p q = Inr (a = b)"
    using sp_memcmp_text [OF assms, of "length a"] memcmp_lex(2) [of a b]
    by (auto simp: sp_eq_def len)
  moreover have "sp_neq p q = Inr (a \<noteq> b)" by (simp add: sp_neq_def eq)
  moreover have "starts_with p q = Inr (prefix b a)"
    using sp_memcmp_text [OF assms, of "length b"] memcmp_prefix [of b a]
    by (auto simp: starts_with_def len dest: prefix_length_le)
  moreover define r where
    "r = memcmp (take (min (length a) (length b)) a) (take (min (length a) (length b)) b)"
  note L = memcmp_lex [of a b, folded r_def]
  have M: "sp_predicate cmp aux p q =
      Inr (aux r 0 \<or> r = 0 \<and> cmp (int (length a)) (int (length b)))" for cmp aux
    unfolding sp_predicate_def sp_memcmp_min [OF assms, folded r_def] by (simp add: len)
  have "sp_less p q = Inr (a < b)" by (simp add: sp_less_def M L(1))
  moreover have "sp_less_eq p q = Inr (a \<le> b)"
    unfolding order_le_less L by (auto simp: sp_less_eq_def M)
  moreover have "sp_greater_eq p q = Inr (b \<le> a)"
    unfolding not_less [symmetric] L by (auto simp: sp_greater_eq_def M)
  moreover have "sp_greater p q = Inr (b < a)"
    unfolding not_le [of a b, symmetric] order_le_less [of a b] L
    by (auto simp: sp_greater_def M)
  ultimately show ?thesis by simp
qed

theorem string_piece_order_witness:
  "sp_less (StringPiece_string ''ab'') (StringPiece_string ''b'') = Inr True"
  using string_piece_order [OF piece_text_string [of "''ab''"] piece_text_string [of "''b''"]]
  by simp

end
