(* ===== verification/Base_LogStream.thy ===== *)
theory Base_LogStream
  imports Cpp_Format Base_StringPiece
begin

text \<open>
  Text formatting of log records (\<open>base/log_stream.h\<close>, \<open>base/log_stream.cpp\<close>).

  \<open>fixbuf\<close> is \<open>FixBuffer<SIZE>\<close>: the array (its length is \<open>SIZE\<close>) and the cursor as an
  offset. \<open>convert\<close> and \<open>convert_hex\<close> are the two digit loops; the first part proves them equal
  to the reference decimal text. \<open>LogStream_put\<close> is the family of \<open>operator<<\<close>, one
  constructor of \<open>log_arg\<close> per overload; what \<open>snprintf(\"%.12g\")\<close> prints for a floating
  point value is an argument. The contract is \<open>put_spec\<close>: an item is appended whole or
  dropped whole. \<open>formatSI\<close> and \<open>formatIEC\<close> choose unit and precision; the digits of the
  quotient come from \<open>snprintf\<close> and are an argument.
\<close>

section \<open>Digits\<close>

definition digits :: string where
  "digits = ''9876543210123456789''"

definition digitsHex :: string where
  "digitsHex = ''0123456789ABCDEF''"

text \<open>\<open>zero = digits + 9\<close>; \<open>zero[k]\<close> is valid for \<open>-9 \<le> k \<le> 9\<close>.\<close>

definition zero_at :: "int \<Rightarrow> char" where
  "zero_at k = digits ! nat (9 + k)"

lemma sdiv_10_shrinks: "(i :: int) sdiv 10 \<noteq> 0 \<Longrightarrow> nat \<bar>i sdiv 10\<bar> < nat \<bar>i\<bar>"
  by (auto simp: signed_divide_int_def sgn_if abs_if split: if_splits)

text \<open>The do-while loop of \<open>convert\<close>: the digits in the order they are stored.\<close>

function convert_loop :: "int \<Rightarrow> string" where
  "convert_loop i = zero_at (i smod 10) # (if i sdiv 10 \<noteq> 0 then convert_loop (i sdiv 10) else [])"
  by auto
termination by (relation "measure (\<lambda>i. nat \<bar>i\<bar>)") (use sdiv_10_shrinks in auto)

declare convert_loop.simps [simp del]

text \<open>The characters \<open>convert\<close> leaves in \<open>buf\<close> in front of the NUL; it returns their number.\<close>

definition convert :: "int \<Rightarrow> string" where
  "convert value = rev (convert_loop value @ (if value < 0 then ''-'' else []))"

function convert_hex_loop :: "nat \<Rightarrow> string" where
  "convert_hex_loop i =
     digitsHex ! (i mod 16) # (if i div 16 \<noteq> 0 then convert_hex_loop (i div 16) else [])"
  by auto
termination by (relation "measure id") auto

declare convert_hex_loop.simps [simp del]

definition convert_hex :: "nat \<Rightarrow> string" where
  "convert_hex value = rev (convert_hex_loop value)"

lemma less_10_cases: "(d :: nat) < 10 \<Longrightarrow>
    d = 0 \<or> d = 1 \<or> d = 2 \<or> d = 3 \<or> d = 4 \<or> d = 5 \<or> d = 6 \<or> d = 7 \<or> d = 8 \<or> d = 9"
  by presburger

lemma zero_at_digit: "d < 10 \<Longrightarrow> zero_at (int d) = digit_char d"
  "d < 10 \<Longrightarrow> zero_at (- int d) = digit_char d"
  by (drule less_10_cases, elim disjE; simp add: zero_at_def digits_def digit_char_def char_of_def bit_0)+

lemma convert_loop_sign:
  "convert_loop (int n) = rev (dec_nat n)" "convert_loop (- int n) = rev (dec_nat n)"
proof -
  have "convert_loop (int n) = rev (dec_nat n) \<and> convert_loop (- int n) = rev (dec_nat n)"
  proof (induction n rule: dec_nat.induct)
    case (1 n)
    have q: "int n sdiv 10 = int (n div 10)" "(- int n) sdiv 10 = - int (n div 10)"
      by (simp_all add: signed_divide_int_def sgn_if zdiv_int)
    have r: "int n smod 10 = int (n mod 10)" "(- int n) smod 10 = - int (n mod 10)"
      by (cases "n = 0"; simp add: signed_modulo_int_def sgn_if zmod_int)+
    have z: "zero_at (int (n mod 10)) = digit_char (n mod 10)"
      "zero_at (- int (n mod 10)) = digit_char (n mod 10)" by (simp_all add: zero_at_digit)
    show ?case
      using 1 by (subst (1 2) convert_loop.simps, subst (1 2) dec_nat.simps)
        (simp add: q r z div_eq_0_iff)
  qed
  then show "convert_loop (int n) = rev (dec_nat n)" "convert_loop (- int n) = rev (dec_nat n)"
    by simp_all
qed

text \<open>For every signed or unsigned value of any width the characters \<open>convert\<close> stores are the
  decimal text of the value, the most negative one included.\<close>

theorem convert_decimal: "convert value = dec_int value"
proof (cases "value < 0")
  case True
  then obtain n where "value = - int n" "0 < n"
    by (metis neg_0_less_iff_less neg_less_0_iff_less of_nat_0_less_iff zero_less_imp_eq_int
      minus_minus)
  then show ?thesis by (simp add: convert_def dec_int_def convert_loop_sign)
next
  case False
  then obtain n where "value = int n" using nonneg_int_cases by (metis not_less)
  then show ?thesis by (simp add: convert_def dec_int_def convert_loop_sign)
qed

section \<open>FixBuffer\<close>

record fixbuf =
  m_data :: string
  m_cur :: nat

definition k_small_buffer :: nat where "k_small_buffer = 4000"

definition k_large_buffer :: nat where "k_large_buffer = 4000 * 1000"

text \<open>The constructor; \<open>junk\<close> is the uninitialised array.\<close>

definition FixBuffer :: "string \<Rightarrow> fixbuf" where
  "FixBuffer junk = \<lparr>m_data = junk, m_cur = 0\<rparr>"

definition fb_length :: "fixbuf \<Rightarrow> int" where
  "fb_length b = to_int32 (int (m_cur b))"

definition avail :: "fixbuf \<Rightarrow> int" where
  "avail b = to_int32 (int (length (m_data b)) - int (m_cur b))"

definition FixBuffer_append :: "cptr \<Rightarrow> nat \<Rightarrow> fixbuf \<Rightarrow> fixbuf res" where
  "FixBuffer_append buf len b =
     (if sz_of_int (avail b) > len
      then andThen (ptr_read buf len) (\<lambda>d.
           andThen (write_at (m_data b) (m_cur b) d) (\<lambda>m.
           Inr (b\<lparr>m_data := m, m_cur := m_cur b + len\<rparr>)))
      else Inr b)"

definition FixBuffer_add :: "nat \<Rightarrow> fixbuf \<Rightarrow> fixbuf" where
  "FixBuffer_add len b = b\<lparr>m_cur := m_cur b + len\<rparr>"

definition FixBuffer_reset :: "fixbuf \<Rightarrow> fixbuf" where
  "FixBuffer_reset b = b\<lparr>m_cur := 0\<rparr>"

definition FixBuffer_bzero :: "fixbuf \<Rightarrow> fixbuf" where
  "FixBuffer_bzero b = b\<lparr>m_data := replicate (length (m_data b)) (CHR 0x00)\<rparr>"

text \<open>\<open>to_string\<close> starts at the cursor, \<open>to_string_piece\<close> at the array.\<close>

definition FixBuffer_to_string :: "fixbuf \<Rightarrow> string res" where
  "FixBuffer_to_string b = ptr_read (Ptr (m_data b) (int (m_cur b))) (sz_of_int (fb_length b))"

definition to_string_piece :: "fixbuf \<Rightarrow> string_piece" where
  "to_string_piece b = StringPiece_range (Ptr (m_data b) 0) (fb_length b)"

definition debug_string :: "fixbuf \<Rightarrow> (fixbuf \<times> cptr) res" where
  "debug_string b = andThen (write_at (m_data b) (m_cur b) [CHR 0x00])
     (\<lambda>m. Inr (b\<lparr>m_data := m\<rparr>, Ptr m 0))"

definition fixbuf_inv :: "fixbuf \<Rightarrow> bool" where
  "fixbuf_inv b \<longleftrightarrow> m_cur b < length (m_data b) \<and> length (m_data b) < 2 ^ 31"

definition fixbuf_text :: "fixbuf \<Rightarrow> string" where
  "fixbuf_text b = take (m_cur b) (m_data b)"

lemma avail_eq: "fixbuf_inv b \<Longrightarrow> avail b = int (length (m_data b) - m_cur b)"
  by (simp add: avail_def fixbuf_inv_def to_int32_id int32_ok_def)

lemma fb_length_eq: "fixbuf_inv b \<Longrightarrow> fb_length b = int (m_cur b)"
  by (simp add: fb_length_def fixbuf_inv_def to_int32_id int32_ok_def)

lemma FixBuffer_new: "junk \<noteq> [] \<Longrightarrow> length junk < 2 ^ 31 \<Longrightarrow>
    fixbuf_inv (FixBuffer junk) \<and> fixbuf_text (FixBuffer junk) = []"
  by (simp add: FixBuffer_def fixbuf_inv_def fixbuf_text_def)

text \<open>Writing at the cursor and advancing it appends to the text.\<close>

lemma fixbuf_extend:
  assumes "fixbuf_inv b" "m_cur b + length w < length (m_data b)" "length w \<le> length d"
    and "write_at (m_data b) (m_cur b) d = Inr m" "take (length w) d = w"
  shows "fixbuf_inv (b\<lparr>m_data := m, m_cur := m_cur b + length w\<rparr>) \<and>
    fixbuf_text (b\<lparr>m_data := m, m_cur := m_cur b + length w\<rparr>) = fixbuf_text b @ w"
proof -
  have m: "m = take (m_cur b) (m_data b) @ d @ drop (m_cur b + length d) (m_data b)"
    and l: "length m = length (m_data b)"
    using assms(4) length_write_at [OF assms(4)] by (auto simp: write_at_def split: if_splits)
  have "length (take (m_cur b) (m_data b)) = m_cur b" using assms(1) by (simp add: fixbuf_inv_def)
  then have "take (m_cur b + length w) m = take (m_cur b) (m_data b) @ w"
    using assms(3,5) by (simp add: m)
  then show ?thesis using assms l by (simp add: fixbuf_inv_def fixbuf_text_def)
qed

lemma FixBuffer_append_text:
  assumes "fixbuf_inv b" "ptr_read buf (length w) = Inr w"
  shows "\<exists>b'. FixBuffer_append buf (length w) b = Inr b' \<and> fixbuf_inv b' \<and>
    length (m_data b') = length (m_data b) \<and>
    fixbuf_text b' =
      (if length w < length (m_data b) - m_cur b then fixbuf_text b @ w else fixbuf_text b)"
proof (cases "length w < length (m_data b) - m_cur b")
  case True
  then obtain m where m: "write_at (m_data b) (m_cur b) w = Inr m"
    using that by (simp add: write_at_def less_diff_conv add.commute)
  have "length w < sz_of_int (avail b)"
    using True assms(1) by (simp add: avail_eq sz_of_int_nat fixbuf_inv_def)
  then have "FixBuffer_append buf (length w) b =
      Inr (b\<lparr>m_data := m, m_cur := m_cur b + length w\<rparr>)"
    by (simp add: FixBuffer_append_def assms(2) m)
  then show ?thesis using fixbuf_extend [OF assms(1) _ _ m] True length_write_at [OF m] by simp
next
  case False
  then have "\<not> length w < sz_of_int (avail b)"
    using assms(1) by (simp add: avail_eq sz_of_int_nat fixbuf_inv_def)
  then show ?thesis using False assms(1) by (simp add: FixBuffer_append_def)
qed

text \<open>\<open>to_string\<close> never returns the text: it returns what follows it, and leaves the array as soon
  as the text fills more than half of it.\<close>

lemma to_string_after_text:
  assumes "fixbuf_inv b"
  shows "FixBuffer_to_string b =
    (if 2 * m_cur b \<le> length (m_data b)
     then Inr (take (m_cur b) (drop (m_cur b) (m_data b))) else Inl OutOfBounds)"
  using assms by (simp add: FixBuffer_to_string_def fb_length_eq sz_of_int_nat fixbuf_inv_def
    read_at_def mult_2)

lemma to_string_piece_text: "fixbuf_inv b \<Longrightarrow> piece_text (to_string_piece b) (fixbuf_text b)"
  by (simp add: to_string_piece_def StringPiece_range_def piece_text_def fb_length_eq fixbuf_text_def
    fixbuf_inv_def read_at_def)

section \<open>Fmt\<close>

record fmt =
  fmt_buf :: string
  fmt_length :: int

text \<open>\<open>printed\<close> is what \<open>snprintf\<close> produces for the format and the value, before the
  truncation to the 32 bytes of \<open>m_buf\<close>.\<close>

definition Fmt_ctor :: "bool \<Rightarrow> string \<Rightarrow> string \<Rightarrow> fmt res" where
  "Fmt_ctor dbg junk printed =
     andThen (write_at junk 0 (take 31 printed @ [CHR 0x00])) (\<lambda>m.
     cassert dbg (sz_of_int (to_int32 (int (length printed))) < 32)
       (Inr \<lparr>fmt_buf = m, fmt_length = to_int32 (int (length printed))\<rparr>))"

section \<open>LogStream\<close>

definition k_max_num_size :: int where "k_max_num_size = 48"

definition format_integer :: "int \<Rightarrow> fixbuf \<Rightarrow> fixbuf res" where
  "format_integer v b =
     (if avail b \<ge> k_max_num_size
      then andThen (write_at (m_data b) (m_cur b) (convert v @ [CHR 0x00]))
             (\<lambda>m. Inr (FixBuffer_add (length (convert v)) (b\<lparr>m_data := m\<rparr>)))
      else Inr b)"

definition put_int :: "int \<Rightarrow> fixbuf \<Rightarrow> fixbuf res" where
  "put_int v b = format_integer v b"

definition put_uint :: "int \<Rightarrow> fixbuf \<Rightarrow> fixbuf res" where
  "put_uint v b = format_integer v b"

definition put_short :: "int \<Rightarrow> fixbuf \<Rightarrow> fixbuf res" where
  "put_short v b = put_int v b"

definition put_ushort :: "int \<Rightarrow> fixbuf \<Rightarrow> fixbuf res" where
  "put_ushort v b = put_uint v b"

definition put_ulong :: "int \<Rightarrow> fixbuf \<Rightarrow> fixbuf res" where
  "put_ulong v b = format_integer v b"

definition put_ulonglong :: "int \<Rightarrow> fixbuf \<Rightarrow> fixbuf res" where
  "put_ulonglong v b = format_integer v b"

lemmas put_integer_defs = put_int_def put_uint_def put_short_def put_ushort_def put_ulong_def
  put_ulonglong_def

text \<open>\<open>operator<<(const void *)\<close> has no \<open>return\<close> on the path where the buffer is full.\<close>

definition put_pointer :: "nat \<Rightarrow> fixbuf \<Rightarrow> fixbuf res" where
  "put_pointer p b =
     (if avail b \<ge> k_max_num_size
      then andThen (write_at (m_data b) (m_cur b) (''0x'' @ convert_hex p))
             (\<lambda>m. Inr (FixBuffer_add (length (convert_hex p) + 2) (b\<lparr>m_data := m\<rparr>)))
      else Inl Undefined)"

definition put_double :: "string \<Rightarrow> fixbuf \<Rightarrow> fixbuf res" where
  "put_double printed b =
     (if avail b \<ge> k_max_num_size
      then andThen (write_at (m_data b) (m_cur b) (take 47 printed @ [CHR 0x00]))
             (\<lambda>m. Inr (FixBuffer_add (length printed) (b\<lparr>m_data := m\<rparr>)))
      else Inr b)"

definition put_cstr :: "cptr \<Rightarrow> fixbuf \<Rightarrow> fixbuf res" where
  "put_cstr str b =
     (if str \<noteq> Null then andThen (strlen str) (\<lambda>n. FixBuffer_append str n b)
      else FixBuffer_append (cstr ''(null)'') 6 b)"

definition put_piece :: "string_piece \<Rightarrow> fixbuf \<Rightarrow> fixbuf res" where
  "put_piece v b = FixBuffer_append (m_ptr v) (sz_of_int (m_length v)) b"

text \<open>The overloads of \<open>operator<<\<close> that have a definition; \<open>g12\<close> is \<open>snprintf(\"%.12g\")\<close> and
  \<open>widen\<close> the conversion of a \<open>float\<close> to \<open>double\<close>.\<close>

datatype ('f, 'd) log_arg =
    ABool bool
  | AShort int | AUShort int | AInt int | AUInt int | AULong int | AULongLong int
  | APtr nat
  | AFloat 'f | ADouble 'd
  | AChar char
  | ACStr cptr | AUCStr cptr
  | AString string
  | APiece string_piece
  | ABuffer fixbuf
  | AFmt fmt

fun LogStream_put ::
    "('f \<Rightarrow> 'd) \<Rightarrow> ('d \<Rightarrow> string) \<Rightarrow> ('f, 'd) log_arg \<Rightarrow> fixbuf \<Rightarrow> fixbuf res" where
  "LogStream_put widen g12 (ABool v) b = FixBuffer_append (cstr (if v then ''1'' else ''0'')) 1 b"
| "LogStream_put widen g12 (AShort v) b = put_short v b"
| "LogStream_put widen g12 (AUShort v) b = put_ushort v b"
| "LogStream_put widen g12 (AInt v) b = put_int v b"
| "LogStream_put widen g12 (AUInt v) b = put_uint v b"
| "LogStream_put widen g12 (AULong v) b = put_ulong v b"
| "LogStream_put widen g12 (AULongLong v) b = put_ulonglong v b"
| "LogStream_put widen g12 (APtr p) b = put_pointer p b"
| "LogStream_put widen g12 (AFloat v) b = put_double (g12 (widen v)) b"
| "LogStream_put widen g12 (ADouble v) b = put_double (g12 v) b"
| "LogStream_put widen g12 (AChar v) b = FixBuffer_append (Ptr [v] 0) 1 b"
| "LogStream_put widen g12 (ACStr str) b = put_cstr str b"
| "LogStream_put widen g12 (AUCStr str) b = put_cstr str b"
| "LogStream_put widen g12 (AString v) b = FixBuffer_append (cstr v) (length v) b"
| "LogStream_put widen g12 (APiece v) b = put_piece v b"
| "LogStream_put widen g12 (ABuffer v) b = put_piece (to_string_piece v) b"
| "LogStream_put widen g12 (AFmt f) b =
     FixBuffer_append (Ptr (fmt_buf f) 0) (sz_of_int (fmt_length f)) b"

definition LogStream_append :: "cptr \<Rightarrow> int \<Rightarrow> fixbuf \<Rightarrow> fixbuf res" where
  "LogStream_append data len b = FixBuffer_append data (sz_of_int len) b"

definition reset_buffer :: "fixbuf \<Rightarrow> fixbuf" where
  "reset_buffer b = FixBuffer_reset b"

section \<open>The contract of the stream\<close>

text \<open>
  Abstractly the stream is a text of bounded length; an item is its characters and the room it
  asks for, and it is appended whole when the room is there and dropped whole otherwise.
\<close>

definition put_spec :: "nat \<Rightarrow> string \<times> nat \<Rightarrow> string \<Rightarrow> string" where
  "put_spec cap item t =
     (if length t + snd item \<le> cap then t @ fst item else t)"

fun arg_means ::
    "('f \<Rightarrow> 'd) \<Rightarrow> ('d \<Rightarrow> string) \<Rightarrow> ('f, 'd) log_arg \<Rightarrow> string \<times> nat \<Rightarrow> bool" where
  "arg_means widen g12 (ABool v) (w, r) \<longleftrightarrow> w = (if v then ''1'' else ''0'') \<and> r = 2"
| "arg_means widen g12 (AShort v) (w, r) \<longleftrightarrow> w = dec_int v \<and> r = 48 \<and> \<bar>v\<bar> < 2 ^ 64"
| "arg_means widen g12 (AUShort v) (w, r) \<longleftrightarrow> w = dec_int v \<and> r = 48 \<and> \<bar>v\<bar> < 2 ^ 64"
| "arg_means widen g12 (AInt v) (w, r) \<longleftrightarrow> w = dec_int v \<and> r = 48 \<and> \<bar>v\<bar> < 2 ^ 64"
| "arg_means widen g12 (AUInt v) (w, r) \<longleftrightarrow> w = dec_int v \<and> r = 48 \<and> \<bar>v\<bar> < 2 ^ 64"
| "arg_means widen g12 (AULong v) (w, r) \<longleftrightarrow> w = dec_int v \<and> r = 48 \<and> \<bar>v\<bar> < 2 ^ 64"
| "arg_means widen g12 (AULongLong v) (w, r) \<longleftrightarrow> w = dec_int v \<and> r = 48 \<and> \<bar>v\<bar> < 2 ^ 64"
| "arg_means widen g12 (APtr p) (w, r) \<longleftrightarrow> False"
| "arg_means widen g12 (AFloat v) (w, r) \<longleftrightarrow> w = g12 (widen v) \<and> r = 48 \<and> length w < 48"
| "arg_means widen g12 (ADouble v) (w, r) \<longleftrightarrow> w = g12 v \<and> r = 48 \<and> length w < 48"
| "arg_means widen g12 (AChar v) (w, r) \<longleftrightarrow> w = [v] \<and> r = 2"
| "arg_means widen g12 (ACStr p) (w, r) \<longleftrightarrow> r = Suc (length w) \<and>
     (if p = Null then w = ''(null)''
      else strlen p = Inr (length w) \<and> ptr_read p (length w) = Inr w)"
| "arg_means widen g12 (AUCStr p) (w, r) \<longleftrightarrow> r = Suc (length w) \<and>
     (if p = Null then w = ''(null)''
      else strlen p = Inr (length w) \<and> ptr_read p (length w) = Inr w)"
| "arg_means widen g12 (AString v) (w, r) \<longleftrightarrow> w = v \<and> r = Suc (length w)"
| "arg_means widen g12 (APiece p) (w, r) \<longleftrightarrow> piece_text p w \<and> r = Suc (length w)"
| "arg_means widen g12 (ABuffer v) (w, r) \<longleftrightarrow>
     fixbuf_inv v \<and> w = fixbuf_text v \<and> r = Suc (length w)"
| "arg_means widen g12 (AFmt f) (w, r) \<longleftrightarrow>
     (\<exists>junk. length junk = 32 \<and> Fmt_ctor True junk w = Inr f) \<and> length w < 2 ^ 31 \<and>
     r = Suc (length w)"

lemma length_dec_int: "\<bar>v\<bar> < 2 ^ 64 \<Longrightarrow> length (dec_int v) \<le> 21"
proof -
  assume "\<bar>v\<bar> < 2 ^ 64"
  then have "nat \<bar>v\<bar> < 10 ^ 20" by simp
  then have "length (dec_nat (nat \<bar>v\<bar>)) \<le> 20" by (intro length_dec_nat) simp_all
  then show ?thesis by (simp add: dec_int_def abs_if split: if_splits)
qed

text \<open>What one step of the stream does to a buffer that meets the invariant.\<close>

definition puts_item :: "string \<times> nat \<Rightarrow> fixbuf \<Rightarrow> fixbuf res \<Rightarrow> bool" where
  "puts_item item b r \<longleftrightarrow> (\<exists>b'. r = Inr b' \<and> fixbuf_inv b' \<and>
     length (m_data b') = length (m_data b) \<and>
     fixbuf_text b' = put_spec (length (m_data b)) item (fixbuf_text b))"

lemma length_fixbuf_text: "fixbuf_inv b \<Longrightarrow> length (fixbuf_text b) = m_cur b"
  by (simp add: fixbuf_inv_def fixbuf_text_def)

lemma puts_append:
  assumes "fixbuf_inv b" "ptr_read p (length w) = Inr w"
  shows "puts_item (w, Suc (length w)) b (FixBuffer_append p (length w) b)"
  using FixBuffer_append_text [OF assms] length_fixbuf_text [OF assms(1)] assms(1)
  by (auto simp: puts_item_def put_spec_def fixbuf_inv_def)

text \<open>A number is stored with its NUL, then the cursor moves behind the digits.\<close>

lemma puts_number:
  assumes "fixbuf_inv b" "length w < 48"
  shows "puts_item (w, 48) b
    (if avail b \<ge> k_max_num_size
     then andThen (write_at (m_data b) (m_cur b) (w @ [CHR 0x00]))
            (\<lambda>m. Inr (FixBuffer_add (length w) (b\<lparr>m_data := m\<rparr>)))
     else Inr b)"
proof (cases "avail b \<ge> k_max_num_size")
  case True
  then have room: "m_cur b + 48 \<le> length (m_data b)"
    using assms(1) by (simp add: avail_eq k_max_num_size_def fixbuf_inv_def)
  then obtain m where m: "write_at (m_data b) (m_cur b) (w @ [CHR 0x00]) = Inr m"
    using that assms(2) by (simp add: write_at_def)
  show ?thesis
    using fixbuf_extend [OF assms(1) _ _ m, of w] room True assms length_write_at [OF m]
    by (simp add: m puts_item_def FixBuffer_add_def put_spec_def length_fixbuf_text)
next
  case False
  then have "\<not> m_cur b + 48 \<le> length (m_data b)"
    using assms(1) by (simp add: avail_eq k_max_num_size_def fixbuf_inv_def)
  then show ?thesis
    using False assms(1) by (simp add: puts_item_def put_spec_def length_fixbuf_text)
qed

lemma puts_integer: "fixbuf_inv b \<Longrightarrow> \<bar>v\<bar> < 2 ^ 64 \<Longrightarrow>
    puts_item (dec_int v, 48) b (format_integer v b)"
  unfolding format_integer_def convert_decimal
  by (rule puts_number) (use length_dec_int [of v] in auto)

lemma puts_double: "fixbuf_inv b \<Longrightarrow> length w < 48 \<Longrightarrow> puts_item (w, 48) b (put_double w b)"
  using puts_number [of b w] by (simp add: put_double_def split: if_splits)

lemma puts_piece: "fixbuf_inv b \<Longrightarrow> piece_text p w \<Longrightarrow>
    puts_item (w, Suc (length w)) b (put_piece p b)"
  using puts_append [of b "m_ptr p" w] by (simp add: put_piece_def piece_text_def sz_of_int_nat)

lemma puts_cstr:
  "fixbuf_inv b \<Longrightarrow> arg_means widen g12 (ACStr p) (w, r) \<Longrightarrow> puts_item (w, r) b (put_cstr p b)"
  using puts_append [of b "cstr ''(null)''" "''(null)''"] puts_append [of b p w]
  by (auto simp: put_cstr_def ptr_read_cstr eval_nat_numeral split: if_splits)

lemma puts_fmt:
  assumes "fixbuf_inv b" "length junk = 32" "Fmt_ctor True junk w = Inr f" "length w < 2 ^ 31"
  shows "puts_item (w, Suc (length w)) b
    (FixBuffer_append (Ptr (fmt_buf f) 0) (sz_of_int (fmt_length f)) b)"
proof -
  have i: "to_int32 (int (length w)) = int (length w)" "sz_of_int (int (length w)) = length w"
    using assms(4) by (simp_all add: to_int32_id int32_ok_def sz_of_int_nat)
  obtain m where m: "write_at junk 0 (take 31 w @ [CHR 0x00]) = Inr m"
    and f: "f = \<lparr>fmt_buf = m, fmt_length = int (length w)\<rparr>" and l: "length w < 32"
    using assms(3) by (auto simp: Fmt_ctor_def res_simps i)
  have "m = w @ CHR 0x00 # drop (Suc (length w)) junk" using m l by (auto simp: write_at_def split: if_splits)
  then show ?thesis
    using puts_append [OF assms(1), of "Ptr m 0" w] assms(2) l by (simp add: f i read_at_def)
qed

lemma LogStream_put_step:
  assumes "fixbuf_inv b" "arg_means widen g12 arg item"
  shows "puts_item item b (LogStream_put widen g12 arg b)"
proof (cases item)
  case (Pair w r)
  have whole: "ptr_read (cstr s) (length s) = Inr s" for s by (simp add: ptr_read_cstr)
  have one: "ptr_read (Ptr [c] 0) (length [c]) = Inr [c]" for c by (simp add: read_at_def)
  note A = assms(2) [unfolded Pair]
  note I = puts_integer [OF assms(1)] and D = puts_double [OF assms(1)]
  show ?thesis unfolding Pair
  proof (cases arg)
    case (ABool v)
    then show "puts_item (w, r) b (LogStream_put widen g12 arg b)"
      using A puts_append [OF assms(1) whole [of w]] by (auto simp: numeral_2_eq_2)
  next
    case (AChar v)
    then show "puts_item (w, r) b (LogStream_put widen g12 arg b)"
      using A puts_append [OF assms(1) one [of v]] by (auto simp: numeral_2_eq_2)
  next
    case (AString v)
    then show "puts_item (w, r) b (LogStream_put widen g12 arg b)"
      using A puts_append [OF assms(1) whole [of w]] by auto
  next
    case (ABuffer v)
    then show "puts_item (w, r) b (LogStream_put widen g12 arg b)"
      using A puts_piece [OF assms(1) to_string_piece_text [of v]] by auto
  qed (use A I D puts_piece [OF assms(1)] puts_cstr [OF assms(1)] puts_fmt [OF assms(1)] in \<open>auto simp: put_integer_defs\<close>)
qed

interpretation stream: refinement "\<lambda>p. LogStream_put widen g12 (fst p)"
    "\<lambda>b. fixbuf_inv b \<and> length (m_data b) = n" fixbuf_text
    "\<lambda>p. arg_means widen g12 (fst p) (snd p)" "\<lambda>p. put_spec n (snd p)" for widen g12 n
  by unfold_locales (use LogStream_put_step in \<open>fastforce simp: puts_item_def\<close>)



text \<open>A pointer is printed when the room is there; on a full buffer the function has no result.\<close>

lemma put_pointer_full:
  "fixbuf_inv b \<Longrightarrow> length (m_data b) < m_cur b + 48 \<Longrightarrow> put_pointer p b = Inl Undefined"
  by (simp add: put_pointer_def avail_eq k_max_num_size_def fixbuf_inv_def)

text \<open>A formatted value of 32 characters or more aborts the Debug build; the Release build then
  appends bytes from behind \<open>m_buf\<close>.\<close>

lemma long_Fmt_debug: "length w = 32 \<Longrightarrow> length junk = 32 \<Longrightarrow> Fmt_ctor True junk w = Inl AssertFail"
  by (simp add: Fmt_ctor_def write_at_def cassert_def to_int32_id int32_ok_def sz_of_int_nat)

lemma long_Fmt_release:
  assumes "length w = 32 + k" "k < 1000" "length junk = 32" "Fmt_ctor False junk w = Inr f"
    and "fixbuf_inv b" "m_cur b = 0" "length (m_data b) = 4000" "0 < k"
  shows "LogStream_put widen g12 (AFmt f) b = Inl OutOfBounds"
proof -
  have i: "to_int32 (int (length w)) = int (length w)" "sz_of_int (int (length w)) = length w"
    using assms by (simp_all add: to_int32_id int32_ok_def sz_of_int_nat)
  have "fmt_length f = int (length w)"
    using assms(4) by (auto simp: Fmt_ctor_def res_simps i)
  moreover have "length (fmt_buf f) = 32"
    using assms(3,4) by (auto simp: Fmt_ctor_def res_simps dest: length_write_at)
  ultimately show ?thesis
    using assms i by (simp add: FixBuffer_append_def avail_eq sz_of_int_nat read_at_def)
qed

section \<open>Sizes with a unit\<close>

text \<open>
  The cascade of thresholds: \<open>None\<close> for the plain decimal, or precision, unit and suffix.
  \<open>fixed p n u\<close> is what \<open>snprintf\<close> prints for \<open>n / u\<close> with \<open>p\<close> decimals, the size
  \<open>n\<close> converted to \<open>double\<close>.
\<close>

definition si_choice :: "int \<Rightarrow> (nat \<times> int \<times> string) option" where
  "si_choice s =
     (if s < 1000 then None
      else if s < 9995 then Some (2, 10 ^ 3, ''k'')
      else if s < 99950 then Some (1, 10 ^ 3, ''k'')
      else if s < 999500 then Some (0, 10 ^ 3, ''k'')
      else if s < 9995000 then Some (2, 10 ^ 6, ''M'')
      else if s < 99950000 then Some (1, 10 ^ 6, ''M'')
      else if s < 999500000 then Some (0, 10 ^ 6, ''M'')
      else if s < 9995000000 then Some (2, 10 ^ 9, ''G'')
      else if s < 99950000000 then Some (1, 10 ^ 9, ''G'')
      else if s < 999500000000 then Some (0, 10 ^ 9, ''G'')
      else if s < 9995000000000 then Some (2, 10 ^ 12, ''T'')
      else if s < 99950000000000 then Some (1, 10 ^ 12, ''T'')
      else if s < 999500000000000 then Some (0, 10 ^ 12, ''T'')
      else if s < 9995000000000000 then Some (2, 10 ^ 15, ''P'')
      else if s < 99950000000000000 then Some (1, 10 ^ 15, ''P'')
      else if s < 999500000000000000 then Some (0, 10 ^ 15, ''P'')
      else Some (2, 10 ^ 18, ''E''))"

definition formatSI :: "(nat \<Rightarrow> int \<Rightarrow> int \<Rightarrow> string) \<Rightarrow> int \<Rightarrow> string" where
  "formatSI fixed s =
     take 63 (case si_choice s of None \<Rightarrow> dec_int s | Some (p, u, sfx) \<Rightarrow> fixed p s u @ sfx)"

text \<open>
  Binary units compare the \<open>double\<close> of the size. \<open>to_double\<close> rounds a 64-bit integer to 53
  significant bits, ties to even; \<open>9.995\<close> and \<open>99.95\<close> are the doubles
  \<open>5626684784446013 / 2 ^ 49\<close> and \<open>7033355980557517 / 2 ^ 46\<close>, and their products with a
  power of two are exact.
\<close>

definition round_bits :: "nat \<Rightarrow> int \<Rightarrow> int" where
  "round_bits e n =
     (let q = n div 2 ^ e; r = n mod 2 ^ e; h = 2 ^ e div 2 in
      (if r > h \<or> (r = h \<and> odd q) then q + 1 else q) * 2 ^ e)"

fun drop_bits :: "nat \<Rightarrow> nat \<Rightarrow> int \<Rightarrow> nat" where
  "drop_bits 0 e n = e"
| "drop_bits (Suc k) e n = (if n < 2 ^ (53 + e) then e else drop_bits k (Suc e) n)"

definition to_double :: "int \<Rightarrow> int" where
  "to_double s =
     (let e = drop_bits 11 0 \<bar>s\<bar> in
      if e = 0 then s else if s < 0 then - round_bits e \<bar>s\<bar> else round_bits e \<bar>s\<bar>)"

definition below_9_995 :: "int \<Rightarrow> int \<Rightarrow> bool" where
  "below_9_995 n u \<longleftrightarrow> n * 2 ^ 49 < u * 5626684784446013"

definition below_99_95 :: "int \<Rightarrow> int \<Rightarrow> bool" where
  "below_99_95 n u \<longleftrightarrow> n * 2 ^ 46 < u * 7033355980557517"

definition below_1023_5 :: "int \<Rightarrow> int \<Rightarrow> bool" where
  "below_1023_5 n u \<longleftrightarrow> n * 2 < u * 2047"

definition iec_choice :: "int \<Rightarrow> (nat \<times> int \<times> string) option" where
  "iec_choice n =
     (if n < 1024 then None
      else if below_9_995 n (1024 ^ 1) then Some (2, 1024 ^ 1, ''Ki'')
      else if below_99_95 n (1024 ^ 1) then Some (1, 1024 ^ 1, ''Ki'')
      else if below_1023_5 n (1024 ^ 1) then Some (0, 1024 ^ 1, ''Ki'')
      else if below_9_995 n (1024 ^ 2) then Some (2, 1024 ^ 2, ''Mi'')
      else if below_99_95 n (1024 ^ 2) then Some (1, 1024 ^ 2, ''Mi'')
      else if below_1023_5 n (1024 ^ 2) then Some (0, 1024 ^ 2, ''Mi'')
      else if below_9_995 n (1024 ^ 3) then Some (2, 1024 ^ 3, ''Gi'')
      else if below_99_95 n (1024 ^ 3) then Some (1, 1024 ^ 3, ''Gi'')
      else if below_1023_5 n (1024 ^ 3) then Some (0, 1024 ^ 3, ''Gi'')
      else if below_9_995 n (1024 ^ 4) then Some (2, 1024 ^ 4, ''Ti'')
      else if below_99_95 n (1024 ^ 4) then Some (1, 1024 ^ 4, ''Ti'')
      else if below_1023_5 n (1024 ^ 4) then Some (0, 1024 ^ 4, ''Ti'')
      else if below_9_995 n (1024 ^ 5) then Some (2, 1024 ^ 5, ''Pi'')
      else if below_99_95 n (1024 ^ 5) then Some (1, 1024 ^ 5, ''Pi'')
      else if below_1023_5 n (1024 ^ 5) then Some (0, 1024 ^ 5, ''Pi'')
      else if below_9_995 n (1024 ^ 6) then Some (2, 1024 ^ 6, ''Ei'')
      else Some (1, 1024 ^ 6, ''Ei''))"

definition formatIEC :: "(nat \<Rightarrow> int \<Rightarrow> int \<Rightarrow> string) \<Rightarrow> int \<Rightarrow> string" where
  "formatIEC fixed s =
     take 63 (case iec_choice (to_double s) of None \<Rightarrow> dec_int s
              | Some (p, u, sfx) \<Rightarrow> fixed p (to_double s) u @ sfx)"

text \<open>
  The thresholds give three significant digits: \<open>n * 10 ^ p / u\<close>, the number made of the printed
  digits, rounds to at least 100 and at most 999 (1023 before a binary unit changes).
\<close>

definition rounds_between :: "int \<Rightarrow> int \<Rightarrow> int \<Rightarrow> int \<Rightarrow> bool" where
  "rounds_between lo hi num den \<longleftrightarrow> (2 * lo - 1) * den < 2 * num \<and> 2 * num < (2 * hi + 1) * den"

lemma formatSI_digits:
  assumes "si_choice s = Some (p, u, sfx)" "s < 9223372036854775808"
  shows "rounds_between 100 999 (s * 10 ^ p) u"
  using assms by (auto simp: si_choice_def rounds_between_def split: if_splits)

lemma formatIEC_digits:
  assumes "iec_choice n = Some (p, u, sfx)" "n \<le> 9223372036854775808"
  shows "rounds_between 100 1023 (n * 10 ^ p) u"
  using assms by (auto simp: iec_choice_def rounds_between_def below_9_995_def below_99_95_def
    below_1023_5_def split: if_splits)

end
