(* ===== verification/Base_LogFile.thy ===== *)
theory Base_LogFile
  imports Cpp_Format Base_StringPiece
begin

text \<open>
  Files (\<open>base/file_util.h\<close>, \<open>base/file_util.cpp\<close>) and the rolling log file
  (\<open>base/log_file.h\<close>, \<open>base/log_file.cpp\<close>).

  An \<open>append_file\<close> is its name, the characters its stream took and \<open>m_write_bytes\<close>. What each
  call of \<open>fwrite_unlocked\<close> takes, and whether the stream then has its error flag set, is a list
  of answers; running out of answers is the value \<open>None\<close>, the loop still running. \<open>read\<close> is a
  function of the offset and the count. The clock readings, the text of \<open>strftime\<close>, the host name
  and the process id are arguments. \<open>lf_done\<close> keeps the files a log has closed.
\<close>

section \<open>AppendFile\<close>

record append_file =
  af_name :: string
  af_text :: string
  af_written :: int

text \<open>\<open>fopen\<close> succeeds or not; without assertions the null stream goes to \<open>setbuffer\<close>.\<close>

definition AppendFile_ctor :: "bool \<Rightarrow> bool \<Rightarrow> string \<Rightarrow> append_file res" where
  "AppendFile_ctor dbg opened filename =
     cassert dbg opened
      (if opened then Inr \<lparr>af_name = filename, af_text = [], af_written = 0\<rparr> else Inl NullDeref)"

fun append_loop :: "(nat \<times> bool) list \<Rightarrow> string \<Rightarrow> nat \<Rightarrow> string \<Rightarrow> (nat \<times> string) option" where
  "append_loop answers logline written tx =
     (if written \<noteq> length logline
      then (case answers of
              [] \<Rightarrow> None
            | (k, err) # answers' \<Rightarrow>
                let remain = length logline - written; n = min k remain;
                    tx' = tx @ take n (drop written logline) in
                if n \<noteq> remain \<and> err then Some (written, tx')
                else append_loop answers' logline (written + n) tx')
      else Some (written, tx))"

declare append_loop.simps [simp del]

definition AppendFile_append :: "(nat \<times> bool) list \<Rightarrow> string \<Rightarrow> append_file \<Rightarrow> append_file option" where
  "AppendFile_append answers logline F =
     (case append_loop answers logline 0 (af_text F) of None \<Rightarrow> None
      | Some (written, tx) \<Rightarrow> Some (F\<lparr>af_text := tx, af_written := af_written F + int written\<rparr>))"

text \<open>The stream always makes progress: each call takes a character at least, without an error.\<close>

definition progress :: "(nat \<times> bool) list \<Rightarrow> bool" where
  "progress answers \<longleftrightarrow> list_all (\<lambda>(k, err). 0 < k \<and> \<not> err) answers"

lemma append_loop_all:
  assumes "progress answers" "length logline - written \<le> length answers" "written \<le> length logline"
  shows "append_loop answers logline written tx = Some (length logline, tx @ drop written logline)"
  using assms
proof (induction answers arbitrary: written tx)
  case Nil
  then show ?case by (simp add: append_loop.simps)
next
  case (Cons a answers)
  obtain k where a: "a = (k, False)" "0 < k" "progress answers"
    using Cons.prems(1) by (cases a) (auto simp: progress_def)
  show ?case
  proof (cases "written = length logline")
    case True
    then show ?thesis by (simp add: append_loop.simps)
  next
    case False
    define n where "n = min k (length logline - written)"
    have n: "0 < n" "written + n \<le> length logline" using a(2) False Cons.prems(3) by (auto simp: n_def)
    have "take n (drop written logline) @ drop (written + n) logline = drop written logline"
      by (metis add.commute append_take_drop_id drop_drop)
    then show ?thesis
      using False Cons.IH [OF a(3), of "written + n" "tx @ take n (drop written logline)"] n Cons.prems(2)
      by (subst append_loop.simps) (simp add: a(1) Let_def flip: n_def)
  qed
qed

text \<open>When the stream takes at least one character per call and reports no error, \<open>append\<close>
  returns after at most as many calls as the record has characters; the file then ends with the
  whole record and the counter has grown by its length.\<close>

theorem append_writes_record:
  assumes "progress answers" and "length logline \<le> length answers"
  shows "AppendFile_append answers logline F =
    Some (F\<lparr>af_text := af_text F @ logline, af_written := af_written F + int (length logline)\<rparr>)"
  using append_loop_all [OF assms(1), of logline 0 "af_text F"] assms(2)
  by (simp add: AppendFile_append_def)

theorem append_writes_record_witness:
  "AppendFile_append [(2, False), (1, False), (5, False)] ''abc''
      \<lparr>af_name = ''x.log'', af_text = ''z'', af_written = 1\<rparr> =
    Some \<lparr>af_name = ''x.log'', af_text = ''zabc'', af_written = 4\<rparr>"
  by (subst append_writes_record) (simp_all add: progress_def)

text \<open>A stream that takes nothing and reports no error keeps the loop running for ever; one that
  fails in the middle of a call leaves characters in the file that the counter does not count.\<close>

lemma append_spins: "logline \<noteq> [] \<Longrightarrow> AppendFile_append (replicate n (0, False)) logline F = None"
proof -
  assume "logline \<noteq> []"
  then have "append_loop (replicate n (0, False)) logline 0 tx = None" for tx
    by (induction n) (simp_all add: append_loop.simps)
  then show ?thesis by (simp add: AppendFile_append_def)
qed

lemma append_undercounts:
  assumes "k < length logline"
  shows "AppendFile_append [(k, True)] logline F = Some (F\<lparr>af_text := af_text F @ take k logline\<rparr>)"
  using assms by (auto simp: AppendFile_append_def append_loop.simps)

section \<open>ReadSmallFile\<close>

definition k_buff_size :: nat where "k_buff_size = 64 * 1024"

text \<open>
  Opening: \<open>answer\<close> is the result of \<open>open\<close>, a descriptor or an error number; the buffer starts with
  a NUL (\<open>junk\<close> is what was there). The destructor closes what was opened.
\<close>

record small_file =
  rs_fd :: int
  rs_err :: int
  rs_buf :: string

definition ReadSmallFile_ctor :: "int + int \<Rightarrow> string \<Rightarrow> small_file" where
  "ReadSmallFile_ctor answer junk =
     (case answer of
        Inl errno \<Rightarrow> \<lparr>rs_fd = - 1, rs_err = errno, rs_buf = junk[0 := CHR 0x00]\<rparr>
      | Inr fd \<Rightarrow> \<lparr>rs_fd = fd, rs_err = 0, rs_buf = junk[0 := CHR 0x00]\<rparr>)"

definition ReadSmallFile_dtor :: "small_file \<Rightarrow> int list" where
  "ReadSmallFile_dtor F = (if rs_fd F \<ge> 0 then [rs_fd F] else [])"

text \<open>The loop of \<open>read_to_string\<close>: content and error number.\<close>

function read_loop :: "(nat \<Rightarrow> nat \<Rightarrow> int + string) \<Rightarrow> nat \<Rightarrow> string \<Rightarrow> int \<Rightarrow> string \<times> int" where
  "read_loop rd maxSize content err =
     (if length content < maxSize
      then let toRead = min (maxSize - length content) k_buff_size in
        (case rd (length content) toRead of
           Inl e \<Rightarrow> (content, e)
         | Inr d \<Rightarrow> if take toRead d = [] then (content, err)
                    else read_loop rd maxSize (content @ take toRead d) err)
      else (content, err))"
  by auto
termination
  by (relation "measure (\<lambda>(rd, maxSize, content, err). maxSize - length content)")
    (auto simp: k_buff_size_def neq_Nil_conv)

declare read_loop.simps [simp del]

datatype file_kind = Regular | Directory | OtherKind

text \<open>\<open>fd\<close> and \<open>open_err\<close> come from the constructor; \<open>st\<close> is the result of \<open>fstat\<close>: an
  error, or kind, size, modification and change time. The last three results go through pointers
  that may be null: \<open>want\<close> tells which of them the caller passed, \<open>content\<close> is the caller's string.\<close>

definition read_to_string ::
    "int \<Rightarrow> int \<Rightarrow> int + file_kind \<times> int \<times> int \<times> int \<Rightarrow> (nat \<Rightarrow> nat \<Rightarrow> int + string) \<Rightarrow> bool \<times> bool \<times> bool \<Rightarrow>
     string \<Rightarrow> int \<Rightarrow> (int \<times> string \<times> int option \<times> int option \<times> int option) res" where
  "read_to_string fd open_err st rd want content maxSize =
     (case want of (wantSize, wantModify, wantCreate) \<Rightarrow>
      if fd \<ge> 0
      then andThen
        (if wantSize
         then (case st of
                 Inl e \<Rightarrow> Inr (e, None, None, None)
               | Inr (kind, fsize, mtime, ctime) \<Rightarrow>
                   andThen
                    (case kind of
                       Regular \<Rightarrow>
                         if to_int32 (min maxSize fsize) < 0 then Inl LengthError
                         else Inr (open_err, Some fsize)
                     | Directory \<Rightarrow> Inr (21, None)
                     | OtherKind \<Rightarrow> Inr (open_err, None))
                    (\<lambda>(err, fileSize). Inr (err, fileSize, if wantModify then Some mtime else None,
                       if wantCreate then Some ctime else None)))
         else Inr (open_err, None, None, None))
        (\<lambda>(err, results).
         let (text, err') = read_loop rd (sz_of_int maxSize) [] err in Inr (err', text, results))
      else Inr (open_err, content, None, None, None))"

definition read_to_buffer :: "int \<Rightarrow> int \<Rightarrow> int + string \<Rightarrow> string \<Rightarrow> (int \<times> string \<times> int option) res" where
  "read_to_buffer fd open_err pread buf =
     (if fd \<ge> 0
      then (case pread of
              Inl e \<Rightarrow> Inr (e, buf, None)
            | Inr d \<Rightarrow> andThen (write_at buf 0 (d @ [CHR 0x00])) (\<lambda>b.
                       Inr (open_err, b, Some (to_int32 (int (length d))))))
      else Inr (open_err, buf, None))"

text \<open>\<open>read\<close> on a regular file: some characters from the offset on, none only at the end.\<close>

definition reads_file :: "string \<Rightarrow> (nat \<Rightarrow> nat \<Rightarrow> int + string) \<Rightarrow> bool" where
  "reads_file data rd \<longleftrightarrow> (\<forall>off n. 0 < n \<longrightarrow> (\<exists>k. rd off n = Inr (take k (drop off data)) \<and> k \<le> n \<and>
     (off < length data \<longrightarrow> 0 < k)))"

lemma read_loop_prefix:
  assumes rd: "reads_file data rd"
  shows "content = take (length content) data \<Longrightarrow> length content \<le> maxSize \<Longrightarrow>
    read_loop rd maxSize content err = (take maxSize data, err)"
proof (induction "maxSize - length content" arbitrary: content rule: less_induct)
  case less
  show ?case
  proof (cases "length content < maxSize")
    case False
    then show ?thesis using less.prems by (subst read_loop.simps) simp
  next
    case True
    define n where "n = min (maxSize - length content) k_buff_size"
    have n: "0 < n" "length content + n \<le> maxSize" using True by (auto simp: n_def k_buff_size_def)
    obtain k where k: "rd (length content) n = Inr (take k (drop (length content) data))" "k \<le> n"
      "length content < length data \<longrightarrow> 0 < k"
      using rd n(1) unfolding reads_file_def by blast
    define d where "d = take k (drop (length content) data)"
    have d: "take n d = d" using k(2) by (simp add: d_def)
    have step: "read_loop rd maxSize content err =
        (if d = [] then (content, err) else read_loop rd maxSize (content @ d) err)"
      using True k(1) d by (subst read_loop.simps) (simp add: Let_def flip: n_def d_def)
    show ?thesis
    proof (cases "d = []")
      case True
      then have "length data \<le> length content" using k(3) by (auto simp: d_def)
      then show ?thesis using \<open>length content < maxSize\<close> less.prems True step by simp
    next
      case False
      have "content @ d = take (length content + k) data"
        using less.prems(1) by (metis d_def take_add)
      then have "content @ d = take (length (content @ d)) data"
        by (simp only: length_take) (simp add: min_def)
      moreover have "0 < length d" "length d \<le> n" using False d by (auto intro: ccontr)
      then have "length (content @ d) \<le> maxSize" "maxSize - length (content @ d) < maxSize - length content"
        unfolding length_append using n(2) True by linarith+
      ultimately have "read_loop rd maxSize (content @ d) err = (take maxSize data, err)"
        using less.hyps [of "content @ d"] by blast
      then show ?thesis using False step by simp
    qed
  qed
qed

text \<open>On a regular file that can be opened, whatever sizes \<open>read\<close> returns, \<open>read_to_string\<close>
  returns 0, the first \<open>maxSize\<close> characters of the file, its size if that was asked for, and the two
  times if they were asked for together with the size.\<close>

theorem read_to_string_prefix:
  assumes "0 \<le> fd" and "reads_file data rd" and "0 \<le> maxSize" and "maxSize < 2 ^ 31"
    and "st = Inr (Regular, int (length data), mtime, ctime)"
  shows "read_to_string fd 0 st rd (wantSize, wantModify, wantCreate) content maxSize =
    Inr (0, take (nat maxSize) data, if wantSize then Some (int (length data)) else None,
      if wantSize \<and> wantModify then Some mtime else None, if wantSize \<and> wantCreate then Some ctime else None)"
proof -
  have "to_int32 (min maxSize (int (length data))) = min maxSize (int (length data))"
    using assms(3,4) by (intro to_int32_id) (simp add: int32_ok_def)
  moreover have "sz_of_int maxSize = nat maxSize" using assms(3,4) by (simp add: sz_of_int_nat)
  ultimately show ?thesis
    using assms(1,3,5) read_loop_prefix [OF assms(2), of "[]" "nat maxSize" 0]
    by (simp add: read_to_string_def min_def)
qed

theorem read_to_string_prefix_witness:
  "read_to_string 3 0 (Inr (Regular, 5, 20, 30))
      (\<lambda>off n. Inr (take (min 2 n) (drop off ''hello''))) (True, False, True) ''old'' 4 =
    Inr (0, ''hell'', Some 5, None, Some 30)"
proof -
  have "reads_file ''hello'' (\<lambda>off n. Inr (take (min 2 n) (drop off ''hello'')))"
    unfolding reads_file_def by (intro allI impI exI [where x = "min 2 _"]) auto
  from read_to_string_prefix [OF _ this, of 3 4 "Inr (Regular, 5, 20, 30)" 20 30 True False True "''old''"]
  show ?thesis by simp
qed

section \<open>LogFile\<close>

record logfile =
  lf_basename :: string
  lf_rollSize :: int
  lf_flushInterval :: int
  lf_checkEveryN :: int
  lf_threadSafe :: bool
  lf_count :: int
  lf_startOfPeriod :: int
  lf_lastRoll :: int
  lf_lastFlush :: int
  lf_file :: "append_file option"
  lf_done :: "append_file list"
  lf_flushes :: nat

definition k_roll_per_seconds :: int where "k_roll_per_seconds = 60 * 60 * 24"

text \<open>The environment of the names: \<open>strftime\<close> of \<open>gmtime_r\<close> with \<open>.%Y%m%d-%H%M%S\<close>, the
  host and the process.\<close>

record log_env =
  le_time :: "int \<Rightarrow> string"
  le_host :: string
  le_pid :: int

definition get_log_filename :: "log_env \<Rightarrow> string \<Rightarrow> int \<Rightarrow> string" where
  "get_log_filename env basename now =
     basename @ take 31 (le_time env now) @ le_host env @
     take 31 (CHR ''.'' # dec_int (le_pid env)) @ ''.log''"

text \<open>\<open>roll_file\<close> with its clock reading; \<open>reset\<close> closes the old file.\<close>

definition roll_file :: "bool \<Rightarrow> log_env \<Rightarrow> int \<Rightarrow> logfile \<Rightarrow> (bool \<times> logfile) res" where
  "roll_file dbg env now S =
     (let file_name = get_log_filename env (lf_basename S) now;
          start = now sdiv k_roll_per_seconds * k_roll_per_seconds in
      if now > lf_lastRoll S
      then andThen (AppendFile_ctor dbg True file_name) (\<lambda>F.
           Inr (True, S\<lparr>lf_lastRoll := now, lf_lastFlush := now, lf_startOfPeriod := start,
                        lf_done := lf_done S @ (case lf_file S of None \<Rightarrow> [] | Some f \<Rightarrow> [f]),
                        lf_file := Some F\<rparr>))
      else Inr (False, S))"

definition LogFile_ctor ::
    "bool \<Rightarrow> log_env \<Rightarrow> int \<Rightarrow> string \<Rightarrow> int \<Rightarrow> bool \<Rightarrow> int \<Rightarrow> int \<Rightarrow> logfile res" where
  "LogFile_ctor dbg env now basename rollSize threadSafe flushInterval checkEveryN =
     cassert dbg (CHR ''/'' \<notin> set basename)
      (andThen (roll_file dbg env now
        \<lparr>lf_basename = basename, lf_rollSize = rollSize, lf_flushInterval = flushInterval,
         lf_checkEveryN = checkEveryN, lf_threadSafe = threadSafe, lf_count = 0,
         lf_startOfPeriod = 0, lf_lastRoll = 0, lf_lastFlush = 0, lf_file = None, lf_done = [],
         lf_flushes = 0\<rparr>) (\<lambda>(_, S). Inr S))"

text \<open>One record: the answers of the stream and the two clock readings, in \<open>append_unlocked\<close> and in
  \<open>roll_file\<close>.\<close>

definition append_unlocked ::
    "bool \<Rightarrow> log_env \<Rightarrow> (nat \<times> bool) list \<Rightarrow> int \<Rightarrow> int \<Rightarrow> string \<Rightarrow> logfile \<Rightarrow> logfile res" where
  "append_unlocked dbg env answers now now_roll logline S =
     (case lf_file S of
        None \<Rightarrow> Inl NullDeref
      | Some F0 \<Rightarrow>
          (case AppendFile_append answers logline F0 of
             None \<Rightarrow> Inl Diverges
           | Some F \<Rightarrow>
               let S1 = S\<lparr>lf_file := Some F\<rparr> in
               if af_written F > lf_rollSize S1
               then andThen (roll_file dbg env now_roll S1) (\<lambda>(_, S'). Inr S')
               else
                 let S2 = S1\<lparr>lf_count := lf_count S1 + 1\<rparr> in
                 if lf_count S2 \<ge> lf_checkEveryN S2
                 then let S3 = S2\<lparr>lf_count := 0\<rparr>;
                          this_period = now sdiv k_roll_per_seconds * k_roll_per_seconds in
                   if this_period \<noteq> lf_startOfPeriod S3
                   then andThen (roll_file dbg env now_roll S3) (\<lambda>(_, S'). Inr S')
                   else if now - lf_lastFlush S3 > lf_flushInterval S3
                   then Inr (S3\<lparr>lf_lastFlush := now, lf_flushes := lf_flushes S3 + 1\<rparr>)
                   else Inr S3
                 else Inr S2))"

text \<open>With the mutex or without it, one caller at a time gets the same result.\<close>

definition LogFile_append ::
    "bool \<Rightarrow> log_env \<Rightarrow> (nat \<times> bool) list \<Rightarrow> int \<Rightarrow> int \<Rightarrow> string \<Rightarrow> logfile \<Rightarrow> logfile res" where
  "LogFile_append dbg env answers now now_roll logline S =
     (if lf_threadSafe S then append_unlocked dbg env answers now now_roll logline S
      else append_unlocked dbg env answers now now_roll logline S)"

definition LogFile_flush :: "logfile \<Rightarrow> logfile res" where
  "LogFile_flush S =
     (case lf_file S of None \<Rightarrow> Inl NullDeref | Some F \<Rightarrow> Inr (S\<lparr>lf_flushes := lf_flushes S + 1\<rparr>))"

section \<open>Rolling\<close>

text \<open>Everything written so far, over all the files.\<close>

definition log_text :: "logfile \<Rightarrow> string" where
  "log_text S = concat (map af_text (lf_done S)) @ (case lf_file S of None \<Rightarrow> [] | Some F \<Rightarrow> af_text F)"

definition lf_files :: "logfile \<Rightarrow> append_file list" where
  "lf_files S = lf_done S @ (case lf_file S of None \<Rightarrow> [] | Some F \<Rightarrow> [F])"

definition lf_inv :: "logfile \<Rightarrow> bool" where
  "lf_inv S \<longleftrightarrow> lf_file S \<noteq> None \<and> 0 < lf_lastRoll S \<and>
     lf_startOfPeriod S = lf_lastRoll S div 86400 * 86400"

definition lf_record :: "bool \<Rightarrow> log_env \<Rightarrow> int \<times> int \<times> string \<Rightarrow> logfile \<Rightarrow> logfile res" where
  "lf_record dbg env e S =
     (case e of (now, now_roll, logline) \<Rightarrow>
        LogFile_append dbg env (replicate (length logline) (1, False)) now now_roll logline S)"

lemma roll_file_cases:
  assumes "lf_file S = Some F"
  shows "roll_file dbg env now S =
    (if now > lf_lastRoll S
     then Inr (True, S\<lparr>lf_lastRoll := now, lf_lastFlush := now,
            lf_startOfPeriod := now sdiv k_roll_per_seconds * k_roll_per_seconds,
            lf_done := lf_done S @ [F],
            lf_file := Some \<lparr>af_name = get_log_filename env (lf_basename S) now, af_text = [], af_written = 0\<rparr>\<rparr>)
     else Inr (False, S))"
  using assms by (simp add: roll_file_def AppendFile_ctor_def cassert_def Let_def)

lemma period_sdiv: "0 < t \<Longrightarrow> t sdiv k_roll_per_seconds * k_roll_per_seconds = t div 86400 * 86400"
  by (simp add: sdiv_nonneg k_roll_per_seconds_def)

text \<open>One record keeps the invariant, adds its characters to the log, and leaves a file above the
  limit only when the clock has not moved since the last roll.\<close>

lemma lf_record_step:
  assumes inv: "lf_inv S" and e: "e = (now, now_roll, logline)"
  shows "\<exists>S'. lf_record dbg env e S = Inr S' \<and> lf_inv S' \<and> log_text S' = log_text S @ logline \<and>
    lf_rollSize S' = lf_rollSize S \<and> lf_lastRoll S \<le> lf_lastRoll S' \<and>
    (\<forall>F. lf_file S' = Some F \<longrightarrow> af_written F \<le> max 0 (lf_rollSize S) \<or> now_roll \<le> lf_lastRoll S)"
proof -
  obtain F where F: "lf_file S = Some F" using inv by (auto simp: lf_inv_def)
  have ap: "AppendFile_append (replicate (length logline) (1, False)) logline F =
      Some (F\<lparr>af_text := af_text F @ logline, af_written := af_written F + int (length logline)\<rparr>)"
    using append_loop_all [of "replicate (length logline) (1, False)" logline 0 "af_text F"]
    by (simp add: AppendFile_append_def progress_def list_all_iff)
  show ?thesis
    using inv period_sdiv [of now_roll]
    by (auto simp: e lf_record_def LogFile_append_def append_unlocked_def F ap [unfolded One_nat_def] roll_file_cases Let_def
      lf_inv_def log_text_def)
qed

text \<open>So a log refines the text that grows by one record at a time, whatever the clock reads.\<close>

interpretation logf: refinement "lf_record dbg env" lf_inv log_text "\<lambda>_. True"
    "\<lambda>e tx. tx @ snd (snd e)" for dbg env
proof (unfold_locales, goal_cases)
  case (1 s op)
  obtain now now_roll logline where "op = (now, now_roll, logline)" by (cases op)
  then show ?case using lf_record_step [OF 1(1)] by fastforce
qed

lemma fold_records: "fold (\<lambda>e tx. tx @ snd (snd e)) es tx = tx @ concat (map (snd \<circ> snd) es)"
  by (induction es arbitrary: tx) simp_all

text \<open>The files carry the names of strictly increasing times out of \<open>T\<close>, the last not after the last roll.\<close>

definition lf_named :: "log_env \<Rightarrow> int set \<Rightarrow> logfile \<Rightarrow> bool" where
  "lf_named env T S \<longleftrightarrow> (\<exists>ts. sorted_wrt (<) ts \<and> set ts \<subseteq> T \<and> (\<forall>t \<in> set ts. t \<le> lf_lastRoll S) \<and>
     map af_name (lf_files S) = map (get_log_filename env (lf_basename S)) ts)"

lemma append_keeps_name: "AppendFile_append answers logline F = Some F' \<Longrightarrow> af_name F' = af_name F"
  by (auto simp: AppendFile_append_def split: option.splits)

lemma lf_named_file:
  "lf_named env T S \<Longrightarrow> lf_file S = Some F \<Longrightarrow> af_name F' = af_name F \<Longrightarrow>
    lf_named env T (S\<lparr>lf_file := Some F'\<rparr>)"
  by (simp add: lf_named_def lf_files_def)

lemma lf_named_roll:
  assumes "lf_named env T S" "lf_file S = Some F" "roll_file dbg env now S = Inr (b, S')" "now \<in> T"
  shows "lf_named env T S'"
proof (cases "now > lf_lastRoll S")
  case True
  obtain ts where ts: "sorted_wrt (<) ts" "\<forall>t \<in> set ts. t \<le> lf_lastRoll S" "set ts \<subseteq> T"
    "map af_name (lf_done S) @ [af_name F] = map (get_log_filename env (lf_basename S)) ts"
    using assms(1,2) by (auto simp: lf_named_def lf_files_def)
  have "sorted_wrt (<) (ts @ [now])" "\<forall>t \<in> set (ts @ [now]). t \<le> now"
    using ts(1,2) True by (auto simp: sorted_wrt_append)
  then show ?thesis
    using assms(2-4) True ts(3,4) unfolding lf_named_def
    by (intro exI [where x = "ts @ [now]"]) (auto simp: roll_file_cases lf_files_def)
next
  case False
  then show ?thesis using assms by (simp add: roll_file_cases)
qed

lemma lf_named_frame [simp]:
  "lf_named env T (S\<lparr>lf_count := c\<rparr>) = lf_named env T S" "lf_named env T (S\<lparr>lf_lastFlush := t\<rparr>) = lf_named env T S"
  "lf_named env T (S\<lparr>lf_flushes := n\<rparr>) = lf_named env T S"
  by (simp_all add: lf_named_def lf_files_def)

lemma lf_record_named:
  assumes "lf_named env T S" "lf_record dbg env e S = Inr S'" "fst (snd e) \<in> T"
  shows "lf_named env T S' \<and> lf_basename S' = lf_basename S"
proof -
  obtain now now_roll logline where e: "e = (now, now_roll, logline)" by (cases e)
  obtain F0 F where F0: "lf_file S = Some F0"
    and F: "AppendFile_append (replicate (length logline) (1, False)) logline F0 = Some F"
    using assms(2) by (auto simp: e lf_record_def LogFile_append_def append_unlocked_def split: option.splits)
  have n: "lf_named env T (S\<lparr>lf_file := Some F\<rparr>)"
    by (rule lf_named_file [OF assms(1) F0 append_keeps_name [OF F]])
  have r: "lf_named env T U' \<and> lf_basename U' = lf_basename U"
    if "roll_file dbg env now_roll U = Inr (b, U')" "lf_named env T U" "lf_file U = Some F" for b U U'
    using lf_named_roll [OF that(2,3,1)] assms(3) that(1,3) e by (auto simp: roll_file_cases split: if_splits)
  show ?thesis
    using assms(2) n r
    by (auto simp: e lf_record_def LogFile_append_def append_unlocked_def F0 F [unfolded One_nat_def] Let_def
      res_simps split: if_splits)
qed


text \<open>The size limit: when the clock has moved on since the last roll, the file a record leaves
  behind is not above the limit, because a file that passes it is replaced by an empty one.\<close>

theorem roll_limits_size:
  assumes "lf_inv S" and "lf_lastRoll S < now_roll" and "0 \<le> lf_rollSize S"
  shows "\<exists>S' F. lf_record dbg env (now, now_roll, logline) S = Inr S' \<and> lf_file S' = Some F \<and>
    af_written F \<le> lf_rollSize S \<and> lf_startOfPeriod S' = lf_lastRoll S' div 86400 * 86400"
proof -
  obtain S' where S': "lf_record dbg env (now, now_roll, logline) S = Inr S'" "lf_inv S'"
    "\<forall>F. lf_file S' = Some F \<longrightarrow> af_written F \<le> max 0 (lf_rollSize S) \<or> now_roll \<le> lf_lastRoll S"
    using lf_record_step [OF assms(1) refl] by blast
  then obtain F where "lf_file S' = Some F" by (auto simp: lf_inv_def)
  then show ?thesis using S' assms(2,3) by (auto simp: lf_inv_def max_def)
qed

section \<open>Witnesses\<close>

definition demo_env :: log_env where
  "demo_env = \<lparr>le_time = (\<lambda>t. if t = 10 then ''.a'' else if t = 20 then ''.b'' else ''.c''),
     le_host = ''h'', le_pid = 0\<rparr>"

lemma demo_ctor: "\<exists>S0. LogFile_ctor True demo_env 10 ''log'' 4 True 3 1024 = Inr S0 \<and> lf_inv S0 \<and>
    lf_lastRoll S0 = 10 \<and> lf_rollSize S0 = 4"
  by (simp add: LogFile_ctor_def roll_file_def AppendFile_ctor_def Let_def lf_inv_def
    k_roll_per_seconds_def sdiv_nonneg)


theorem roll_limits_size_witness:
  "\<exists>S S' F. lf_inv S \<and> lf_record True demo_env (11, 20, ''hello'') S = Inr S' \<and> lf_file S' = Some F \<and>
    af_written F \<le> 4"
proof -
  obtain S where S: "lf_inv S" "lf_lastRoll S = 10" "lf_rollSize S = 4" using demo_ctor by blast
  from roll_limits_size [OF S(1), of 20 True demo_env 11 "''hello''"] show ?thesis using S by auto
qed

end
