(* ===== verification/Base_Thread.thy ===== *)
theory Base_Thread
  imports Cpp_Format
begin

text \<open>
  Threads and their synchronisation: \<open>base/atomic.h\<close>, \<open>base/count_down_latch.h\<close> and
  \<open>.cpp\<close>, \<open>base/locker.h\<close>, \<open>base/current_thread.h\<close> and \<open>.cpp\<close>,
  \<open>base/m_thread.h\<close> and \<open>.cpp\<close>, \<open>net/eventloop_thread.h\<close> and \<open>.cpp\<close>.

  A region under a mutex is one step. A thread that waits on a condition is \<open>Asleep\<close> until it is
  notified or wakes spuriously; then it is \<open>Woken\<close> and tests its condition again. The protocols
  are inductive step relations over all interleavings; their properties are invariants of the
  reachable states. The results of \<open>gettid\<close> and \<open>pthread_create\<close> are arguments.
\<close>

section \<open>Atomic integers\<close>

definition atomic_get :: "'a::len word \<Rightarrow> 'a word \<times> 'a word" where
  "atomic_get v = (v, if v = 0 then 0 else v)"

definition get_and_add :: "'a::len word \<Rightarrow> 'a word \<Rightarrow> 'a word \<times> 'a word" where
  "get_and_add x v = (v, v + x)"

definition add_and_get :: "'a::len word \<Rightarrow> 'a word \<Rightarrow> 'a word \<times> 'a word" where
  "add_and_get x v = (let (old, v') = get_and_add x v in (old + x, v'))"

definition increment_and_get :: "'a::len word \<Rightarrow> 'a word \<times> 'a word" where
  "increment_and_get v = add_and_get 1 v"

definition decrement_and_get :: "'a::len word \<Rightarrow> 'a word \<times> 'a word" where
  "decrement_and_get v = add_and_get (- 1) v"

definition get_and_set :: "'a::len word \<Rightarrow> 'a word \<Rightarrow> 'a word \<times> 'a word" where
  "get_and_set new_value v = (v, new_value)"

text \<open>What an operation returns is the value it leaves; the counter wraps.\<close>

lemma add_and_get_result: "fst (add_and_get x v) = snd (add_and_get x v)"
  by (simp add: add_and_get_def get_and_add_def)

lemma increment_wraps: "increment_and_get (- 1 :: 32 word) = (0, 0)"
  by (simp add: increment_and_get_def add_and_get_def get_and_add_def)

section \<open>CountDownLatch\<close>

datatype wait_pc = Ready | Asleep | Woken | Returned

record latch =
  la_count :: int
  la_pc :: "nat \<Rightarrow> wait_pc"

definition CountDownLatch :: "int \<Rightarrow> latch" where
  "CountDownLatch count = \<lparr>la_count = count, la_pc = (\<lambda>_. Ready)\<rparr>"

text \<open>The test of the loop in \<open>wait\<close>, made by thread \<open>t\<close> with the mutex held.\<close>

definition latch_test :: "nat \<Rightarrow> latch \<Rightarrow> latch" where
  "latch_test t L = L\<lparr>la_pc := (la_pc L)(t := if la_count L > 0 then Asleep else Returned)\<rparr>"

definition notify_all :: "latch \<Rightarrow> latch" where
  "notify_all L = L\<lparr>la_pc := (\<lambda>t. if la_pc L t = Asleep then Woken else la_pc L t)\<rparr>"

definition count_down :: "latch \<Rightarrow> latch" where
  "count_down L =
     (let L1 = L\<lparr>la_count := la_count L - 1\<rparr> in if la_count L1 = 0 then notify_all L1 else L1)"

definition get_count :: "latch \<Rightarrow> int" where
  "get_count L = la_count L"

inductive latch_step :: "latch \<Rightarrow> latch \<Rightarrow> bool" where
  enter: "la_pc L t = Ready \<Longrightarrow> latch_step L (latch_test t L)"
| again: "la_pc L t = Woken \<Longrightarrow> latch_step L (latch_test t L)"
| spurious: "la_pc L t = Asleep \<Longrightarrow> latch_step L (L\<lparr>la_pc := (la_pc L)(t := Woken)\<rparr>)"
| down: "latch_step L (count_down L)"

inductive latch_reach :: "int \<Rightarrow> latch \<Rightarrow> bool" where
  init: "latch_reach n (CountDownLatch n)"
| step: "latch_reach n L \<Longrightarrow> latch_step L L' \<Longrightarrow> latch_reach n L'"

inductive_cases latch_stepE: "latch_step L L'"

definition latch_inv :: "latch \<Rightarrow> bool" where
  "latch_inv L \<longleftrightarrow> (\<forall>t. la_pc L t = Returned \<longrightarrow> la_count L \<le> 0) \<and>
     (\<forall>t. la_pc L t = Asleep \<longrightarrow> 0 < la_count L)"

lemma latch_inv_step: "latch_inv L \<Longrightarrow> latch_step L L' \<Longrightarrow> latch_inv L'"
  by (erule latch_stepE)
    (auto simp: latch_inv_def latch_test_def count_down_def notify_all_def Let_def split: if_splits)

lemma latch_reach_inv: "latch_reach n L \<Longrightarrow> latch_inv L"
proof (induction rule: latch_reach.induct)
  case (init n)
  then show ?case by (simp add: latch_inv_def CountDownLatch_def)
next
  case (step n L L')
  then show ?case by (blast intro: latch_inv_step)
qed

text \<open>C21: The latch, over every interleaving of any number of waiting and counting threads and with
  spurious wake-ups: no thread returns from \<open>wait\<close> before the count is zero or less, and from then
  on none is asleep, each of them returning at its next step.\<close>

theorem latch_releases_exactly_at_zero:
  assumes "latch_reach n L"
  shows "(\<forall>t. la_pc L t = Returned \<longrightarrow> la_count L \<le> 0) \<and>
    (la_count L \<le> 0 \<longrightarrow> (\<forall>t. la_pc L t \<noteq> Asleep \<and>
       (la_pc L t \<noteq> Returned \<longrightarrow> latch_step L (latch_test t L) \<and> la_pc (latch_test t L) t = Returned)))"
proof -
  have inv: "latch_inv L" by (rule latch_reach_inv [OF assms])
  have "latch_step L (latch_test t L)" if "la_pc L t \<noteq> Asleep" "la_pc L t \<noteq> Returned" for t
    using that by (cases "la_pc L t") (auto intro: latch_step.intros)
  then show ?thesis using inv by (auto simp: latch_inv_def latch_test_def)
qed

theorem latch_releases_exactly_at_zero_witness:
  "la_pc (count_down (latch_test 0 (CountDownLatch 1))) 0 \<noteq> Asleep"
proof -
  have "latch_reach 1 (latch_test 0 (CountDownLatch 1))"
    by (rule latch_reach.step [OF latch_reach.init], rule latch_step.enter) (simp add: CountDownLatch_def)
  then have r: "latch_reach 1 (count_down (latch_test 0 (CountDownLatch 1)))"
    by (rule latch_reach.step [OF _ latch_step.down])
  have "la_count (count_down (latch_test 0 (CountDownLatch 1))) \<le> 0"
    by (simp add: count_down_def latch_test_def CountDownLatch_def notify_all_def Let_def)
  then show ?thesis using latch_releases_exactly_at_zero [OF r] by blast
qed

section \<open>Cond\<close>

text \<open>
  The deadline \<open>wait_for_seconds\<close> computes, seconds and nanoseconds, from the clock reading; the
  cast binds before the division. It reads \<open>CLOCK_MONOTONIC\<close>, while \<open>pthread_cond_timedwait\<close>
  compares with \<open>CLOCK_REALTIME\<close> (the condition has default attributes).
\<close>

definition wait_deadline :: "int \<times> int \<Rightarrow> int \<Rightarrow> int \<times> int" where
  "wait_deadline now nano_second =
     (fst now + (snd now + nano_second) sdiv 1000000000, (snd now + nano_second) smod 1000000000)"

definition timed_out :: "int \<times> int \<Rightarrow> int \<times> int \<Rightarrow> bool" where
  "timed_out realtime deadline \<longleftrightarrow>
     fst deadline < fst realtime \<or> fst deadline = fst realtime \<and> snd deadline \<le> snd realtime"

lemma wait_deadline_adds:
  assumes "0 \<le> snd now" "0 \<le> nano_second"
  shows "fst (wait_deadline now nano_second) * 1000000000 + snd (wait_deadline now nano_second) =
      fst now * 1000000000 + snd now + nano_second"
    and "0 \<le> snd (wait_deadline now nano_second)" "snd (wait_deadline now nano_second) < 1000000000"
  using assms by (simp_all add: wait_deadline_def sdiv_nonneg smod_nonneg algebra_simps)

text \<open>With the machine up for less time than has passed since the epoch, the deadline lies in the
  past: the wait does not wait.\<close>

lemma wait_for_seconds_returns_at_once:
  assumes "0 \<le> snd uptime" "0 \<le> nano_second"
    and "fst uptime * 1000000000 + snd uptime + nano_second < fst realtime * 1000000000"
    and "0 \<le> snd realtime"
  shows "timed_out realtime (wait_deadline uptime nano_second)"
proof -
  have "fst (wait_deadline uptime nano_second) * 1000000000 < fst realtime * 1000000000"
    using wait_deadline_adds [OF assms(1,2)] assms(3) by linarith
  then show ?thesis by (simp add: timed_out_def)
qed

section \<open>CurrentThread\<close>

text \<open>The thread-local data; \<open>gettid\<close> is an argument.\<close>

record thread_data =
  t_cached_tid :: int
  t_tid_string :: string
  t_tid_length :: int
  t_thread_name :: string

definition fresh_thread :: thread_data where
  "fresh_thread = \<lparr>t_cached_tid = 0, t_tid_string = [], t_tid_length = 6, t_thread_name = ''unkonwn''\<rparr>"

definition cache_tid :: "int \<Rightarrow> thread_data \<Rightarrow> thread_data" where
  "cache_tid gettid T =
     (if t_cached_tid T = 0
      then T\<lparr>t_cached_tid := gettid, t_tid_string := take 31 (blank_pad 5 gettid @ '' ''),
             t_tid_length := int (length (blank_pad 5 gettid @ '' ''))\<rparr>
      else T)"

definition tid :: "int \<Rightarrow> thread_data \<Rightarrow> int \<times> thread_data" where
  "tid gettid T = (let T' = (if t_cached_tid T = 0 then cache_tid gettid T else T) in (t_cached_tid T', T'))"

definition is_main_thread :: "int \<Rightarrow> int \<Rightarrow> thread_data \<Rightarrow> bool \<times> thread_data" where
  "is_main_thread gettid getpid T = (let (i, T') = tid gettid T in (i = getpid, T'))"

definition after_fork :: "int \<Rightarrow> thread_data \<Rightarrow> thread_data" where
  "after_fork gettid T = snd (tid gettid (T\<lparr>t_cached_tid := 0, t_thread_name := ''main''\<rparr>))"

definition ThreadNameInit :: "int \<Rightarrow> thread_data \<Rightarrow> thread_data" where
  "ThreadNameInit gettid T = snd (tid gettid (T\<lparr>t_thread_name := ''main''\<rparr>))"

definition sleep_usec :: "int \<Rightarrow> int \<times> int" where
  "sleep_usec usec = (usec sdiv 1000000, usec smod 1000000 * 1000)"

lemma sleep_usec_exact:
  "0 \<le> usec \<Longrightarrow> fst (sleep_usec usec) * 1000000000 + snd (sleep_usec usec) = usec * 1000 \<and>
    0 \<le> snd (sleep_usec usec) \<and> snd (sleep_usec usec) < 1000000000"
proof -
  assume "0 \<le> usec"
  then have "sleep_usec usec = (usec div 1000000, usec mod 1000000 * 1000)"
    by (simp add: sleep_usec_def sdiv_nonneg smod_nonneg)
  moreover have "q * 1000000000 + r * 1000 = usec * 1000" if "q * 1000000 + r = usec" for q r :: int
    using that by linarith
  from this [OF div_mult_mod_eq]
  have "usec div 1000000 * 1000000000 + usec mod 1000000 * 1000 = usec * 1000" .
  moreover have "0 \<le> usec mod 1000000" "usec mod 1000000 < 1000000" by simp_all
  ultimately show ?thesis by simp
qed

text \<open>The child of a fork has the number and the name of its own main thread.\<close>

lemma after_fork_main:
  "gettid \<noteq> 0 \<Longrightarrow> t_cached_tid (after_fork gettid T) = gettid \<and> t_thread_name (after_fork gettid T) = ''main''"
  by (simp add: after_fork_def tid_def cache_tid_def Let_def)

text \<open>
  One line of \<open>back_trace\<close>: the last \<open>(\<close> and the last \<open>+\<close> enclose the mangled name, which
  \<open>dem\<close> (\<open>__cxa_demangle\<close>) replaces when it can. The first frame is left out.
\<close>

fun last_pos :: "char \<Rightarrow> string \<Rightarrow> nat \<Rightarrow> nat option \<Rightarrow> nat option" where
  "last_pos c [] i r = r"
| "last_pos c (x # s) i r = last_pos c s (Suc i) (if x = c then Some i else r)"

text \<open>The scan is one loop with an else: a \<open>(\<close> is never a \<open>+\<close>, so the two positions are independent.\<close>

definition trace_line :: "bool \<Rightarrow> (string \<Rightarrow> string option) \<Rightarrow> string \<Rightarrow> string" where
  "trace_line demangle dem s =
     (case (if demangle then (last_pos (CHR ''('') s 0 None, last_pos (CHR ''+'') s 0 None) else (None, None)) of
        (Some l, Some p) \<Rightarrow>
          (case dem (drop (Suc l) (take p s)) of
             Some name \<Rightarrow> take (Suc l) s @ name @ drop p s @ [CHR 0x0A]
           | None \<Rightarrow> s @ [CHR 0x0A])
      | _ \<Rightarrow> s @ [CHR 0x0A])"

definition back_trace :: "bool \<Rightarrow> (string \<Rightarrow> string option) \<Rightarrow> string list option \<Rightarrow> string" where
  "back_trace demangle dem strings =
     (case strings of None \<Rightarrow> [] | Some ls \<Rightarrow> concat (map (trace_line demangle dem) (drop 1 ls)))"

section \<open>MThread\<close>

record mthread =
  mt_started :: bool
  mt_joined :: bool
  mt_tid :: int
  mt_name :: string
  mt_latch :: latch

definition set_default_name :: "32 word \<Rightarrow> mthread \<Rightarrow> mthread \<times> 32 word" where
  "set_default_name num_created M =
     (let (num, num') = add_and_get 1 num_created in
      (if mt_name M = [] then M\<lparr>mt_name := take 31 (''Thread '' @ dec_int (sint num))\<rparr> else M, num'))"

definition MThread_ctor :: "32 word \<Rightarrow> string \<Rightarrow> mthread \<times> 32 word" where
  "MThread_ctor num_created name =
     set_default_name num_created
      \<lparr>mt_started = False, mt_joined = False, mt_tid = 0, mt_name = name, mt_latch = CountDownLatch 1\<rparr>"

text \<open>The destructor detaches a thread that was started and not joined.\<close>

definition MThread_dtor :: "mthread \<Rightarrow> bool" where
  "MThread_dtor M \<longleftrightarrow> mt_started M \<and> \<not> mt_joined M"

definition jion :: "bool \<Rightarrow> mthread \<Rightarrow> mthread res" where
  "jion dbg M = cassert dbg (mt_started M) (cassert dbg (\<not> mt_joined M) (Inr (M\<lparr>mt_joined := True\<rparr>)))"

text \<open>
  \<open>start\<close> up to \<open>pthread_create\<close>, then the two threads. The caller is thread 0 of the latch:
  it waits there until it is \<open>Returned\<close>. The new thread runs \<open>run_in_thread\<close>: it sets its name,
  calls the function, and sets its name again, or aborts when the function throws.
\<close>

datatype thread_pc = NotCreated | Begun | Running | Finished | Crashed

record start_state =
  ss_thread :: mthread
  ss_pc :: thread_pc
  ss_local :: thread_data

definition MThread_start :: "bool \<Rightarrow> bool \<Rightarrow> mthread \<Rightarrow> start_state res" where
  "MThread_start dbg create_fails M =
     cassert dbg (\<not> mt_started M)
      (Inr (if create_fails
            then \<lparr>ss_thread = M\<lparr>mt_started := False\<rparr>, ss_pc = NotCreated, ss_local = fresh_thread\<rparr>
            else \<lparr>ss_thread = M\<lparr>mt_started := True\<rparr>, ss_pc = Begun, ss_local = fresh_thread\<rparr>))"

definition run_in_thread_begin :: "start_state \<Rightarrow> start_state" where
  "run_in_thread_begin S = S\<lparr>ss_pc := Running, ss_local := (ss_local S)
     \<lparr>t_thread_name := (if mt_name (ss_thread S) = [] then ''unkonwn'' else mt_name (ss_thread S))\<rparr>\<rparr>"

definition run_in_thread_end :: "bool \<Rightarrow> start_state \<Rightarrow> start_state" where
  "run_in_thread_end throws S =
     (if throws then S\<lparr>ss_pc := Crashed, ss_local := (ss_local S)\<lparr>t_thread_name := ''crashed''\<rparr>\<rparr>
      else S\<lparr>ss_pc := Finished, ss_local := (ss_local S)\<lparr>t_thread_name := ''finished''\<rparr>\<rparr>)"

definition with_latch :: "(latch \<Rightarrow> latch) \<Rightarrow> start_state \<Rightarrow> start_state" where
  "with_latch f S = S\<lparr>ss_thread := (ss_thread S)\<lparr>mt_latch := f (mt_latch (ss_thread S))\<rparr>\<rparr>"

definition starter :: "start_state \<Rightarrow> wait_pc" where
  "starter S = la_pc (mt_latch (ss_thread S)) 0"

inductive start_step :: "start_state \<Rightarrow> start_state \<Rightarrow> bool" where
  test: "ss_pc S \<noteq> NotCreated \<Longrightarrow> starter S = Ready \<or> starter S = Woken \<Longrightarrow>
    start_step S (with_latch (latch_test 0) S)"
| spurious: "starter S = Asleep \<Longrightarrow>
    start_step S (with_latch (\<lambda>L. L\<lparr>la_pc := (la_pc L)(0 := Woken)\<rparr>) S)"
| run: "ss_pc S = Begun \<Longrightarrow> start_step S (run_in_thread_begin S)"
| finish: "ss_pc S = Running \<Longrightarrow> start_step S (run_in_thread_end throws S)"

inductive_cases start_stepE: "start_step S S'"

definition stuck :: "start_state \<Rightarrow> bool" where
  "stuck S \<longleftrightarrow> la_count (mt_latch (ss_thread S)) = 1 \<and> starter S \<noteq> Returned \<and> ss_pc S \<noteq> NotCreated \<and>
     mt_tid (ss_thread S) = 0"

lemma stuck_step: "stuck S \<Longrightarrow> start_step S S' \<Longrightarrow> stuck S'"
  by (erule start_stepE)
    (auto simp: stuck_def starter_def with_latch_def latch_test_def run_in_thread_begin_def
      run_in_thread_end_def)

text \<open>\<open>MThread::start\<close> never returns once the thread exists. The new thread never counts the
  latch down (nor stores its number): in no interleaving of the two threads, however long, does the
  caller leave the wait, even after the new thread has finished.\<close>

theorem thread_start_never_returns:
  assumes "MThread_start dbg False (fst (MThread_ctor n name)) = Inr S" and "start_step\<^sup>*\<^sup>* S S'"
  shows "starter S' \<noteq> Returned \<and> la_count (mt_latch (ss_thread S')) = 1 \<and> mt_tid (ss_thread S') = 0"
proof -
  have "stuck S" using assms(1)
    by (auto simp: MThread_start_def MThread_ctor_def set_default_name_def CountDownLatch_def stuck_def
      starter_def cassert_def Let_def split: prod.splits if_splits)
  have "stuck S'" using assms(2) \<open>stuck S\<close> by (induction rule: rtranclp_induct) (auto intro: stuck_step)
  then show ?thesis by (simp add: stuck_def)
qed

theorem thread_start_never_returns_witness:
  "\<exists>S S'. MThread_start True False (fst (MThread_ctor 0 ''io'')) = Inr S \<and> start_step\<^sup>*\<^sup>* S S' \<and>
    ss_pc S' = Finished \<and> starter S' \<noteq> Returned"
proof -
  obtain S where S: "MThread_start True False (fst (MThread_ctor 0 ''io'')) = Inr S" "ss_pc S = Begun"
    by (simp add: MThread_start_def MThread_ctor_def set_default_name_def Let_def split: prod.splits)
  define S' where "S' = run_in_thread_end False (run_in_thread_begin S)"
  have "start_step S (run_in_thread_begin S)" by (rule start_step.run [OF S(2)])
  moreover have "start_step (run_in_thread_begin S) S'"
    unfolding S'_def by (rule start_step.finish) (simp add: run_in_thread_begin_def)
  ultimately have steps: "start_step\<^sup>*\<^sup>* S S'" by auto
  then have "starter S' \<noteq> Returned" using thread_start_never_returns [OF S(1) steps] by blast
  moreover have "ss_pc S' = Finished" by (simp add: S'_def run_in_thread_end_def)
  ultimately show ?thesis using S(1) steps by blast
qed

section \<open>EventLoopThread\<close>

text \<open>
  \<open>startLoop\<close> starts the thread, then waits on its own condition until \<open>threadFunc\<close> has
  stored the address of its loop there. \<open>InStart\<close> is inside \<open>MThread::start\<close>,
  \<open>InWait\<close> in the second wait. Without a thread nothing stores a loop.
\<close>

datatype 'l start_loop_pc = InStart | InWait wait_pc | GotLoop 'l

record 'l loop_thread =
  lt_start :: start_state
  lt_pc :: "'l start_loop_pc"
  lt_loop :: "'l option"
  lt_exiting :: bool

definition startLoop_begin :: "bool \<Rightarrow> bool \<Rightarrow> mthread \<Rightarrow> 'l loop_thread res" where
  "startLoop_begin dbg create_fails M =
     cassert dbg (\<not> mt_started M)
      (andThen (MThread_start dbg create_fails M) (\<lambda>S.
       Inr \<lparr>lt_start = S, lt_pc = (if create_fails then InWait Ready else InStart), lt_loop = None,
            lt_exiting = False\<rparr>))"

definition startLoop_test :: "'l loop_thread \<Rightarrow> 'l loop_thread" where
  "startLoop_test S = S\<lparr>lt_pc := (case lt_loop S of None \<Rightarrow> InWait Asleep | Some l \<Rightarrow> GotLoop l)\<rparr>"

text \<open>The region of \<open>threadFunc\<close> that stores the loop and wakes the caller, and its last one.\<close>

definition threadFunc_publish :: "'l \<Rightarrow> 'l loop_thread \<Rightarrow> 'l loop_thread" where
  "threadFunc_publish l S =
     S\<lparr>lt_loop := Some l, lt_pc := (if lt_pc S = InWait Asleep then InWait Woken else lt_pc S)\<rparr>"

definition threadFunc_end :: "'l loop_thread \<Rightarrow> 'l loop_thread" where
  "threadFunc_end S = S\<lparr>lt_loop := None\<rparr>"

text \<open>The destructor makes a loop that is still known quit, then joins the thread; the result tells
  whether \<open>quit\<close> is called.\<close>

definition EventLoopThread_dtor :: "bool \<Rightarrow> 'l loop_thread \<Rightarrow> (bool \<times> mthread) res" where
  "EventLoopThread_dtor dbg S =
     (let M = ss_thread (lt_start (S\<lparr>lt_exiting := True\<rparr>)) in
      if lt_loop S \<noteq> None then andThen (jion dbg M) (\<lambda>M'. Inr (True, M')) else Inr (False, M))"

inductive startLoop_step :: "'l loop_thread \<Rightarrow> 'l loop_thread \<Rightarrow> bool" where
  inner: "start_step (lt_start S) T \<Longrightarrow> startLoop_step S (S\<lparr>lt_start := T\<rparr>)"
| started: "lt_pc S = InStart \<Longrightarrow> starter (lt_start S) = Returned \<Longrightarrow>
    startLoop_step S (S\<lparr>lt_pc := InWait Ready\<rparr>)"
| test_loop: "lt_pc S = InWait Ready \<or> lt_pc S = InWait Woken \<Longrightarrow> startLoop_step S (startLoop_test S)"
| spurious_loop: "lt_pc S = InWait Asleep \<Longrightarrow> startLoop_step S (S\<lparr>lt_pc := InWait Woken\<rparr>)"
| publish: "ss_pc (lt_start S) = Running \<Longrightarrow> startLoop_step S (threadFunc_publish l S)"
| unpublish: "ss_pc (lt_start S) = Running \<Longrightarrow> startLoop_step S (threadFunc_end S)"

inductive_cases startLoop_stepE: "startLoop_step S S'"

definition never_looping :: "'l loop_thread \<Rightarrow> bool" where
  "never_looping S \<longleftrightarrow>
     (stuck (lt_start S) \<and> lt_pc S = InStart) \<or>
     (ss_pc (lt_start S) = NotCreated \<and> starter (lt_start S) = Ready \<and> lt_loop S = None \<and>
      (\<exists>w. lt_pc S = InWait w))"

lemma never_looping_step: "never_looping S \<Longrightarrow> startLoop_step S S' \<Longrightarrow> never_looping S'"
  by (erule startLoop_stepE)
    (auto simp: never_looping_def threadFunc_publish_def threadFunc_end_def startLoop_test_def
      dest: stuck_step elim: start_stepE, auto simp: stuck_def)

text \<open>\<open>EventLoopThread::startLoop\<close> never returns a loop, whether the thread can be created or
  not: with a thread the caller stays in \<open>MThread::start\<close>, without one it waits for a loop nobody
  stores. So no pool with a loop thread ever starts.\<close>

theorem start_loop_never_returns:
  assumes "startLoop_begin dbg create_fails (fst (MThread_ctor n name)) = Inr S"
    and "startLoop_step\<^sup>*\<^sup>* S S'"
  shows "lt_pc S' \<noteq> GotLoop l"
proof -
  have "never_looping S" using assms(1)
    by (auto simp: startLoop_begin_def MThread_start_def MThread_ctor_def set_default_name_def
      CountDownLatch_def never_looping_def stuck_def starter_def cassert_def res_simps Let_def
      split: prod.splits if_splits)
  have "never_looping S'" using assms(2) \<open>never_looping S\<close>
    by (induction rule: rtranclp_induct) (auto intro: never_looping_step)
  then show ?thesis by (auto simp: never_looping_def)
qed

theorem start_loop_never_returns_witness:
  "\<exists>S. startLoop_begin True True (fst (MThread_ctor 0 ''io'')) = Inr S \<and>
    startLoop_step S (startLoop_test S) \<and> lt_pc (startLoop_test S) \<noteq> GotLoop (7 :: nat)"
proof -
  obtain S :: "nat loop_thread" where S: "startLoop_begin True True (fst (MThread_ctor 0 ''io'')) = Inr S"
    "lt_pc S = InWait Ready"
    by (simp add: startLoop_begin_def MThread_start_def MThread_ctor_def set_default_name_def Let_def
      split: prod.splits)
  have s: "startLoop_step S (startLoop_test S)" by (rule startLoop_step.test_loop) (simp add: S(2))
  have "startLoop_step\<^sup>*\<^sup>* S (startLoop_test S)" using s by (rule r_into_rtranclp)
  then show ?thesis using start_loop_never_returns [OF S(1)] S(1) s by blast
qed

end
