(* ===== verification/Base_AsyncLog.thy ===== *)
theory Base_AsyncLog
  imports Base_LogStream Base_LogFile Base_Thread
begin

text \<open>
  The asynchronous log (\<open>base/asynclog.h\<close>, \<open>base/asynclog.cpp\<close>): any thread appends
  records to a current buffer under a mutex; full buffers queue up for the logging thread, which is
  to write them to the log file.

  The shared members are an \<open>async_log\<close>, the local variables of \<open>thread_func\<close> and the place it
  has reached a \<open>writer\<close>. A region under the mutex is one step; the wait of \<open>thread_func\<close>, which
  releases the mutex, lies between two. A \<open>unique_ptr\<close> is an option. The clock, the answers of
  the file and the text of the time stamp come with each step.
\<close>

section \<open>State\<close>

record async_log =
  al_flush_interval :: int
  al_running :: bool
  al_basename :: string
  al_roll_size :: int
  al_thread :: mthread
  al_latch :: latch
  al_current :: "fixbuf option"
  al_next :: "fixbuf option"
  al_buffers :: "fixbuf option list"

datatype writer_pc = NotBegun | AtEntry | AtTop | InTimedWait | AtWrite | AtEnd

record writer =
  wr_pc :: writer_pc
  wr_out :: "logfile option"
  wr_new1 :: "fixbuf option"
  wr_new2 :: "fixbuf option"
  wr_writes :: "fixbuf option list"

text \<open>\<open>new Buffer\<close> with \<open>bzero\<close>, which overwrites whatever the new array held.\<close>

definition zeroed_buffer :: fixbuf where
  "zeroed_buffer = FixBuffer_bzero (FixBuffer (replicate k_large_buffer (CHR 0x00)))"

definition AsyncLogging_ctor :: "32 word \<Rightarrow> string \<Rightarrow> int \<Rightarrow> int \<Rightarrow> async_log" where
  "AsyncLogging_ctor num_created basename roll_size flush_interval =
     \<lparr>al_flush_interval = flush_interval, al_running = False, al_basename = basename,
      al_roll_size = roll_size, al_thread = fst (MThread_ctor num_created ''Logging''),
      al_latch = CountDownLatch 1, al_current = Some zeroed_buffer, al_next = Some zeroed_buffer,
      al_buffers = []\<rparr>"

section \<open>The callers\<close>

text \<open>\<open>append\<close>; \<open>junk\<close> is the array of a new buffer, the flag tells whether the condition is
  posted.\<close>

definition AsyncLogging_append ::
    "string \<Rightarrow> cptr \<Rightarrow> int \<Rightarrow> async_log \<Rightarrow> (bool \<times> async_log) res" where
  "AsyncLogging_append junk logline len S =
     (case al_current S of
        None \<Rightarrow> Inl NullDeref
      | Some cur \<Rightarrow>
          if avail cur > len
          then andThen (FixBuffer_append logline (sz_of_int len) cur) (\<lambda>cur'.
               Inr (False, S\<lparr>al_current := Some cur'\<rparr>))
          else
            let S1 = S\<lparr>al_buffers := al_buffers S @ [Some cur], al_next := None\<rparr>;
                cur1 = (case al_next S of Some b \<Rightarrow> b | None \<Rightarrow> FixBuffer junk) in
            andThen (FixBuffer_append logline (sz_of_int len) cur1) (\<lambda>cur'.
            Inr (True, S1\<lparr>al_current := Some cur'\<rparr>)))"

text \<open>\<open>start\<close> up to \<open>MThread::start\<close>, with the state of its two threads; what follows there
  and the wait for the latch of the log come after.\<close>

definition AsyncLogging_start :: "bool \<Rightarrow> bool \<Rightarrow> async_log \<Rightarrow> (async_log \<times> start_state) res" where
  "AsyncLogging_start dbg create_fails S =
     andThen (MThread_start dbg create_fails (al_thread S)) (\<lambda>T.
     Inr (S\<lparr>al_running := True, al_thread := ss_thread T\<rparr>, T))"

definition AsyncLogging_stop :: "bool \<Rightarrow> async_log \<Rightarrow> async_log res" where
  "AsyncLogging_stop dbg S =
     andThen (jion dbg (al_thread S)) (\<lambda>M. Inr (S\<lparr>al_running := False, al_thread := M\<rparr>))"

definition AsyncLogging_dtor :: "bool \<Rightarrow> async_log \<Rightarrow> async_log res" where
  "AsyncLogging_dtor dbg S = (if al_running S then AsyncLogging_stop dbg S else Inr S)"

section \<open>The logging thread\<close>

text \<open>What one pass gets from outside: for the \<open>i\<close>-th record written the answers of the stream,
  and the clock readings.\<close>

record log_pass =
  lp_env :: log_env
  lp_answers :: "nat \<Rightarrow> (nat \<times> bool) list"
  lp_now :: "nat \<Rightarrow> int \<times> int"
  lp_stamp :: string

definition output_append :: "bool \<Rightarrow> log_pass \<Rightarrow> nat \<Rightarrow> string \<Rightarrow> logfile \<Rightarrow> logfile res" where
  "output_append dbg P i logline F =
     LogFile_append dbg (lp_env P) (lp_answers P i) (fst (lp_now P i)) (snd (lp_now P i)) logline F"

text \<open>Before the loop, the head of the loop, and the region that takes the current buffer.\<close>

definition thread_entry :: "bool \<Rightarrow> log_pass \<Rightarrow> async_log \<Rightarrow> writer \<Rightarrow> (async_log \<times> writer) res" where
  "thread_entry dbg P S W =
     cassert dbg (al_running S)
      (andThen (LogFile_ctor dbg (lp_env P) (fst (lp_now P 0)) (al_basename S) (al_roll_size S) False 3 1024)
        (\<lambda>F. Inr (S\<lparr>al_latch := count_down (al_latch S)\<rparr>,
          W\<lparr>wr_pc := AtTop, wr_out := Some F, wr_new1 := Some zeroed_buffer,
            wr_new2 := Some zeroed_buffer, wr_writes := []\<rparr>)))"

definition take_buffers :: "async_log \<Rightarrow> writer \<Rightarrow> async_log \<times> writer" where
  "take_buffers S W =
     (let S1 = S\<lparr>al_buffers := al_buffers S @ [al_current S], al_current := wr_new1 W\<rparr>;
          W1 = W\<lparr>wr_new1 := None, wr_pc := AtWrite\<rparr> in
      if al_next S1 = None then (S1\<lparr>al_next := wr_new2 W1\<rparr>, W1\<lparr>wr_new2 := None\<rparr>) else (S1, W1))"

definition thread_top :: "bool \<Rightarrow> async_log \<Rightarrow> writer \<Rightarrow> (async_log \<times> writer) res" where
  "thread_top dbg S W =
     (if al_running S
      then cassert dbg (case wr_new1 W of None \<Rightarrow> False | Some b \<Rightarrow> fb_length b = 0)
        (cassert dbg (wr_writes W = [])
          (Inr (if al_buffers S = [] then (S, W\<lparr>wr_pc := InTimedWait\<rparr>) else take_buffers S W)))
      else Inr (S, W\<lparr>wr_pc := AtEnd\<rparr>))"

text \<open>The message about dropped buffers, the file, the two spare buffers.\<close>

definition dropped_message :: "string \<Rightarrow> nat \<Rightarrow> string" where
  "dropped_message stamp n = take 255
     (''Dropped log message at '' @ stamp @ '' ,'' @ dec_nat (sz_sub n 2) @ '' large buffers'' @ [CHR 0x0A])"

definition write_one :: "bool \<Rightarrow> log_pass \<Rightarrow> nat \<times> fixbuf option \<Rightarrow> logfile \<Rightarrow> logfile res" where
  "write_one dbg P e F =
     (case snd e of
        None \<Rightarrow> Inl NullDeref
      | Some b \<Rightarrow> andThen (ptr_read (Ptr (m_data b) 0) (nat (fb_length b)))
                    (\<lambda>tx. output_append dbg P (Suc (fst e)) tx F))"

definition write_buffers ::
    "bool \<Rightarrow> log_pass \<Rightarrow> fixbuf option list \<Rightarrow> logfile \<Rightarrow> (fixbuf option list \<times> logfile) res" where
  "write_buffers dbg P bufs F =
     andThen
      (if length bufs > 25
       then andThen (output_append dbg P 0 (dropped_message (lp_stamp P) (length bufs)) F)
              (\<lambda>F'. Inr (take 2 bufs, F'))
       else Inr (bufs, F)) (\<lambda>(bufs1, F1).
     andThen (foldRes (write_one dbg P) (enumerate 0 bufs1) F1) (\<lambda>F2.
     Inr (if length bufs1 > 2 then take 2 bufs1 else bufs1, F2)))"

text \<open>A spare buffer is taken from the written ones and then released: the pointer is null again.\<close>

definition refill :: "bool \<Rightarrow> fixbuf option \<Rightarrow> fixbuf option list \<Rightarrow> (fixbuf option \<times> fixbuf option list) res" where
  "refill dbg spare bufs =
     (if spare = None
      then cassert dbg (bufs \<noteq> [])
            (if bufs = [] then Inl EmptyContainer else Inr (None, butlast bufs))
      else Inr (spare, bufs))"

definition thread_write :: "bool \<Rightarrow> log_pass \<Rightarrow> async_log \<Rightarrow> writer \<Rightarrow> (async_log \<times> writer) res" where
  "thread_write dbg P S W =
     cassert dbg (al_buffers S \<noteq> [])
      (case wr_out W of
         None \<Rightarrow> Inl NullDeref
       | Some F \<Rightarrow>
           andThen (write_buffers dbg P (wr_writes W) F) (\<lambda>(bufs, F1).
           andThen (refill dbg (wr_new1 W) bufs) (\<lambda>(new1, bufs1).
           andThen (refill dbg (wr_new2 W) bufs1) (\<lambda>(new2, bufs2).
           andThen (LogFile_flush F1) (\<lambda>F2.
           Inr (S, W\<lparr>wr_pc := AtTop, wr_out := Some F2, wr_new1 := new1, wr_new2 := new2,
                     wr_writes := []\<rparr>))))))"

fun thread_step :: "bool \<Rightarrow> log_pass \<Rightarrow> async_log \<times> writer \<Rightarrow> (async_log \<times> writer) res option" where
  "thread_step dbg P (S, W) =
     (case wr_pc W of
        NotBegun \<Rightarrow> None
      | AtEntry \<Rightarrow> Some (thread_entry dbg P S W)
      | AtTop \<Rightarrow> Some (thread_top dbg S W)
      | InTimedWait \<Rightarrow> Some (Inr (take_buffers S W))
      | AtWrite \<Rightarrow> Some (thread_write dbg P S W)
      | AtEnd \<Rightarrow> None)"

definition idle_writer :: writer where
  "idle_writer = \<lparr>wr_pc = NotBegun, wr_out = None, wr_new1 = None, wr_new2 = None, wr_writes = []\<rparr>"

text \<open>
  Every interleaving of a log that is made, started and used by any number of callers; \<open>rs\<close> are the
  records in the order their \<open>append\<close> got the mutex. \<open>stop\<close> here is the first assignment of the
  function \<open>stop\<close>; the join after it changes nothing the others read. A fault of the thread ends
  the execution.
\<close>

inductive al_reach :: "bool \<Rightarrow> string list \<Rightarrow> async_log \<times> writer \<Rightarrow> bool" where
  make: "al_reach dbg [] (AsyncLogging_ctor n basename roll_size flush_interval, idle_writer)"
| start: "al_reach dbg rs (S, W) \<Longrightarrow> wr_pc W = NotBegun \<Longrightarrow>
    AsyncLogging_start dbg create_fails S = Inr (S', T) \<Longrightarrow>
    al_reach dbg rs (S', if ss_pc T = NotCreated then W else W\<lparr>wr_pc := AtEntry\<rparr>)"
| append: "al_reach dbg rs (S, W) \<Longrightarrow> length r < 2 ^ 31 \<Longrightarrow> length junk = k_large_buffer \<Longrightarrow>
    AsyncLogging_append junk (cstr r) (int (length r)) S = Inr (posted, S') \<Longrightarrow>
    al_reach dbg (rs @ [r]) (S', W)"
| stop: "al_reach dbg rs (S, W) \<Longrightarrow> al_reach dbg rs (S\<lparr>al_running := False\<rparr>, W)"
| thread: "al_reach dbg rs X \<Longrightarrow> thread_step dbg P X = Some (Inr Y) \<Longrightarrow> al_reach dbg rs Y"

section \<open>Nothing is written\<close>

text \<open>The text the shared buffers hold, oldest first.\<close>

definition held :: "fixbuf option \<Rightarrow> string" where
  "held x = (case x of None \<Rightarrow> [] | Some b \<Rightarrow> fixbuf_text b)"

definition al_text :: "async_log \<Rightarrow> string" where
  "al_text S = concat (map held (al_buffers S)) @ held (al_current S)"

lemma held_simps [simp]: "held None = []" "held (Some b) = fixbuf_text b"
  by (simp_all add: held_def)

definition large :: "fixbuf \<Rightarrow> bool" where
  "large b \<longleftrightarrow> fixbuf_inv b \<and> length (m_data b) = k_large_buffer"

definition spare :: "fixbuf option \<Rightarrow> bool" where
  "spare x \<longleftrightarrow> (\<exists>b. x = Some b \<and> large b \<and> m_cur b = 0)"

definition al_shared :: "string list \<Rightarrow> async_log \<Rightarrow> bool" where
  "al_shared rs S \<longleftrightarrow>
     al_text S = concat (filter (\<lambda>r. length r < k_large_buffer) rs) \<and>
     (\<exists>b. al_current S = Some b \<and> large b) \<and> (al_next S = None \<or> spare (al_next S))"

definition wr_ok :: "bool \<Rightarrow> writer \<Rightarrow> bool" where
  "wr_ok queued W \<longleftrightarrow>
     (\<forall>F. wr_out W = Some F \<longrightarrow> log_text F = []) \<and>
     (case wr_pc W of
        AtWrite \<Rightarrow> wr_out W \<noteq> None \<and> wr_new1 W = None \<and> wr_writes W = [] \<and> queued
      | AtTop \<Rightarrow> spare (wr_new1 W) \<and> spare (wr_new2 W) \<and> wr_writes W = [] \<and> wr_out W \<noteq> None
      | InTimedWait \<Rightarrow> spare (wr_new1 W) \<and> spare (wr_new2 W) \<and> wr_writes W = [] \<and> wr_out W \<noteq> None
      | _ \<Rightarrow> True)"

definition al_inv :: "string list \<Rightarrow> async_log \<times> writer \<Rightarrow> bool" where
  "al_inv rs X \<longleftrightarrow> al_shared rs (fst X) \<and> wr_ok (al_buffers (fst X) \<noteq> []) (snd X)"

lemma wr_ok_queued: "wr_ok q W \<Longrightarrow> (q \<longrightarrow> q') \<Longrightarrow> wr_ok q' W"
  by (cases "wr_pc W") (auto simp: wr_ok_def)

lemma al_shared_frame [simp]:
  "al_shared rs (S\<lparr>al_running := x\<rparr>) = al_shared rs S"
  "al_shared rs (S\<lparr>al_thread := y\<rparr>) = al_shared rs S"
  "al_shared rs (S\<lparr>al_latch := z\<rparr>) = al_shared rs S"
  by (simp_all add: al_shared_def al_text_def)

lemma spare_zeroed: "spare (Some zeroed_buffer)"
  by (simp add: spare_def large_def zeroed_buffer_def FixBuffer_def FixBuffer_bzero_def fixbuf_inv_def
    k_large_buffer_def)

lemma spare_text: "spare (Some b) \<Longrightarrow> large b \<and> fixbuf_text b = [] \<and> m_cur b = 0"
  by (simp add: spare_def fixbuf_text_def)

lemma large_avail: "large b \<Longrightarrow> avail b = int (k_large_buffer - m_cur b)"
  by (simp add: large_def avail_eq)

lemma spare_held: "spare x \<Longrightarrow> held x = []"
  by (auto simp: spare_def fixbuf_text_def)

text \<open>One call of \<open>append\<close> adds a record that fits into an empty buffer, and drops any other.\<close>

lemma append_buffer:
  assumes "large b" "length r < 2 ^ 31"
  shows "\<exists>b'. FixBuffer_append (cstr r) (sz_of_int (int (length r))) b = Inr b' \<and> large b' \<and>
    fixbuf_text b' = (if length r < k_large_buffer - m_cur b then fixbuf_text b @ r else fixbuf_text b)"
proof -
  have "sz_of_int (int (length r)) = length r" using assms(2) by (simp add: sz_of_int_nat)
  moreover have "ptr_read (cstr r) (length r) = Inr r" by (simp add: ptr_read_cstr)
  ultimately show ?thesis
    using FixBuffer_append_text [of b "cstr r" r] assms(1) by (auto simp: large_def)
qed

lemma append_step:
  assumes "al_current S = Some b" "large b" "al_next S = None \<or> spare (al_next S)"
    and "length r < 2 ^ 31" "length junk = k_large_buffer"
    and "AsyncLogging_append junk (cstr r) (int (length r)) S = Inr (posted, S')"
  shows "\<exists>b'. al_current S' = Some b' \<and> large b' \<and> (al_next S' = None \<or> spare (al_next S')) \<and>
    (al_buffers S' = [] \<longrightarrow> al_buffers S = []) \<and>
    al_text S' = al_text S @ (if length r < k_large_buffer then r else [])"
proof (cases "avail b > int (length r)")
  case True
  then have lt: "length r < k_large_buffer - m_cur b" using large_avail [OF assms(2)] by simp
  obtain b' where b': "FixBuffer_append (cstr r) (sz_of_int (int (length r))) b = Inr b'" "large b'"
    "fixbuf_text b' = fixbuf_text b @ r"
    using append_buffer [OF assms(2,4)] lt by auto
  have "S' = S\<lparr>al_current := Some b'\<rparr>"
    using assms(6) True b'(1) by (simp add: AsyncLogging_append_def assms(1))
  then show ?thesis using b' assms(1,3) lt by (simp add: al_text_def)
next
  case False
  define cur1 where "cur1 = (case al_next S of Some b \<Rightarrow> b | None \<Rightarrow> FixBuffer junk)"
  have "large (FixBuffer junk)" "m_cur (FixBuffer junk) = 0"
    using assms(5) by (simp_all add: large_def FixBuffer_def fixbuf_inv_def k_large_buffer_def)
  then have cur1: "large cur1" "m_cur cur1 = 0"
    using assms(3) by (auto simp: cur1_def spare_def)
  obtain b' where b': "FixBuffer_append (cstr r) (sz_of_int (int (length r))) cur1 = Inr b'" "large b'"
    "fixbuf_text b' = (if length r < k_large_buffer then r else [])"
    using append_buffer [OF cur1(1) assms(4)] cur1(2) by (auto simp: fixbuf_text_def)
  have "S' = S\<lparr>al_buffers := al_buffers S @ [Some b], al_next := None, al_current := Some b'\<rparr>"
    using assms(6) False b'(1) by (simp add: AsyncLogging_append_def assms(1) Let_def flip: cur1_def)
  then show ?thesis using b' assms(1) by (simp add: al_text_def)
qed

lemma take_buffers_step:
  assumes "al_shared rs S" "wr_ok q W" "wr_pc W = AtTop \<or> wr_pc W = InTimedWait"
  shows "al_inv rs (take_buffers S W)"
proof -
  have w: "spare (wr_new1 W)" "spare (wr_new2 W)" "wr_writes W = []" "wr_out W \<noteq> None"
    "\<forall>F. wr_out W = Some F \<longrightarrow> log_text F = []"
    using assms(2,3) by (auto simp: wr_ok_def)
  obtain b1 where b1: "wr_new1 W = Some b1" "large b1" using w(1) by (auto simp: spare_def)
  have "fixbuf_text b1 = []" using spare_held [OF w(1)] b1(1) by simp
  then have "al_shared rs (fst (take_buffers S W))"
    using assms(1) b1 w(2) by (auto simp: al_shared_def take_buffers_def Let_def al_text_def)
  moreover have "wr_ok (al_buffers (fst (take_buffers S W)) \<noteq> []) (snd (take_buffers S W))"
    using w(3-5) by (simp add: take_buffers_def Let_def wr_ok_def)
  ultimately show ?thesis by (simp add: al_inv_def)
qed

lemma thread_write_faults:
  assumes "wr_ok (al_buffers S \<noteq> []) W" "wr_pc W = AtWrite"
  shows "thread_write dbg P S W = Inl (if dbg then AssertFail else EmptyContainer)"
  using assms
  by (auto simp: wr_ok_def thread_write_def write_buffers_def refill_def cassert_def)

lemma thread_entry_step:
  assumes "thread_entry dbg P S W = Inr (S', W')" "al_shared rs S"
  shows "al_inv rs (S', W')"
proof -
  obtain F where F: "LogFile_ctor dbg (lp_env P) (fst (lp_now P 0)) (al_basename S) (al_roll_size S) False 3 1024 = Inr F"
    and S': "S' = S\<lparr>al_latch := count_down (al_latch S)\<rparr>"
      "W' = W\<lparr>wr_pc := AtTop, wr_out := Some F, wr_new1 := Some zeroed_buffer,
            wr_new2 := Some zeroed_buffer, wr_writes := []\<rparr>"
    using assms(1) by (auto simp: thread_entry_def res_simps)
  have "log_text F = []"
    using F by (auto simp: LogFile_ctor_def roll_file_def AppendFile_ctor_def res_simps log_text_def
      Let_def split: if_splits)
  then show ?thesis using spare_zeroed assms(2) by (simp add: S' al_inv_def wr_ok_def)
qed

lemma thread_step_inv:
  assumes inv: "al_inv rs (S, W)" and step: "thread_step dbg P (S, W) = Some (Inr Y)"
  shows "al_inv rs Y"
proof -
  have sh: "al_shared rs S" and w: "wr_ok (al_buffers S \<noteq> []) W" using inv by (simp_all add: al_inv_def)
  show ?thesis
  proof (cases "wr_pc W")
    case AtEntry
    then show ?thesis using step thread_entry_step [OF _ sh] by (cases Y) simp
  next
    case AtTop
    consider "Y = (S, W\<lparr>wr_pc := AtEnd\<rparr>)" | "Y = (S, W\<lparr>wr_pc := InTimedWait\<rparr>)" | "Y = take_buffers S W"
      using step AtTop by (auto simp: thread_top_def res_simps split: if_splits)
    then show ?thesis using sh w AtTop take_buffers_step [OF sh w] by cases (simp_all add: al_inv_def wr_ok_def)
  next
    case InTimedWait
    then show ?thesis using step take_buffers_step [OF sh w] by simp
  next
    case AtWrite
    then show ?thesis using step thread_write_faults [OF w] by simp
  qed (use step in simp_all)
qed

lemma append_keeps:
  assumes "al_inv rs (S, W)" and "length r < 2 ^ 31" and "length junk = k_large_buffer"
    and "AsyncLogging_append junk (cstr r) (int (length r)) S = Inr (posted, S')"
  shows "al_inv (rs @ [r]) (S', W)"
proof -
  have sh: "al_shared rs S" and w: "wr_ok (al_buffers S \<noteq> []) W" using assms(1) by (simp_all add: al_inv_def)
  obtain b where b: "al_current S = Some b" "large b" "al_next S = None \<or> spare (al_next S)"
    using sh by (auto simp: al_shared_def)
  obtain b' where b': "al_current S' = Some b'" "large b'" "al_next S' = None \<or> spare (al_next S')"
    "al_buffers S' = [] \<longrightarrow> al_buffers S = []"
    "al_text S' = al_text S @ (if length r < k_large_buffer then r else [])"
    using append_step [OF b assms(2-4)] by blast
  have "al_shared (rs @ [r]) S'" using sh b' by (simp add: al_shared_def)
  moreover have "wr_ok (al_buffers S' \<noteq> []) W" using wr_ok_queued [OF w] b'(4) by blast
  ultimately show ?thesis by (simp add: al_inv_def)
qed

lemma al_reach_inv: "al_reach dbg rs X \<Longrightarrow> al_inv rs X"
proof (induction rule: al_reach.induct)
  case (make dbg n basename roll_size flush_interval)
  then show ?case using spare_zeroed spare_text [OF spare_zeroed]
    by (auto simp: al_inv_def al_shared_def wr_ok_def AsyncLogging_ctor_def idle_writer_def al_text_def)
next
  case (start dbg rs S W create_fails S' T)
  then have "S' = S\<lparr>al_running := True, al_thread := ss_thread T\<rparr>"
    by (auto simp: AsyncLogging_start_def res_simps)
  then show ?case using start by (simp add: al_inv_def wr_ok_def)
next
  case (append dbg rs S W r junk posted S')
  then show ?case using append_keeps by blast
next
  case (stop dbg rs S W)
  then show ?case by (simp add: al_inv_def)
next
  case (thread dbg rs X P Y)
  then show ?case by (cases X) (auto intro: thread_step_inv)
qed

text \<open>C20: The asynchronous log keeps every record and writes none. In every interleaving of its
  callers with the logging thread the shared buffers hold all records appended so far in order
  (those longer than a buffer are dropped) and the files are empty: the buffers are never handed to
  the list that is written, and the first time the thread reaches its writing phase it faults, on
  the assertion in a Debug build and by taking the last element of an empty vector in Release.\<close>

theorem async_log_writes_nothing:
  assumes "al_reach dbg rs (S, W)"
  shows "al_text S = concat (filter (\<lambda>r. length r < k_large_buffer) rs) \<and>
    (\<forall>F. wr_out W = Some F \<longrightarrow> log_text F = []) \<and>
    (wr_pc W = AtWrite \<longrightarrow>
       thread_step dbg P (S, W) = Some (Inl (if dbg then AssertFail else EmptyContainer)))"
proof -
  have sh: "al_shared rs S" and w: "wr_ok (al_buffers S \<noteq> []) W"
    using al_reach_inv [OF assms] by (simp_all add: al_inv_def)
  have "wr_pc W = AtWrite \<longrightarrow>
      thread_step dbg P (S, W) = Some (Inl (if dbg then AssertFail else EmptyContainer))"
    using thread_write_faults [OF w] by simp
  then show ?thesis using sh w by (simp add: al_shared_def wr_ok_def)
qed

text \<open>The execution with one record, up to the writing phase.\<close>

definition demo_pass :: log_pass where
  "demo_pass = \<lparr>lp_env = demo_env, lp_answers = (\<lambda>_. []), lp_now = (\<lambda>_. (10, 10)), lp_stamp = []\<rparr>"

lemma demo_async:
  "\<exists>S W. al_reach False [''up''] (S, W) \<and> wr_pc W = AtWrite"
proof -
  define S0 where "S0 = AsyncLogging_ctor 0 ''app'' 1000 3"
  have r0: "al_reach False [] (S0, idle_writer)" unfolding S0_def by (rule al_reach.make)
  define b0 where "b0 = zeroed_buffer"
  have b0: "large b0" "m_cur b0 = 0" using spare_text [OF spare_zeroed] by (simp_all add: b0_def)
  have cur: "al_current S0 = Some b0" by (simp add: S0_def AsyncLogging_ctor_def b0_def)
  obtain b1 where b1: "FixBuffer_append (cstr ''up'') (sz_of_int (int (length ''up''))) b0 = Inr b1"
    using append_buffer [OF b0(1), of "''up''"] by auto
  define S1 where "S1 = S0\<lparr>al_current := Some b1\<rparr>"
  have "AsyncLogging_append (replicate k_large_buffer (CHR 0x00)) (cstr ''up'') (int (length ''up'')) S0 =
      Inr (False, S1)"
    using b1 large_avail [OF b0(1)] b0(2)
    by (simp add: AsyncLogging_append_def cur S1_def k_large_buffer_def)
  from al_reach.append [OF r0 _ _ this] have r1: "al_reach False [''up''] (S1, idle_writer)" by simp
  obtain S2 T where S2: "AsyncLogging_start False False S1 = Inr (S2, T)" "ss_pc T = Begun"
    "al_running S2" "al_buffers S2 = []"
    by (simp add: AsyncLogging_start_def MThread_start_def S1_def S0_def AsyncLogging_ctor_def)
  have r2: "al_reach False [''up''] (S2, idle_writer\<lparr>wr_pc := AtEntry\<rparr>)"
    using al_reach.start [OF r1 _ S2(1)] S2(2) by (simp add: idle_writer_def)
  obtain S3 W3 where S3: "thread_step False demo_pass (S2, idle_writer\<lparr>wr_pc := AtEntry\<rparr>) = Some (Inr (S3, W3))"
    "wr_pc W3 = AtTop" "al_running S3" "al_buffers S3 = []"
    using S2(3,4) by (simp add: thread_entry_def LogFile_ctor_def roll_file_def AppendFile_ctor_def
      demo_pass_def Let_def)
  have r3: "al_reach False [''up''] (S3, W3)" by (rule al_reach.thread [OF r2 S3(1)])
  have "thread_step False demo_pass (S3, W3) = Some (Inr (S3, W3\<lparr>wr_pc := InTimedWait\<rparr>))"
    using S3 by (simp add: thread_top_def)
  from al_reach.thread [OF r3 this] have r4: "al_reach False [''up''] (S3, W3\<lparr>wr_pc := InTimedWait\<rparr>)" .
  obtain S5 W5 where S5: "take_buffers S3 (W3\<lparr>wr_pc := InTimedWait\<rparr>) = (S5, W5)" by force
  have "thread_step False demo_pass (S3, W3\<lparr>wr_pc := InTimedWait\<rparr>) = Some (Inr (S5, W5))"
    by (simp add: S5)
  from al_reach.thread [OF r4 this] have "al_reach False [''up''] (S5, W5)" .
  moreover have "wr_pc W5 = AtWrite" using S5 by (auto simp: take_buffers_def Let_def split: if_splits)
  ultimately show ?thesis by blast
qed

theorem async_log_writes_nothing_witness:
  "\<exists>S W. al_text S = ''up'' \<and> wr_pc W = AtWrite \<and>
    thread_step False demo_pass (S, W) = Some (Inl EmptyContainer)"
proof -
  obtain S W where r: "al_reach False [''up''] (S, W)" "wr_pc W = AtWrite" using demo_async by blast
  note async_log_writes_nothing [OF r(1), of demo_pass]
  then have "al_text S = ''up''" "thread_step False demo_pass (S, W) = Some (Inl EmptyContainer)"
    using r(2) by (simp_all add: k_large_buffer_def)
  then show ?thesis using r(2) by blast
qed

end
