(* ===== verification/Base_AsyncStart.thy ===== *)
theory Base_AsyncStart
  imports Base_AsyncLog
begin

text \<open>
  The asynchronous log together with its thread: \<open>AsyncLogging::start\<close> (\<open>base/asynclog.h\<close>), the
  start protocol of \<open>MThread\<close> (\<open>base/m_thread.cpp\<close>) that it calls, and \<open>thread_func\<close>
  (\<open>base/asynclog.cpp\<close>) that the thread runs, with any number of threads that append. The components
  are those of \<open>Base_Thread\<close> and \<open>Base_AsyncLog\<close>; a step belongs to one of them, or to two at the
  points where they meet: the thread enters \<open>thread_func\<close> and leaves it, and its counting down of
  the log's latch is seen by the caller of \<open>start\<close> (thread 0 of both latches).
\<close>

record log_system =
  ls_log :: async_log
  ls_writer :: writer
  ls_start :: start_state
  ls_in_latch :: bool
  ls_records :: "string list"

text \<open>\<open>start\<close> up to the first wait; when no thread can be made, that is the wait for the log's latch.\<close>

definition log_start_begin :: "bool \<Rightarrow> bool \<Rightarrow> async_log \<Rightarrow> log_system res" where
  "log_start_begin dbg create_fails S =
     andThen (AsyncLogging_start dbg create_fails S) (\<lambda>(S', T).
     Inr \<lparr>ls_log = S', ls_writer = idle_writer, ls_start = T, ls_in_latch = create_fails, ls_records = []\<rparr>)"

definition log_caller :: "log_system \<Rightarrow> wait_pc" where
  "log_caller X = la_pc (al_latch (ls_log X)) 0"

definition log_started :: "log_system \<Rightarrow> bool" where
  "log_started X \<longleftrightarrow> ls_in_latch X \<and> log_caller X = Returned"

definition on_log_latch :: "(latch \<Rightarrow> latch) \<Rightarrow> log_system \<Rightarrow> log_system" where
  "on_log_latch f X = X\<lparr>ls_log := (ls_log X)\<lparr>al_latch := f (al_latch (ls_log X))\<rparr>\<rparr>"

inductive log_step :: "bool \<Rightarrow> log_system \<Rightarrow> log_system \<Rightarrow> bool" for dbg where
  caller: "start_step (ls_start X) T \<Longrightarrow> ss_pc T = ss_pc (ls_start X) \<Longrightarrow>
    log_step dbg X (X\<lparr>ls_start := T\<rparr>)"
| thread_made: "\<not> ls_in_latch X \<Longrightarrow> starter (ls_start X) = Returned \<Longrightarrow>
    log_step dbg X (X\<lparr>ls_in_latch := True\<rparr>)"
| test_latch: "ls_in_latch X \<Longrightarrow> log_caller X = Ready \<or> log_caller X = Woken \<Longrightarrow>
    log_step dbg X (on_log_latch (latch_test 0) X)"
| spurious: "log_caller X = Asleep \<Longrightarrow>
    log_step dbg X (on_log_latch (\<lambda>L. L\<lparr>la_pc := (la_pc L)(0 := Woken)\<rparr>) X)"
| enter: "ss_pc (ls_start X) = Begun \<Longrightarrow>
    log_step dbg X (X\<lparr>ls_start := run_in_thread_begin (ls_start X),
      ls_writer := (ls_writer X)\<lparr>wr_pc := AtEntry\<rparr>\<rparr>)"
| work: "ss_pc (ls_start X) = Running \<Longrightarrow>
    thread_step dbg P (ls_log X, ls_writer X) = Some (Inr (S', W')) \<Longrightarrow>
    log_step dbg X (X\<lparr>ls_log := S', ls_writer := W'\<rparr>)"
| leave: "ss_pc (ls_start X) = Running \<Longrightarrow> wr_pc (ls_writer X) = AtEnd \<Longrightarrow>
    log_step dbg X (X\<lparr>ls_start := run_in_thread_end False (ls_start X)\<rparr>)"
| append: "length r < 2 ^ 31 \<Longrightarrow> length junk = k_large_buffer \<Longrightarrow>
    AsyncLogging_append junk (cstr r) (int (length r)) (ls_log X) = Inr (posted, S') \<Longrightarrow>
    log_step dbg X (X\<lparr>ls_log := S', ls_records := ls_records X @ [r]\<rparr>)"
| stop: "log_step dbg X (X\<lparr>ls_log := (ls_log X)\<lparr>al_running := False\<rparr>\<rparr>)"

inductive_cases log_stepE: "log_step dbg X X'"

section \<open>What every execution keeps\<close>

text \<open>Either the caller is stuck inside \<open>MThread::start\<close>, or there is no thread and nobody to count
  the log's latch down.\<close>

definition hanging :: "log_system \<Rightarrow> bool" where
  "hanging X \<longleftrightarrow>
     stuck (ls_start X) \<and> \<not> ls_in_latch X \<or>
     ss_pc (ls_start X) = NotCreated \<and> la_count (al_latch (ls_log X)) = 1 \<and> log_caller X \<noteq> Returned"

definition log_system_inv :: "log_system \<Rightarrow> bool" where
  "log_system_inv X \<longleftrightarrow> hanging X \<and> al_inv (ls_records X) (ls_log X, ls_writer X)"

lemma append_latch:
  "AsyncLogging_append junk r n S = Inr (posted, S') \<Longrightarrow> al_latch S' = al_latch S"
  by (auto simp: AsyncLogging_append_def res_simps Let_def split: option.splits if_splits)

lemma al_inv_frame:
  "al_inv rs (S\<lparr>al_latch := l\<rparr>, W) = al_inv rs (S, W)" "al_inv rs (S\<lparr>al_running := b\<rparr>, W) = al_inv rs (S, W)"
  by (simp_all add: al_inv_def)

lemma hanging_step:
  assumes "log_step dbg X X'" "hanging X"
  shows "hanging X'"
  using assms
proof (induction rule: log_step.induct)
  case (caller X T)
  then show ?case
    using stuck_step [of "ls_start X" T] by (auto simp: hanging_def log_caller_def)
next
  case (append r junk X posted S')
  then show ?case using append_latch [OF append(3)] by (simp add: hanging_def log_caller_def)
qed (auto simp: hanging_def stuck_def starter_def log_caller_def on_log_latch_def latch_test_def
  run_in_thread_begin_def run_in_thread_end_def)

lemma log_system_inv_step:
  assumes "log_step dbg X X'" "log_system_inv X"
  shows "log_system_inv X'"
proof -
  have "al_inv (ls_records X') (ls_log X', ls_writer X')"
    using assms(1)
  proof cases
    case (work P S' W')
    then show ?thesis using assms(2) thread_step_inv by (auto simp: log_system_inv_def)
  next
    case (append r junk posted S')
    then show ?thesis using assms(2) append_keeps by (auto simp: log_system_inv_def)
  next
    case enter
    then show ?thesis using assms(2) by (auto simp: log_system_inv_def al_inv_def wr_ok_def)
  qed (use assms(2) in \<open>simp_all add: log_system_inv_def on_log_latch_def al_inv_frame\<close>)
  then show ?thesis using hanging_step [OF assms(1)] assms(2) by (simp add: log_system_inv_def)
qed

lemma log_system_inv_init:
  assumes "log_start_begin dbg create_fails (AsyncLogging_ctor n basename roll_size flush_interval) = Inr X"
  shows "log_system_inv X"
  using assms spare_zeroed spare_text [OF spare_zeroed]
  by (auto simp: log_start_begin_def AsyncLogging_start_def AsyncLogging_ctor_def MThread_start_def MThread_ctor_def
    set_default_name_def CountDownLatch_def log_system_inv_def hanging_def stuck_def starter_def log_caller_def
    al_inv_def al_shared_def wr_ok_def idle_writer_def al_text_def cassert_def res_simps Let_def
    split: prod.splits if_splits)

section \<open>The log never starts\<close>

text \<open>C25: \<open>AsyncLogging::start\<close> never returns, whether its thread can be made or not, in any
  interleaving of its caller, the logging thread and any number of threads that append: with a thread
  the caller stays in \<open>MThread::start\<close>, although \<open>thread_func\<close> runs and counts the log's latch down;
  without one nobody counts it down. Meanwhile every record that fits stays in the buffers and no
  file gets any.\<close>

theorem log_start_never_returns:
  assumes "log_start_begin dbg create_fails (AsyncLogging_ctor n basename roll_size flush_interval) = Inr X"
    and "(log_step dbg)\<^sup>*\<^sup>* X X'"
  shows "\<not> log_started X' \<and>
    al_text (ls_log X') = concat (filter (\<lambda>r. length r < k_large_buffer) (ls_records X')) \<and>
    (\<forall>F. wr_out (ls_writer X') = Some F \<longrightarrow> log_text F = [])"
proof -
  have "log_system_inv X'"
    using assms(2) log_system_inv_init [OF assms(1)]
    by (induction rule: rtranclp_induct) (auto intro: log_system_inv_step)
  then show ?thesis
    by (auto simp: log_system_inv_def hanging_def stuck_def log_started_def al_inv_def al_shared_def wr_ok_def)
qed

text \<open>The execution in which \<open>thread_func\<close> has counted the latch down and the caller still waits.\<close>

theorem log_start_never_returns_witness:
  "\<exists>X X'. log_start_begin False False (AsyncLogging_ctor 0 ''app'' 1000 3) = Inr X \<and> (log_step False)\<^sup>*\<^sup>* X X' \<and>
    la_count (al_latch (ls_log X')) = 0 \<and> \<not> log_started X'"
proof -
  let ?S = "AsyncLogging_ctor 0 ''app'' 1000 3"
  obtain X where X: "log_start_begin False False ?S = Inr X" "ss_pc (ls_start X) = Begun"
    "la_count (al_latch (ls_log X)) = 1" "al_running (ls_log X)"
    by (simp add: log_start_begin_def AsyncLogging_start_def MThread_start_def AsyncLogging_ctor_def CountDownLatch_def)
  define Y where "Y = X\<lparr>ls_start := run_in_thread_begin (ls_start X), ls_writer := (ls_writer X)\<lparr>wr_pc := AtEntry\<rparr>\<rparr>"
  have Y: "log_step False X Y" "ss_pc (ls_start Y) = Running" "wr_pc (ls_writer Y) = AtEntry" "ls_log Y = ls_log X"
    using log_step.enter [of X False] X(2) by (simp_all add: Y_def run_in_thread_begin_def)
  obtain S' W' where w: "thread_step False demo_pass (ls_log Y, ls_writer Y) = Some (Inr (S', W'))"
    "al_latch S' = count_down (al_latch (ls_log X))"
    using Y(3,4) by (simp add: thread_entry_def LogFile_ctor_def roll_file_def AppendFile_ctor_def demo_pass_def Let_def)
  let ?X' = "Y\<lparr>ls_log := S', ls_writer := W'\<rparr>"
  have steps: "(log_step False)\<^sup>*\<^sup>* X ?X'" using Y(1) log_step.work [OF Y(2) w(1)] by (meson converse_rtranclp_into_rtranclp r_into_rtranclp)
  have "\<not> log_started ?X'" using log_start_never_returns [OF X(1) steps] by blast
  moreover have "la_count (al_latch (ls_log ?X')) = 0"
    using w(2) X(3) by (simp add: count_down_def notify_all_def Let_def)
  ultimately show ?thesis using X(1) steps by blast
qed

end
