(* ===== verification/Base_Config.thy ===== *)
theory Base_Config
  imports Cpp_Map Base_StringPiece
begin

text \<open>
  The configuration reader (\<open>base/config_file_reader.h\<close> and \<open>.cpp\<close>): lines \<open>key=value\<close>
  of a file into a map, and the map back into a file.

  A line is the C string the buffer holds. The content of the file, or that it cannot be opened, is
  an argument; an uninitialised \<open>m_load_ok\<close> is \<open>None\<close>. The test of \<open>buf[255]\<close> touches at
  most a byte behind the string \<open>fgets\<close> stored and has no effect on it.
\<close>

record config_reader =
  cf_load_ok :: "bool option"
  cf_map :: "(string \<times> string) list"
  cf_name :: string

text \<open>\<open>fgets\<close> with room for \<open>n\<close> characters: what it stores, and the rest of the file.\<close>

fun fgets :: "nat \<Rightarrow> string \<Rightarrow> string \<times> string" where
  "fgets 0 s = ([], s)"
| "fgets (Suc n) [] = ([], [])"
| "fgets (Suc n) (c # s) =
     (if c = CHR 0x0A then ([c], s) else case fgets n s of (a, b) \<Rightarrow> (c # a, b))"

definition is_blank :: "char \<Rightarrow> bool" where
  "is_blank c \<longleftrightarrow> c = CHR '' '' \<or> c = CHR 0x09 \<or> c = CHR 0x0D"

text \<open>
  \<open>trim_space\<close>: the text from the first character that is no blank, \<open>None\<close> for a null pointer. The
  loop at the end sets \<open>end_pos\<close> to null and steps below it before it looks again.
\<close>

definition trim_space :: "string \<Rightarrow> string option res" where
  "trim_space line =
     (let start = length (takeWhile is_blank line) in
      if drop start line = [] then Inr None
      else if is_blank (last line) then Inl NullDeref
      else let len = to_int32 (int (length line) - 1 - int start) + 1 in
        if len \<le> 0 then Inr None else Inr (Some (drop start line)))"

definition parse_line :: "string \<Rightarrow> (string \<times> string) list \<Rightarrow> (string \<times> string) list res" where
  "parse_line line m =
     (case find_char (CHR ''='') line of
        None \<Rightarrow> Inl NullDeref
      | Some p \<Rightarrow>
          andThen (trim_space (take p line)) (\<lambda>k.
          andThen (trim_space (drop (p + 1) line)) (\<lambda>v.
          case (k, v) of (Some key, Some val) \<Rightarrow> Inr (map_put key val m) | _ \<Rightarrow> Inr m)))"

lemma fgets_shorter: "length (snd (fgets n s)) \<le> length s"
  by (induction n s rule: fgets.induct) (auto split: prod.split intro: le_SucI)

lemma fgets_Suc_consumes: "inp \<noteq> [] \<Longrightarrow> length (snd (fgets (Suc n) inp)) < length inp"
  using fgets_shorter [of n "tl inp"] by (cases inp) (auto simp: less_Suc_eq_le split: prod.split)

lemma fgets_consumes: "inp \<noteq> [] \<Longrightarrow> length (snd (fgets 255 inp)) < length inp"
  using fgets_Suc_consumes [of inp 254] by simp

function load_loop :: "string \<Rightarrow> (string \<times> string) list \<Rightarrow> (string \<times> string) list res" where
  "load_loop inp m =
     (if inp = [] then Inr m
      else let buf = fst (fgets 255 inp); rest = snd (fgets 255 inp);
               line = takeWhile (\<lambda>c. c \<noteq> CHR ''#'') (takeWhile (\<lambda>c. c \<noteq> CHR 0x00) buf) in
        if line = [] then load_loop rest m
        else case parse_line line m of Inl e \<Rightarrow> Inl e | Inr m' \<Rightarrow> load_loop rest m')"
  by auto
termination
  by (relation "measure (\<lambda>(inp, _). length inp)") (auto simp: fgets_consumes)

declare load_loop.simps [simp del]

definition Load_file :: "string option \<Rightarrow> config_reader \<Rightarrow> config_reader res" where
  "Load_file opened C =
     (case opened of
        None \<Rightarrow> Inr C
      | Some inp \<Rightarrow> andThen (load_loop inp (cf_map C))
                      (\<lambda>m. Inr (C\<lparr>cf_map := m, cf_load_ok := Some True\<rparr>)))"

definition ConfigureFileReader_ctor :: "string option \<Rightarrow> string option \<Rightarrow> config_reader res" where
  "ConfigureFileReader_ctor file_name opened =
     (let C = \<lparr>cf_load_ok = None, cf_map = [], cf_name = []\<rparr> in
      case file_name of None \<Rightarrow> Inr C | Some n \<Rightarrow> Load_file opened (C\<lparr>cf_name := n\<rparr>))"

definition get_configure_name :: "string \<Rightarrow> config_reader \<Rightarrow> string option res" where
  "get_configure_name name C =
     (case cf_load_ok C of
        None \<Rightarrow> Inl Undefined
      | Some False \<Rightarrow> Inr None
      | Some True \<Rightarrow> Inr (map_of (cf_map C) name))"

text \<open>\<open>write_file\<close>: \<open>answers\<close> tells of each \<open>fwrite\<close> whether it takes the pair; the result with
  the characters written.\<close>

fun write_pairs :: "bool list \<Rightarrow> (string \<times> string) list \<Rightarrow> string \<Rightarrow> int \<times> string" where
  "write_pairs answers [] out = (- 1, out)"
| "write_pairs answers ((k, v) # r) out =
     (case answers of
        True # answers' \<Rightarrow> write_pairs answers' r (out @ take 127 (k @ ''='' @ v))
      | _ \<Rightarrow> (- 1, out))"

definition write_file :: "bool \<Rightarrow> bool list \<Rightarrow> config_reader \<Rightarrow> int \<times> string" where
  "write_file opened answers C = (if opened then write_pairs answers (cf_map C) [] else (- 1, []))"

section \<open>Properties\<close>

lemma write_file_always_fails: "fst (write_file opened answers C) = - 1"
proof -
  have "fst (write_pairs answers m out) = - 1" for m out
    by (induction answers m out rule: write_pairs.induct) (auto split: list.split bool.split)
  then show ?thesis by (simp add: write_file_def)
qed

lemma fgets_line:
  "CHR 0x0A \<notin> set l \<Longrightarrow> length l < n \<Longrightarrow> fgets n (l @ CHR 0x0A # rest) = (l @ [CHR 0x0A], rest)"
proof (induction l arbitrary: n)
  case Nil
  then show ?case by (cases n) simp_all
next
  case (Cons c l)
  then show ?case by (cases n) auto
qed

lemma find_char_absent: "c \<notin> set s \<Longrightarrow> find_char c s = None"
  by (subst find_char_def, subst takeWhile_eq_all_conv [THEN iffD2]) auto

text \<open>A line of text for the buffer, and an assignment: its key does not end in a blank.\<close>

definition plain :: "string \<Rightarrow> bool" where
  "plain s \<longleftrightarrow> set s \<inter> {CHR 0x00, CHR 0x0A, CHR ''#''} = {} \<and> length s < 255"

fun assignment :: "string \<times> string \<Rightarrow> bool" where
  "assignment (k, v) \<longleftrightarrow> plain (k @ ''='' @ v) \<and> CHR ''='' \<notin> set k \<and> k \<noteq> [] \<and> \<not> is_blank (last k)"

fun print_line :: "string \<times> string \<Rightarrow> string" where
  "print_line (k, v) = k @ ''='' @ v @ [CHR 0x0A]"

lemma load_line:
  assumes "plain l"
  shows "load_loop (l @ CHR 0x0A # rest) m =
    (case parse_line (l @ [CHR 0x0A]) m of Inl e \<Rightarrow> Inl e | Inr m' \<Rightarrow> load_loop rest m')"
proof -
  have f: "fgets 255 (l @ CHR 0x0A # rest) = (l @ [CHR 0x0A], rest)"
    using assms by (intro fgets_line) (auto simp: plain_def)
  have t: "takeWhile (\<lambda>c. c \<noteq> CHR 0x00) (l @ [CHR 0x0A]) = l @ [CHR 0x0A]"
    "takeWhile (\<lambda>c. c \<noteq> CHR ''#'') (l @ [CHR 0x0A]) = l @ [CHR 0x0A]"
    using assms by (subst takeWhile_eq_all_conv; auto simp: plain_def)+
  show ?thesis by (subst load_loop.simps) (simp add: f t Let_def del: takeWhile_append)
qed

lemma drop_blank: "drop (length (takeWhile is_blank s)) s = dropWhile is_blank s"
  by (metis dropWhile_eq_drop)

lemma trim_space_text:
  assumes "s \<noteq> []" "\<not> is_blank (last s)" "length s < 2 ^ 31"
  shows "trim_space s = Inr (Some (dropWhile is_blank s))"
proof -
  have ne: "dropWhile is_blank s \<noteq> []" using assms(1,2) last_in_set by (auto simp: dropWhile_eq_Nil_conv)
  define n where "n = length (takeWhile is_blank s)"
  have d: "drop n s = dropWhile is_blank s" by (simp add: n_def drop_blank)
  then have n: "n < length s" using ne by (metis drop_eq_Nil not_le)
  have "to_int32 (int (length s) - 1 - int n) = int (length s) - 1 - int n"
    using assms(3) n by (intro to_int32_id) (simp add: int32_ok_def)
  then show ?thesis
    using ne n d assms(2) by (simp add: trim_space_def Let_def flip: n_def)
qed

lemma parse_assignment:
  assumes "assignment (k, v)"
  shows "parse_line (k @ ''='' @ v @ [CHR 0x0A]) m =
    Inr (map_put (dropWhile is_blank k) (dropWhile is_blank (v @ [CHR 0x0A])) m)"
proof -
  have "find_char (CHR ''='') (k @ CHR ''='' # v @ [CHR 0x0A]) = Some (length k)"
    using assms by (intro find_char_append) simp
  moreover have "trim_space k = Inr (Some (dropWhile is_blank k))"
    using assms by (intro trim_space_text) (auto simp: plain_def)
  moreover have "trim_space (v @ [CHR 0x0A]) = Inr (Some (dropWhile is_blank (v @ [CHR 0x0A])))"
    using assms by (intro trim_space_text) (auto simp: plain_def is_blank_def)
  ultimately show ?thesis by (simp add: parse_line_def)
qed

text \<open>Reading a file whose lines are assignments: each key without its leading blanks gets the
  value of its last line, without leading blanks and with the line's newline still at its end. One
  further line without an equals sign, an empty one for instance, makes the reader write through a
  null pointer.\<close>

theorem config_file_read:
  assumes "list_all assignment es" and "plain l" and "CHR ''='' \<notin> set l"
  shows "\<exists>C. ConfigureFileReader_ctor (Some name) (Some (concat (map print_line es))) = Inr C \<and>
    cf_load_ok C = Some True \<and> map_ok (cf_map C) \<and>
    map_of (cf_map C) =
      map_of (rev (map (\<lambda>(k, v). (dropWhile is_blank k, dropWhile is_blank (v @ [CHR 0x0A]))) es)) \<and>
    ConfigureFileReader_ctor (Some name) (Some (concat (map print_line es) @ l @ [CHR 0x0A] @ tl_lines)) =
      Inl NullDeref"
proof -
  define put where "put e = map_put (dropWhile is_blank (fst e)) (dropWhile is_blank (snd e @ [CHR 0x0A]))"
    for e :: "string \<times> string"
  have load: "load_loop (concat (map print_line es) @ rest) m = load_loop rest (fold put es m)" for m rest
    using assms(1)
  proof (induction es arbitrary: m)
    case (Cons e es)
    obtain k v where e: "e = (k, v)" by (cases e)
    have a: "assignment (k, v)" using Cons.prems e by simp
    then have p: "plain (k @ ''='' @ v)" by simp
    show ?case
      using load_line [OF p, of "concat (map print_line es) @ rest" m] parse_assignment [OF a, of m] Cons
      by (simp add: e put_def)
  qed simp
  have ok: "map_ok (fold put es m)" if "map_ok m" for m
    using that by (induction es arbitrary: m) (auto simp: put_def map_ok_put)
  have map: "map_of (fold put es m) = map_of m ++
      map_of (rev (map (\<lambda>(k, v). (dropWhile is_blank k, dropWhile is_blank (v @ [CHR 0x0A]))) es))" for m
    by (induction es arbitrary: m) (simp_all add: put_def case_prod_beta)
  have "find_char (CHR ''='') (l @ [CHR 0x0A]) = None"
    using assms(3) by (simp add: find_char_absent)
  then have "load_loop (l @ CHR 0x0A # rest) m = Inl NullDeref" for m rest
    using load_line [OF assms(2), of rest m] by (simp add: parse_line_def)
  moreover have "load_loop [] m = Inr m" for m by (simp add: load_loop.simps)
  ultimately show ?thesis
    using load [of "[]" "[]"] load [of "l @ CHR 0x0A # tl_lines" "[]"] ok [of "[]"] map [of "[]"]
    by (simp add: ConfigureFileReader_ctor_def Load_file_def)
qed

theorem config_file_read_witness:
  "\<exists>C. ConfigureFileReader_ctor (Some ''a.conf'') (Some (''port='' @ ''80'' @ [CHR 0x0A])) = Inr C \<and>
    map_of (cf_map C) ''port'' = Some (''80'' @ [CHR 0x0A])"
proof -
  have "list_all assignment [(''port'', ''80'')]" "plain []" "CHR ''='' \<notin> set []"
    by (simp_all add: plain_def is_blank_def)
  from config_file_read [OF this, of "''a.conf''" "[]"] show ?thesis
    by (auto simp: is_blank_def)
qed

text \<open>A blank at the end of a key or of a value without newline is read through a null pointer, and
  asking a reader whose file could not be opened reads an uninitialised member.\<close>

lemma trim_space_trailing:
  "is_blank c \<Longrightarrow> \<not> list_all is_blank s \<Longrightarrow> trim_space (s @ [c]) = Inl NullDeref"
  unfolding trim_space_def Let_def drop_blank by (auto simp: dropWhile_eq_Nil_conv list_all_iff)

lemma missing_file_undefined:
  "ConfigureFileReader_ctor (Some n) None = Inr C \<Longrightarrow> get_configure_name k C = Inl Undefined"
  by (auto simp: ConfigureFileReader_ctor_def Load_file_def get_configure_name_def)

end
