(* ===== verification/Base_ProcessInfo.thy ===== *)
theory Base_ProcessInfo
  imports Base_LogFile
begin

text \<open>
  What a process tells about itself (\<open>base/process_info.h\<close>, \<open>base/process_info.cpp\<close>): the
  parsing of the files under \<open>/proc/self\<close>, the directory scans and the fallbacks.

  The contents of the files and directories and the results of the system calls are arguments.
  \<open>std::string::find\<close>, \<open>rfind\<close>, \<open>isdigit\<close> and \<open>atoi\<close> are written out. The lemmas show
  that the parsers invert the format of the kernel.
\<close>

section \<open>Library functions\<close>

definition rfind_char :: "char \<Rightarrow> string \<Rightarrow> nat option" where
  "rfind_char c s = map_option (\<lambda>k. length s - 1 - k) (find_char c (rev s))"

fun find_str :: "string \<Rightarrow> string \<Rightarrow> nat option" where
  "find_str pat [] = (if pat = [] then Some 0 else None)"
| "find_str pat (x # s) = (if prefix pat (x # s) then Some 0 else map_option Suc (find_str pat s))"

definition is_space :: "char \<Rightarrow> bool" where
  "is_space c \<longleftrightarrow> of_char c \<in> {32 :: nat, 9, 10, 11, 12, 13}"

definition atoi :: "string \<Rightarrow> int" where
  "atoi s =
     (case dropWhile is_space s of
        [] \<Rightarrow> 0
      | c # r \<Rightarrow>
          if c = CHR ''-'' then - int (dec_value (takeWhile is_digit r))
          else if c = CHR ''+'' then int (dec_value (takeWhile is_digit r))
          else int (dec_value (takeWhile is_digit (c # r))))"

section \<open>Scans of a directory\<close>

definition fdDirFilter :: "string \<Rightarrow> int \<Rightarrow> int" where
  "fdDirFilter d_name t_numOpenedFiles =
     (if d_name \<noteq> [] \<and> is_digit (hd d_name) then t_numOpenedFiles + 1 else t_numOpenedFiles)"

definition taskDirFilter :: "string \<Rightarrow> int list \<Rightarrow> int list" where
  "taskDirFilter d_name t_pids =
     (if d_name \<noteq> [] \<and> is_digit (hd d_name) then t_pids @ [atoi d_name] else t_pids)"

text \<open>\<open>scandir\<close> calls the filter for each entry; the filters keep none.\<close>

definition scanDir :: "(string \<Rightarrow> 'a \<Rightarrow> 'a) \<Rightarrow> string list \<Rightarrow> 'a \<Rightarrow> 'a" where
  "scanDir filter_fun entries a = fold filter_fun entries a"

definition open_files :: "string list \<Rightarrow> int" where
  "open_files entries = scanDir fdDirFilter entries 0"

definition max_open_files :: "int \<Rightarrow> int \<Rightarrow> string list \<Rightarrow> int" where
  "max_open_files ret rlim_cur entries = (if ret \<noteq> 0 then open_files entries else to_int32 rlim_cur)"

definition threads :: "string list \<Rightarrow> int list" where
  "threads entries = sort (scanDir taskDirFilter entries [])"

section \<open>Identity\<close>

definition pid_string :: "int \<Rightarrow> string" where
  "pid_string pid = take 31 (dec_int pid)"

definition user_name :: "string option \<Rightarrow> string" where
  "user_name r = (case r of None \<Rightarrow> ''unknownuser'' | Some name \<Rightarrow> name)"

text \<open>\<open>buf\<close> is the array after a successful \<open>gethostname\<close>.\<close>

definition hostname :: "string option \<Rightarrow> string res" where
  "hostname r =
     (case r of
        Some buf \<Rightarrow> andThen (write_at buf 255 [CHR 0x00]) (\<lambda>b.
                     andThen (strlen (Ptr b 0)) (ptr_read (Ptr b 0)))
      | None \<Rightarrow> Inr ''unknownhost'')"

definition exe_path :: "int \<Rightarrow> string \<Rightarrow> string" where
  "exe_path n buf = (if n > 0 then take (nat n) buf else [])"

definition isDebugBuild :: "bool \<Rightarrow> bool" where
  "isDebugBuild dbg = dbg"

section \<open>Time used by the processor\<close>

text \<open>
  The type \<open>'d\<close> stands for \<open>double\<close>, with its zero, sum and quotient, and \<open>to_double\<close> for the
  conversion of an integer. \<open>times\<close> answers its result and the ticks in user and in system mode;
  \<open>ticks\<close> is what \<open>sysconf\<close> says of a second.
\<close>

record 'd cpu_time =
  userSeconds :: 'd
  systemSeconds :: 'd

definition CpuTime_ctor :: "'d :: zero cpu_time" where
  "CpuTime_ctor = \<lparr>userSeconds = 0, systemSeconds = 0\<rparr>"

definition CpuTime_total :: "'d :: plus cpu_time \<Rightarrow> 'd" where
  "CpuTime_total t = userSeconds t + systemSeconds t"

definition clock_tick_per_second :: "int \<Rightarrow> int" where
  "clock_tick_per_second ticks = to_int32 ticks"

definition cpuTime ::
    "(int \<Rightarrow> 'd) \<Rightarrow> int \<Rightarrow> int \<times> int \<times> int \<Rightarrow> ('d :: {zero, inverse}) cpu_time" where
  "cpuTime to_double ticks answer =
     (let (r, utime, stime) = answer; t = CpuTime_ctor in
      if r \<ge> 0
      then let hz = to_double (clock_tick_per_second ticks) in
        t\<lparr>userSeconds := to_double utime / hz, systemSeconds := to_double stime / hz\<rparr>
      else t)"

section \<open>Files of the kernel\<close>

definition read_file ::
    "int \<Rightarrow> int \<Rightarrow> int + file_kind \<times> int \<times> int \<times> int \<Rightarrow> (nat \<Rightarrow> nat \<Rightarrow> int + string) \<Rightarrow> bool \<times> bool \<times> bool \<Rightarrow>
     string \<Rightarrow> int \<Rightarrow> (int \<times> string \<times> int option \<times> int option \<times> int option) res" where
  "read_file fd open_err st rd want content maxSize = read_to_string fd open_err st rd want content maxSize"

text \<open>\<open>proc_stat\<close>, \<open>proc_status\<close> and \<open>thread_stat\<close> read at most 65536 characters and ignore
  the error number.\<close>

definition proc_file :: "int \<Rightarrow> int \<Rightarrow> (nat \<Rightarrow> nat \<Rightarrow> int + string) \<Rightarrow> string res" where
  "proc_file fd open_err rd =
     andThen (read_file fd open_err (Inl 0) rd (False, False, False) [] 65536) (\<lambda>(err, result, _). Inr result)"

definition procname_of :: "string \<Rightarrow> string_piece" where
  "procname_of stat =
     (case (find_char (CHR ''('') stat, rfind_char (CHR '')'') stat) of
        (Some lp, Some rp) \<Rightarrow>
          if lp < rp
          then sp_set (ptr_add (cstr stat) (int lp + 1)) (to_int32 (int (rp - lp - 1))) StringPiece_empty
          else StringPiece_empty
      | _ \<Rightarrow> StringPiece_empty)"

definition procname :: "string res \<Rightarrow> string res" where
  "procname stat = andThen stat (\<lambda>s. as_string (procname_of s))"

definition num_threads :: "string res \<Rightarrow> int res" where
  "num_threads stat =
     andThen stat (\<lambda>status.
      Inr (case find_str ''Threads:'' status of None \<Rightarrow> 0 | Some pos \<Rightarrow> atoi (drop (pos + 8) status)))"

section \<open>The parsers invert the format\<close>

lemma rfind_char_append: "c \<notin> set b \<Longrightarrow> rfind_char c (a @ c # b) = Some (length a)"
  using find_char_append [of c "rev b" "rev a"] by (simp add: rfind_char_def)

lemma takeWhile_digits:
  "\<not> is_digit c \<Longrightarrow> takeWhile is_digit (dec_nat n @ c # r) = dec_nat n"
  using dec_nat_digits [of _ n] by (auto simp: takeWhile_append)

text \<open>From a line of the form the kernel writes into \<open>/proc/self/stat\<close>, the process id, the
  command in parentheses and fields without a closing one, \<open>procname\<close> gives the command, even when
  the command contains blanks and parentheses itself.\<close>

theorem procname_roundtrip:
  assumes "CHR '')'' \<notin> set rest" and "length name < 2 ^ 31"
  shows "procname (Inr (dec_nat pid @ '' ('' @ name @ '')'' @ rest)) = Inr name"
proof -
  define s where "s = dec_nat pid @ '' ('' @ name @ '')'' @ rest"
  have "CHR ''('' \<notin> set (dec_nat pid @ '' '')"
    using dec_nat_digits [of "CHR ''(''" pid] by (auto simp: is_digit_def)
  then have l: "find_char (CHR ''('') s = Some (length (dec_nat pid) + 1)"
    using find_char_append [of "CHR ''(''" "dec_nat pid @ '' ''" "name @ '')'' @ rest"] by (simp add: s_def)
  have r: "rfind_char (CHR '')'') s = Some (length (dec_nat pid) + 2 + length name)"
    using rfind_char_append [OF assms(1), of "dec_nat pid @ '' ('' @ name"] by (simp add: s_def)
  have p: "procname_of s = \<lparr>m_ptr = Ptr (s @ [CHR 0x00]) (int (length (dec_nat pid)) + 2),
      m_length = int (length name)\<rparr>"
    using assms(2) by (simp add: procname_of_def l r sp_set_def cstr_def StringPiece_empty_def
      to_int32_id int32_ok_def)
  have "nat (int (length (dec_nat pid)) + 2) = length (dec_nat pid) + 2" by linarith
  then have "ptr_read (Ptr (s @ [CHR 0x00]) (int (length (dec_nat pid)) + 2)) (length name) = Inr name"
    by (simp add: read_at_def s_def)
  then have "procname (Inr s) = Inr name"
    using assms(2) by (simp add: procname_def p as_string_def sz_of_int_nat)
  then show ?thesis unfolding s_def .
qed

theorem procname_roundtrip_witness:
  "procname (Inr (dec_nat 42 @ '' ('' @ ''a) (b'' @ '')'' @ '' S 1'')) = Inr ''a) (b''"
  by (rule procname_roundtrip) simp_all

text \<open>In exact arithmetic the total is the number of ticks in seconds; without an answer it is zero.\<close>

lemma cpuTime_total:
  fixes ticks :: int
  assumes "0 < ticks" "ticks < 2 ^ 31"
  shows "CpuTime_total (cpuTime (of_int :: int \<Rightarrow> 'd :: field_char_0) ticks (r, u, s)) =
    (if r \<ge> 0 then of_int (u + s) / of_int ticks else 0)"
  using assms
  by (simp add: cpuTime_def CpuTime_total_def CpuTime_ctor_def clock_tick_per_second_def to_int32_id int32_ok_def
    add_divide_distrib Let_def)

text \<open>The number behind the first \<open>Threads:\<close>, after blanks, is the number of threads.\<close>

lemma find_str_first:
  assumes "\<forall>k < length a. \<not> prefix pat (drop k (a @ pat @ b))"
  shows "find_str pat (a @ pat @ b) = Some (length a)"
  using assms
proof (induction a)
  case Nil
  have "prefix pat (pat @ b)" by simp
  then show ?case by (cases "pat @ b") (simp_all del: append_prefixD)
next
  case (Cons x a)
  have "find_str pat (a @ pat @ b) = Some (length a)"
    using Cons.prems by (intro Cons.IH) (metis Suc_less_eq append_Cons drop_Suc_Cons length_Cons)
  then show ?case using Cons.prems by (auto dest: spec [where x = 0])
qed

lemma num_threads_line:
  assumes "\<forall>k < length a. \<not> prefix ''Threads:'' (drop k (a @ ''Threads:'' @ b))"
    and "b = CHR 0x09 # dec_nat n @ CHR 0x0A # r"
  shows "num_threads (Inr (a @ ''Threads:'' @ b)) = Inr (int n)"
proof -
  have nl: "\<not> is_digit (CHR 0x0A)" "is_space (CHR 0x09)" by (simp_all add: is_digit_def is_space_def)
  obtain c ds where ds: "dec_nat n = c # ds" by (cases "dec_nat n") simp_all
  have c: "is_digit c" using dec_nat_digits [of c n] ds by simp
  then have "\<not> is_space c" "c \<noteq> CHR ''-''" "c \<noteq> CHR ''+''" by (auto simp: is_digit_def is_space_def)
  then have "atoi b = int (dec_value (takeWhile is_digit (dec_nat n @ CHR 0x0A # r)))"
    using nl by (simp add: atoi_def assms(2) ds)
  also have "\<dots> = int n" by (simp add: takeWhile_digits nl)
  finally show ?thesis
    using find_str_first [OF assms(1)] by (simp add: num_threads_def)
qed

end
