(* ===== verification/Base_Locker.thy ===== *)
theory Base_Locker
  imports Base_Thread
begin

text \<open>
  Mutexes and conditions (\<open>base/locker.h\<close>) and the regions built from them.

  A \<open>Mutex\<close> is the thread that holds the \<open>pthread_mutex_t\<close>, if any, and the member
  \<open>m_holder\<close> (\<open>None\<close> while it is uninitialised), which only \<open>wait_for_seconds\<close> writes. Locking a
  held mutex blocks, also for its holder. The results of the \<open>pthread\<close> functions that the code
  tests are arguments.

  The other theories take a region between the construction and the destruction of a
  \<open>MutexGroud\<close> as one step. The theorem \<open>regions_are_atomic\<close> justifies this: threads that execute
  such regions statement by statement, with condition waits in them, are a simulation of threads
  that execute them at once.
\<close>

section \<open>Mutex\<close>

record mutex =
  mx_owner :: "nat option"
  m_holder :: "int option"

definition Mutex_ctor :: "bool \<Rightarrow> mutex res" where
  "Mutex_ctor init_fails =
     (if init_fails then Inl (LogicError ''exception'') else Inr \<lparr>mx_owner = None, m_holder = None\<rparr>)"

text \<open>\<open>lock\<close> and \<open>unlock\<close> with their results; \<open>None\<close>: the call blocks.\<close>

definition Mutex_lock :: "nat \<Rightarrow> mutex \<Rightarrow> (bool \<times> mutex) option" where
  "Mutex_lock t m = (if mx_owner m = None then Some (True, m\<lparr>mx_owner := Some t\<rparr>) else None)"

definition Mutex_unlock :: "mutex \<Rightarrow> bool \<times> mutex" where
  "Mutex_unlock m = (True, m\<lparr>mx_owner := None\<rparr>)"

text \<open>The destructor throws as well; a destructor is \<open>noexcept\<close>, so that ends the program.\<close>

definition Mutex_dtor :: "bool \<Rightarrow> mutex \<Rightarrow> unit res" where
  "Mutex_dtor destroy_fails m = (if destroy_fails then Inl (LogicError ''terminate'') else Inr ())"

definition unassign_holder :: "mutex \<Rightarrow> mutex" where
  "unassign_holder m = m\<lparr>m_holder := Some 0\<rparr>"

definition assign_holder :: "int \<Rightarrow> mutex \<Rightarrow> mutex" where
  "assign_holder me m = m\<lparr>m_holder := Some me\<rparr>"

text \<open>The guards ignore the results.\<close>

definition MutexGroud_ctor :: "nat \<Rightarrow> mutex \<Rightarrow> mutex option" where
  "MutexGroud_ctor t m = map_option snd (Mutex_lock t m)"

definition MutexGroud_dtor :: "mutex \<Rightarrow> mutex" where
  "MutexGroud_dtor m = snd (Mutex_unlock m)"

section \<open>Cond\<close>

definition Cond_ctor :: "bool \<Rightarrow> unit res" where
  "Cond_ctor init_fails = (if init_fails then Inl (LogicError ''exception'') else Inr ())"

text \<open>
  \<open>pthread_cond_wait\<close> releases the mutex and sleeps, in one step, then locks it again;
  \<open>pthread_cond_signal\<close> ends the sleep of one thread, if any, \<open>broadcast\<close> that of all. The set
  \<open>sleeping\<close> is the state of the condition.
\<close>

definition Cond_wait_sleep :: "nat \<Rightarrow> mutex \<times> nat set \<Rightarrow> mutex \<times> nat set" where
  "Cond_wait_sleep t mc = (case mc of (m, sleeping) \<Rightarrow> (MutexGroud_dtor m, insert t sleeping))"

definition Cond_post :: "nat \<Rightarrow> nat set \<Rightarrow> nat set" where
  "Cond_post chosen sleeping = sleeping - {chosen}"

definition Cond_notify_all :: "nat set \<Rightarrow> nat set" where
  "Cond_notify_all sleeping = {}"

text \<open>
  \<open>wait_for_seconds\<close> around its sleep: \<open>m_holder\<close> is cleared before it and set to the caller
  after it, when the mutex is held again.
\<close>

definition timed_wait_begin :: "nat \<Rightarrow> mutex \<times> nat set \<Rightarrow> mutex \<times> nat set" where
  "timed_wait_begin t mc = Cond_wait_sleep t (unassign_holder (fst mc), snd mc)"

definition timed_wait_end :: "nat \<Rightarrow> int \<Rightarrow> mutex \<Rightarrow> mutex option" where
  "timed_wait_end t me m = map_option (assign_holder me) (MutexGroud_ctor t m)"

lemma timed_wait_holder:
  assumes "timed_wait_end t me m = Some m'"
  shows "mx_owner m' = Some t" and "m_holder m' = Some me" and "m_holder (MutexGroud_dtor m') = Some me"
  using assms
  by (auto simp: timed_wait_end_def MutexGroud_ctor_def Mutex_lock_def assign_holder_def
      MutexGroud_dtor_def Mutex_unlock_def split: if_splits)

section \<open>Regions\<close>

text \<open>
  A region runs under a guard object: \<open>while (!guard) cond.wait();\<close> and then its statements,
  assignments to the data that the mutex protects and notifications. Regions without a wait have
  the guard \<open>True\<close>.
\<close>

datatype 's stmt = Assign "'s \<Rightarrow> 's" | NotifyIf "'s \<Rightarrow> bool" | Post

record ('s, 'o) regions =
  guard :: "'o \<Rightarrow> 's \<Rightarrow> bool"
  body :: "'o \<Rightarrow> 's stmt list"

fun effect :: "'s stmt list \<Rightarrow> 's \<Rightarrow> 's" where
  "effect [] d = d"
| "effect (Assign f # xs) d = effect xs (f d)"
| "effect (NotifyIf c # xs) d = effect xs d"
| "effect (Post # xs) d = effect xs d"

fun notifies :: "'s stmt list \<Rightarrow> 's \<Rightarrow> bool" where
  "notifies [] d \<longleftrightarrow> False"
| "notifies (Assign f # xs) d \<longleftrightarrow> notifies xs (f d)"
| "notifies (NotifyIf c # xs) d \<longleftrightarrow> c d \<or> notifies xs d"
| "notifies (Post # xs) d \<longleftrightarrow> notifies xs d"

text \<open>The threads as the code runs them.\<close>

datatype ('s, 'o) mon_pc =
  Outside | Locking 'o | Testing 'o | Sleeping 'o | Inside 'o "'s stmt list"

record ('s, 'o) monitor =
  mon_mutex :: mutex
  mon_data :: 's
  mon_pc :: "nat \<Rightarrow> ('s, 'o) mon_pc"

definition goto :: "nat \<Rightarrow> ('s, 'o) mon_pc \<Rightarrow> ('s, 'o) monitor \<Rightarrow> ('s, 'o) monitor" where
  "goto t pc S = S\<lparr>mon_pc := (mon_pc S)(t := pc)\<rparr>"

fun awake :: "('s, 'o) mon_pc \<Rightarrow> ('s, 'o) mon_pc" where
  "awake (Sleeping op) = Locking op"
| "awake pc = pc"

definition sleepers :: "('s, 'o) monitor \<Rightarrow> nat set" where
  "sleepers S = {t. \<exists>op. mon_pc S t = Sleeping op}"

definition wake_all :: "('s, 'o) monitor \<Rightarrow> ('s, 'o) monitor" where
  "wake_all S = S\<lparr>mon_pc := awake \<circ> mon_pc S\<rparr>"

inductive mon_step :: "('s, 'o) regions \<Rightarrow> ('s, 'o) monitor \<Rightarrow> ('s, 'o) monitor \<Rightarrow> bool" for R where
  call: "mon_pc S t = Outside \<Longrightarrow> mon_step R S (goto t (Locking op) S)"
| lock: "mon_pc S t = Locking op \<Longrightarrow> MutexGroud_ctor t (mon_mutex S) = Some m \<Longrightarrow>
    mon_step R S (goto t (Testing op) (S\<lparr>mon_mutex := m\<rparr>))"
| pass: "mon_pc S t = Testing op \<Longrightarrow> guard R op (mon_data S) \<Longrightarrow>
    mon_step R S (goto t (Inside op (body R op)) S)"
| wait: "mon_pc S t = Testing op \<Longrightarrow> \<not> guard R op (mon_data S) \<Longrightarrow>
    mon_step R S (goto t (Sleeping op) (S\<lparr>mon_mutex := MutexGroud_dtor (mon_mutex S)\<rparr>))"
| spurious: "mon_pc S t = Sleeping op \<Longrightarrow> mon_step R S (goto t (Locking op) S)"
| assign: "mon_pc S t = Inside op (Assign f # xs) \<Longrightarrow>
    mon_step R S (goto t (Inside op xs) (S\<lparr>mon_data := f (mon_data S)\<rparr>))"
| notify: "mon_pc S t = Inside op (NotifyIf c # xs) \<Longrightarrow>
    mon_step R S (goto t (Inside op xs) (if c (mon_data S) then wake_all S else S))"
| signal: "mon_pc S t = Inside op (Post # xs) \<Longrightarrow> mon_pc S u = Sleeping op' \<Longrightarrow>
    mon_step R S (goto t (Inside op xs) (goto u (Locking op') S))"
| signal_none: "mon_pc S t = Inside op (Post # xs) \<Longrightarrow> sleepers S = {} \<Longrightarrow>
    mon_step R S (goto t (Inside op xs) S)"
| unlock: "mon_pc S t = Inside op [] \<Longrightarrow>
    mon_step R S (goto t Outside (S\<lparr>mon_mutex := MutexGroud_dtor (mon_mutex S)\<rparr>))"

definition mon_init :: "mutex \<Rightarrow> 's \<Rightarrow> ('s, 'o) monitor" where
  "mon_init m d = \<lparr>mon_mutex = m, mon_data = d, mon_pc = (\<lambda>_. Outside)\<rparr>"

text \<open>The threads as the other theories take them: a region is one step.\<close>

datatype 'o region_pc = Out | Wants 'o | Asleep_in 'o

record ('s, 'o) region_state =
  rg_data :: 's
  rg_pc :: "nat \<Rightarrow> 'o region_pc"

fun ready :: "'o region_pc \<Rightarrow> 'o region_pc" where
  "ready (Asleep_in op) = Wants op"
| "ready pc = pc"

inductive region_step :: "('s, 'o) regions \<Rightarrow> ('s, 'o) region_state \<Rightarrow> ('s, 'o) region_state \<Rightarrow> bool" for R where
  ask: "rg_pc A t = Out \<Longrightarrow> region_step R A (A\<lparr>rg_pc := (rg_pc A)(t := Wants op)\<rparr>)"
| sleep: "rg_pc A t = Wants op \<Longrightarrow> \<not> guard R op (rg_data A) \<Longrightarrow>
    region_step R A (A\<lparr>rg_pc := (rg_pc A)(t := Asleep_in op)\<rparr>)"
| run: "rg_pc A t = Wants op \<Longrightarrow> guard R op (rg_data A) \<Longrightarrow>
    region_step R A \<lparr>rg_data = effect (body R op) (rg_data A),
      rg_pc = (if notifies (body R op) (rg_data A) then ready \<circ> (rg_pc A)(t := Out) else (rg_pc A)(t := Out))\<rparr>"
| wake: "rg_pc A t = Asleep_in op \<Longrightarrow> region_step R A (A\<lparr>rg_pc := (rg_pc A)(t := Wants op)\<rparr>)"

section \<open>The simulation\<close>

fun rest_of :: "('s, 'o) mon_pc \<Rightarrow> 's stmt list" where
  "rest_of (Inside op xs) = xs"
| "rest_of _ = []"

text \<open>What the holder of the mutex still has to do.\<close>

definition unfinished :: "('s, 'o) monitor \<Rightarrow> 's stmt list" where
  "unfinished S = (case mx_owner (mon_mutex S) of None \<Rightarrow> [] | Some t \<Rightarrow> rest_of (mon_pc S t))"

fun region_pc_of :: "bool \<Rightarrow> ('s, 'o) mon_pc \<Rightarrow> 'o region_pc" where
  "region_pc_of waking (Locking op) = Wants op"
| "region_pc_of waking (Testing op) = Wants op"
| "region_pc_of waking (Sleeping op) = (if waking then Wants op else Asleep_in op)"
| "region_pc_of waking _ = Out"

definition regions_of :: "('s, 'o) monitor \<Rightarrow> ('s, 'o) region_state" where
  "regions_of S = \<lparr>rg_data = effect (unfinished S) (mon_data S),
     rg_pc = region_pc_of (notifies (unfinished S) (mon_data S)) \<circ> mon_pc S\<rparr>"

fun in_region :: "('s, 'o) mon_pc \<Rightarrow> bool" where
  "in_region (Testing op) = True"
| "in_region (Inside op xs) = True"
| "in_region _ = False"

text \<open>A thread is in a region exactly if it holds the mutex.\<close>

definition mon_inv :: "('s, 'o) monitor \<Rightarrow> bool" where
  "mon_inv S \<longleftrightarrow> (\<forall>t. in_region (mon_pc S t) \<longleftrightarrow> mx_owner (mon_mutex S) = Some t)"

lemma goto_simps [simp]:
  "mon_mutex (goto t pc S) = mon_mutex S" "mon_data (goto t pc S) = mon_data S"
  "mon_pc (goto t pc S) = (mon_pc S)(t := pc)"
  by (simp_all add: goto_def)

lemma wake_all_simps [simp]:
  "mon_mutex (wake_all S) = mon_mutex S" "mon_data (wake_all S) = mon_data S"
  "mon_pc (wake_all S) = awake \<circ> mon_pc S"
  by (simp_all add: wake_all_def)

lemma awake_simps [simp]:
  "in_region (awake pc) = in_region pc" "rest_of (awake pc) = rest_of pc"
  "region_pc_of b (awake pc) = region_pc_of True pc"
  by (cases pc; simp)+

text \<open>The steps do to the mutex and the sleeping threads what the calls of \<open>Cond\<close> do.\<close>

lemma steps_are_calls:
  "sleepers (wake_all S) = Cond_notify_all (sleepers S)"
  "mon_pc S u = Sleeping op' \<Longrightarrow> sleepers (goto u (Locking op') S) = Cond_post u (sleepers S)"
  "(mon_mutex (goto t (Sleeping op) (S\<lparr>mon_mutex := MutexGroud_dtor (mon_mutex S)\<rparr>)),
    sleepers (goto t (Sleeping op) (S\<lparr>mon_mutex := MutexGroud_dtor (mon_mutex S)\<rparr>))) =
   Cond_wait_sleep t (mon_mutex S, sleepers S)"
proof -
  have "awake pc \<noteq> Sleeping op" for pc :: "('a, 'b) mon_pc" and op by (cases pc) auto
  then show "sleepers (wake_all S) = Cond_notify_all (sleepers S)"
    by (auto simp: sleepers_def Cond_notify_all_def)
qed (auto simp: sleepers_def Cond_post_def Cond_wait_sleep_def)

lemma guard_simps [simp]:
  "MutexGroud_ctor t m = Some m' \<longleftrightarrow> mx_owner m = None \<and> m' = m\<lparr>mx_owner := Some t\<rparr>"
  "mx_owner (MutexGroud_dtor m) = None"
  by (auto simp: MutexGroud_ctor_def Mutex_lock_def MutexGroud_dtor_def Mutex_unlock_def)

lemma mon_inv_init: "mx_owner m = None \<Longrightarrow> mon_inv (mon_init m d)"
  by (simp add: mon_inv_def mon_init_def)

lemma owner_of: "mon_inv S \<Longrightarrow> in_region (mon_pc S t) \<Longrightarrow> mx_owner (mon_mutex S) = Some t"
  by (simp add: mon_inv_def)

lemma not_owner: "mon_inv S \<Longrightarrow> \<not> in_region (mon_pc S t) \<Longrightarrow> mx_owner (mon_mutex S) \<noteq> Some t"
  by (simp add: mon_inv_def)

lemma mon_inv_goto:
  assumes "mon_inv S" "in_region pc = in_region (mon_pc S t)"
  shows "mon_inv (goto t pc S)"
  using assms by (simp add: mon_inv_def)

lemma mon_inv_lock:
  assumes "mon_inv S" "mx_owner (mon_mutex S) = None" "in_region pc" "mx_owner m = Some t"
  shows "mon_inv (goto t pc (S\<lparr>mon_mutex := m\<rparr>))"
  using assms by (simp add: mon_inv_def)

lemma mon_inv_unlock:
  assumes "mon_inv S" "in_region (mon_pc S t)" "\<not> in_region pc" "mx_owner m = None"
  shows "mon_inv (goto t pc (S\<lparr>mon_mutex := m\<rparr>))"
  using assms owner_of [OF assms(1,2)] by (simp add: mon_inv_def)

lemma mon_inv_data [simp]: "mon_inv (S\<lparr>mon_data := d\<rparr>) = mon_inv S"
  by (simp add: mon_inv_def)

lemma mon_inv_wake_all [simp]: "mon_inv (wake_all S) = mon_inv S"
  by (simp add: mon_inv_def)

lemma mon_inv_step: "mon_step R S S' \<Longrightarrow> mon_inv S \<Longrightarrow> mon_inv S'"
proof (induction rule: mon_step.induct)
  case (signal S t op xs u op')
  then have "mon_inv (goto u (Locking op') S)" by (intro mon_inv_goto) simp_all
  then show ?case using signal by (intro mon_inv_goto) auto
next
  case (lock S t op m)
  then show ?case by (intro mon_inv_lock) auto
next
  case (wait S t op)
  then show ?case by (intro mon_inv_unlock) auto
next
  case (unlock S t op)
  then show ?case by (intro mon_inv_unlock) auto
qed (auto intro!: mon_inv_goto)

lemma ready_region_pc [simp]: "ready (region_pc_of b pc) = region_pc_of True pc"
  by (cases pc) auto

lemma unfinished_in [simp]: "mx_owner (mon_mutex S) = Some t \<Longrightarrow> unfinished S = rest_of (mon_pc S t)"
  by (simp add: unfinished_def)

lemma unfinished_goto_out:
  assumes "mon_inv S" "\<not> in_region (mon_pc S t)"
  shows "unfinished (goto t pc S) = unfinished S"
  using not_owner [OF assms] by (auto simp: unfinished_def split: option.splits)

text \<open>A statement that keeps what will become of the data, of the notification and of every
  thread is no step of the regions; one that makes a sleeping thread run is a \<open>wake\<close>, unless a
  pending notification has already woken it.\<close>

lemma same_regions:
  assumes "effect (unfinished S') (mon_data S') = effect (unfinished S) (mon_data S)"
    and "\<And>v. region_pc_of (notifies (unfinished S') (mon_data S')) (mon_pc S' v) =
      region_pc_of (notifies (unfinished S) (mon_data S)) (mon_pc S v)"
  shows "regions_of S' = regions_of S \<or> region_step R (regions_of S) (regions_of S')"
  using assms by (simp add: regions_of_def fun_eq_iff)

lemma woken_regions:
  assumes "mon_pc S u = Sleeping op" and "effect (unfinished S') (mon_data S') = effect (unfinished S) (mon_data S)"
    and "notifies (unfinished S') (mon_data S') = notifies (unfinished S) (mon_data S)"
    and "\<And>b v. region_pc_of b (mon_pc S' v) = (if v = u then Wants op else region_pc_of b (mon_pc S v))"
  shows "regions_of S' = regions_of S \<or> region_step R (regions_of S) (regions_of S')"
proof (cases "notifies (unfinished S) (mon_data S)")
  case True
  then show ?thesis using assms by (intro same_regions) auto
next
  case False
  have "region_step R (regions_of S) ((regions_of S)\<lparr>rg_pc := (rg_pc (regions_of S))(u := Wants op)\<rparr>)"
    by (rule region_step.wake) (simp add: regions_of_def assms(1) False)
  also have "(regions_of S)\<lparr>rg_pc := (rg_pc (regions_of S))(u := Wants op)\<rparr> = regions_of S'"
    using assms False by (simp add: regions_of_def fun_eq_iff)
  finally show ?thesis ..
qed

text \<open>Each statement is a step at once, or none.\<close>

lemma mon_step_simulates:
  assumes "mon_step R S S'" "mon_inv S"
  shows "regions_of S' = regions_of S \<or> region_step R (regions_of S) (regions_of S')"
  using assms
proof (induction rule: mon_step.induct)
  case (call S t op)
  have "region_step R (regions_of S) ((regions_of S)\<lparr>rg_pc := (rg_pc (regions_of S))(t := Wants op)\<rparr>)"
    by (rule region_step.ask) (simp add: regions_of_def call)
  also have "(regions_of S)\<lparr>rg_pc := (rg_pc (regions_of S))(t := Wants op)\<rparr> = regions_of (goto t (Locking op) S)"
    using call by (auto simp: regions_of_def unfinished_goto_out fun_eq_iff)
  finally show ?case ..
next
  case (pass S t op)
  have o: "mx_owner (mon_mutex S) = Some t" using pass owner_of [of S t] by simp
  have "region_step R (regions_of S) \<lparr>rg_data = effect (body R op) (rg_data (regions_of S)),
      rg_pc = (if notifies (body R op) (rg_data (regions_of S)) then ready \<circ> (rg_pc (regions_of S))(t := Out)
        else (rg_pc (regions_of S))(t := Out))\<rparr>"
    by (rule region_step.run) (use pass o in \<open>simp_all add: regions_of_def\<close>)
  also have "\<dots> = regions_of (goto t (Inside op (body R op)) S)"
    using pass o by (auto simp: regions_of_def fun_eq_iff)
  finally show ?case ..
next
  case (wait S t op)
  let ?S = "goto t (Sleeping op) (S\<lparr>mon_mutex := MutexGroud_dtor (mon_mutex S)\<rparr>)"
  have u: "unfinished S = []" "unfinished ?S = []"
    using wait owner_of [of S t] by (simp_all add: unfinished_def)
  have "region_step R (regions_of S) ((regions_of S)\<lparr>rg_pc := (rg_pc (regions_of S))(t := Asleep_in op)\<rparr>)"
    by (rule region_step.sleep) (use wait u in \<open>simp_all add: regions_of_def\<close>)
  also have "(regions_of S)\<lparr>rg_pc := (rg_pc (regions_of S))(t := Asleep_in op)\<rparr> = regions_of ?S"
    unfolding regions_of_def u by (auto simp: fun_eq_iff)
  finally show ?case ..
next
  case (spurious S t op)
  then show ?case by (intro woken_regions [of S t op]) (auto simp: unfinished_goto_out)
next
  case (signal S t op xs u op')
  then have "mx_owner (mon_mutex S) = Some t" "u \<noteq> t" using owner_of [of S t] by auto
  then show ?case using signal by (intro woken_regions [of S u op']) auto
next
  case (lock S t op m)
  then show ?case by (intro same_regions) (auto simp: unfinished_def)
next
  case (assign S t op f xs)
  then show ?case using owner_of [of S t] by (intro same_regions) auto
next
  case (notify S t op c xs)
  then show ?case using owner_of [of S t] by (intro same_regions) auto
next
  case (signal_none S t op xs)
  then show ?case using owner_of [of S t] by (intro same_regions) auto
next
  case (unlock S t op)
  then show ?case using owner_of [of S t] by (intro same_regions) (auto simp: unfinished_def)
qed

section \<open>No thread sleeps on a guard that holds\<close>

text \<open>
  The contract of the regions over one mutex and one condition: whichever makes the guard of
  another true notifies all threads. Then in no execution does a thread sleep on a true guard.
\<close>

locale notifying =
  fixes R :: "('s, 'o) regions"
  assumes notify_when_true: "guard R op d \<Longrightarrow> \<not> guard R op' d \<Longrightarrow>
    guard R op' (effect (body R op) d) \<Longrightarrow> notifies (body R op) d"
begin

definition none_sleeps :: "('s, 'o) region_state \<Rightarrow> bool" where
  "none_sleeps A \<longleftrightarrow> (\<forall>t op. rg_pc A t = Asleep_in op \<longrightarrow> \<not> guard R op (rg_data A))"

lemma ready_awake: "ready pc \<noteq> Asleep_in op"
  by (cases pc) auto

lemma region_step_none_sleeps: "region_step R A B \<Longrightarrow> none_sleeps A \<Longrightarrow> none_sleeps B"
proof (induction rule: region_step.induct)
  case (run A t op)
  then show ?case using notify_when_true [of op "rg_data A"]
    by (auto simp: none_sleeps_def ready_awake)
qed (auto simp: none_sleeps_def)

lemma mon_none_sleeps:
  assumes "(mon_step R)\<^sup>*\<^sup>* (mon_init m d) S" "mx_owner m = None"
  shows "mon_inv S \<and> none_sleeps (regions_of S)"
  using assms
proof (induction rule: rtranclp_induct)
  case base
  then show ?case
    by (simp add: mon_inv_init none_sleeps_def regions_of_def) (simp add: mon_init_def)
next
  case (step S S')
  then show ?case
    using mon_inv_step [OF step.hyps(2)] mon_step_simulates [OF step.hyps(2)] region_step_none_sleeps by metis
qed

lemma sleeper_waits:
  assumes "(mon_step R)\<^sup>*\<^sup>* (mon_init m d) S" "mx_owner m = None"
    and "mx_owner (mon_mutex S) = None" "mon_pc S t = Sleeping op"
  shows "\<not> guard R op (mon_data S)"
proof -
  have "none_sleeps (regions_of S)" using mon_none_sleeps [OF assms(1,2)] ..
  then show ?thesis using assms(3,4) unfolding none_sleeps_def
    by (auto simp: regions_of_def unfinished_def dest: spec [of _ t])
qed

end

text \<open>The latch of \<open>count_down_latch.cpp\<close>: its three regions.\<close>

datatype latch_op = LatchWait | LatchDown | LatchGet

definition latch_regions :: "(int, latch_op) regions" where
  "latch_regions = \<lparr>guard = (\<lambda>op n. op = LatchWait \<longrightarrow> n \<le> 0),
     body = (\<lambda>op. if op = LatchDown then [Assign (\<lambda>n. n - 1), NotifyIf (\<lambda>n. n = 0)] else [])\<rparr>"

text \<open>They are the operations of the latch in \<open>Base_Thread\<close>.\<close>

lemma latch_regions_agree:
  "la_count (count_down L) = effect (body latch_regions LatchDown) (la_count L)"
  "count_down L = (if notifies (body latch_regions LatchDown) (la_count L)
     then notify_all (L\<lparr>la_count := la_count L - 1\<rparr>) else L\<lparr>la_count := la_count L - 1\<rparr>)"
  "la_pc (latch_test t L) t = (if guard latch_regions LatchWait (la_count L) then Returned else Asleep)"
  by (auto simp: latch_regions_def count_down_def latch_test_def notify_all_def Let_def)

interpretation latch: notifying latch_regions
  by unfold_locales (auto simp: latch_regions_def split: if_splits)

section \<open>Properties\<close>



text \<open>The latch with its mutex and condition, statement by statement: in no execution does a
  thread sleep in \<open>wait\<close> while the mutex is free and the count is zero or less.\<close>

theorem latch_sleeper_has_count:
  assumes "(mon_step latch_regions)\<^sup>*\<^sup>* (mon_init m n) S" and "Mutex_ctor False = Inr m"
    and "mx_owner (mon_mutex S) = None" and "mon_pc S t = Sleeping LatchWait"
  shows "0 < mon_data S"
proof -
  have "mx_owner m = None" using assms(2) by (auto simp: Mutex_ctor_def)
  from latch.sleeper_waits [OF assms(1) this assms(3,4)] show ?thesis by (simp add: latch_regions_def)
qed

end
