(* ===== verification/Base_Logging.thy ===== *)
theory Base_Logging
  imports Base_LogStream Base_TimeZone Base_Thread Base_TimeStamp
begin

text \<open>
  The logger (\<open>base/logging.h\<close>, \<open>base/logging.cpp\<close>): a log statement makes a \<open>Logger\<close>,
  which writes the time, the thread, the level and the error into its stream; the destructor adds
  the place in the source, hands the record to the output function and aborts the program for a
  fatal one.

  The clock, \<open>gmtime_r\<close>, \<open>strerror_r\<close> and \<open>gettid\<close> are arguments, and so is the value of
  \<open>m_line\<close>, which no constructor sets. The components that call the logger are modelled without
  these effects: there a log statement below the level FATAL has none.
\<close>

datatype log_level = TRACE | DEBUG | INFO | WARN | ERROR | FATAL

fun level_num :: "log_level \<Rightarrow> nat" where
  "level_num TRACE = 0" | "level_num DEBUG = 1" | "level_num INFO = 2"
| "level_num WARN = 3" | "level_num ERROR = 4" | "level_num FATAL = 5"

text \<open>The comparison of two levels is that of the numbers of the enumeration.\<close>

lemma level_num_inject: "level_num a = level_num b \<longleftrightarrow> a = b"
  by (cases a; cases b; simp)

instantiation log_level :: linorder
begin

definition less_eq_log_level :: "log_level \<Rightarrow> log_level \<Rightarrow> bool" where
  "less_eq_log_level a b \<longleftrightarrow> level_num a \<le> level_num b"

definition less_log_level :: "log_level \<Rightarrow> log_level \<Rightarrow> bool" where
  "less_log_level a b \<longleftrightarrow> level_num a < level_num b"

instance
  by standard (auto simp: less_eq_log_level_def less_log_level_def level_num_inject [symmetric])

end

text \<open>\<open>init_log_level\<close>: whether the two environment variables are set.\<close>

definition init_log_level :: "bool \<Rightarrow> bool \<Rightarrow> log_level" where
  "init_log_level trace_set debug_set = (if trace_set then TRACE else if debug_set then DEBUG else INFO)"

text \<open>The test in front of the macros \<open>LOG_TRACE\<close>, \<open>LOG_DEBUG\<close> and \<open>LOG_INFO\<close>; the others
  have none.\<close>

definition log_enabled :: "log_level \<Rightarrow> log_level \<Rightarrow> bool" where
  "log_enabled g_loglevel level \<longleftrightarrow>
     (if level \<in> {TRACE, DEBUG, INFO} then g_loglevel \<le> level else True)"

fun log_m_levelname :: "log_level \<Rightarrow> string" where
  "log_m_levelname TRACE = ''TRACE''" | "log_m_levelname DEBUG = ''DEBUG''"
| "log_m_levelname INFO = ''INFO''" | "log_m_levelname WARN = ''WARN''"
| "log_m_levelname ERROR = ''ERROR''" | "log_m_levelname FATAL = ''FATAL''"

section \<open>SourceFile\<close>

record source_file =
  sf_data :: cptr
  sf_size :: int

text \<open>From an array of \<open>N\<close> characters, and from a pointer: both cut at the first slash.\<close>

definition SourceFile_array :: "string \<Rightarrow> source_file" where
  "SourceFile_array arr =
     (case find_char (CHR ''/'') arr of
        None \<Rightarrow> \<lparr>sf_data = cstr arr, sf_size = int (length arr)\<rparr>
      | Some slash \<Rightarrow> \<lparr>sf_data = ptr_add (cstr arr) (int slash + 1),
                       sf_size = int (length arr) - (int slash + 1)\<rparr>)"

definition SourceFile_ptr :: "string \<Rightarrow> source_file res" where
  "SourceFile_ptr filename =
     (let p = (case find_char (CHR ''/'') filename of
                 None \<Rightarrow> cstr filename | Some slash \<Rightarrow> ptr_add (cstr filename) (int slash + 1)) in
      andThen (strlen p) (\<lambda>n. Inr \<lparr>sf_data = p, sf_size = to_int32 (int n)\<rparr>))"

lemma SourceFile_after_first_slash:
  assumes "CHR ''/'' \<notin> set d"
  shows "ptr_read (sf_data (SourceFile_array (d @ ''/'' @ f)))
    (nat (sf_size (SourceFile_array (d @ ''/'' @ f)))) = Inr f"
proof -
  have "nat (int (length d) + 1) = length d + 1" by simp
  then show ?thesis
    using find_char_append [OF assms, of f] by (simp add: SourceFile_array_def cstr_def read_at_def)
qed

section \<open>Writing a record\<close>

text \<open>The helper class \<open>T\<close>: a string with its length, asserted to be right.\<close>

definition T_ctor :: "bool \<Rightarrow> cptr \<Rightarrow> nat \<Rightarrow> unit res" where
  "T_ctor dbg str len =
     (if dbg then andThen (strlen str) (\<lambda>n. cassert True (n = len) (Inr ())) else Inr ())"

definition put_T :: "bool \<Rightarrow> cptr \<Rightarrow> nat \<Rightarrow> fixbuf \<Rightarrow> fixbuf res" where
  "put_T dbg str len s = andThen (T_ctor dbg str len) (\<lambda>_. LogStream_append str (int len) s)"

definition put_source :: "source_file \<Rightarrow> fixbuf \<Rightarrow> fixbuf res" where
  "put_source v s = LogStream_append (sf_data v) (sf_size v) s"

definition put_level :: "bool \<Rightarrow> log_level \<Rightarrow> fixbuf \<Rightarrow> fixbuf res" where
  "put_level dbg level s = put_T dbg (cstr (log_m_levelname level)) 6 s"

record log_thread =
  lt_data :: thread_data
  t_time :: string
  t_last_second :: int

definition time_text :: "tm \<Rightarrow> string" where
  "time_text t =
     blank_pad 4 (tm_year t + 1900) @ zero_pad 2 (tm_mon t + 1) @ zero_pad 2 (tm_mday t) @ '' '' @
     zero_pad 2 (tm_hour t) @ '':'' @ zero_pad 2 (tm_min t) @ '':'' @ zero_pad 2 (tm_sec t)"

text \<open>\<open>TimeStamp::to_formatted_string\<close> prints the same fields, from \<open>gmtime_r\<close>.\<close>

definition to_formatted_string :: "(int \<Rightarrow> tm) \<Rightarrow> bool \<Rightarrow> timestamp \<Rightarrow> string" where
  "to_formatted_string gmtime show_micro t =
     (let tm_time = gmtime (t sdiv k_micro_seconds_persecond);
          microseconds = to_int32 (t smod k_micro_seconds_persecond) in
      take 63 (time_text tm_time @ (if show_micro then CHR ''.'' # zero_pad 6 microseconds else [])))"

definition format_time ::
    "bool \<Rightarrow> (int \<Rightarrow> tm) \<Rightarrow> tz_data option option \<Rightarrow> int \<Rightarrow> string \<Rightarrow> log_thread \<Rightarrow> fixbuf \<Rightarrow>
     (log_thread \<times> fixbuf) res" where
  "format_time dbg gmtime zone micro junk tls s =
     (let seconds = micro sdiv 1000000; micro_seconds = to_int32 (micro smod 1000000) in
      andThen
       (if seconds \<noteq> t_last_second tls
        then andThen (case zone of Some z \<Rightarrow> to_local_time dbg gmtime z seconds | None \<Rightarrow> Inr (gmtime seconds))
               (\<lambda>tm_time. cassert dbg (length (time_text tm_time) = 17)
                 (Inr (tls\<lparr>t_last_second := seconds, t_time := take 63 (time_text tm_time)\<rparr>)))
        else Inr tls) (\<lambda>tls1.
       case zone of
         Some z \<Rightarrow>
           andThen (Fmt_ctor dbg junk (''.'' @ zero_pad 6 micro_seconds @ '' '')) (\<lambda>us.
           cassert dbg (fmt_length us = 8)
            (andThen (put_T dbg (cstr (t_time tls1)) 17 s) (\<lambda>s1.
             andThen (put_T dbg (Ptr (fmt_buf us) 0) 8 s1) (\<lambda>s2. Inr (tls1, s2)))))
       | None \<Rightarrow>
           andThen (Fmt_ctor dbg junk (zero_pad 6 micro_seconds @ ''Z '')) (\<lambda>us.
           cassert dbg (fmt_length us = 9)
            (andThen (put_T dbg (cstr (t_time tls1)) 17 s) (\<lambda>s1.
             andThen (put_T dbg (Ptr (fmt_buf us) 0) 9 s1) (\<lambda>s2. Inr (tls1, s2)))))))"

record logger =
  lg_stream :: fixbuf
  lg_line :: int
  lg_level :: log_level
  lg_file :: source_file

record log_world =
  lw_gmtime :: "int \<Rightarrow> tm"
  lw_zone :: "tz_data option option"
  lw_now :: int
  lw_gettid :: int
  lw_strerror :: "int \<Rightarrow> cptr"
  lw_line :: int
  lw_buffer :: string
  lw_fmt :: string

definition Logger_Impl ::
    "bool \<Rightarrow> log_world \<Rightarrow> log_level \<Rightarrow> int \<Rightarrow> source_file \<Rightarrow> log_thread \<Rightarrow> (logger \<times> log_thread) res" where
  "Logger_Impl dbg w level saved_no file tls =
     andThen (format_time dbg (lw_gmtime w) (lw_zone w) (lw_now w) (lw_fmt w) tls (FixBuffer (lw_buffer w)))
      (\<lambda>(tls1, s1).
      let (_, td) = tid (lw_gettid w) (lt_data tls1); tls2 = tls1\<lparr>lt_data := td\<rparr> in
      andThen (put_T dbg (cstr (t_tid_string td)) (nat (t_tid_length td)) s1) (\<lambda>s2.
      andThen (put_level dbg level s2) (\<lambda>s3.
      andThen
       (if saved_no \<noteq> 0
        then andThen (put_cstr (lw_strerror w saved_no) s3) (\<lambda>s4.
             andThen (put_cstr (cstr ''(errno = '') s4) (\<lambda>s5.
             andThen (put_int saved_no s5) (put_cstr (cstr '')''))))
        else Inr s3)
       (\<lambda>s. Inr (\<lparr>lg_stream = s, lg_line = lw_line w, lg_level = level, lg_file = file\<rparr>, tls2)))))"

text \<open>The four constructors.\<close>

definition Logger_info :: "bool \<Rightarrow> log_world \<Rightarrow> source_file \<Rightarrow> log_thread \<Rightarrow> (logger \<times> log_thread) res" where
  "Logger_info dbg w file tls = Logger_Impl dbg w INFO 0 file tls"

definition Logger_func ::
    "bool \<Rightarrow> log_world \<Rightarrow> source_file \<Rightarrow> log_level \<Rightarrow> string \<Rightarrow> log_thread \<Rightarrow> (logger \<times> log_thread) res" where
  "Logger_func dbg w file level func tls =
     andThen (Logger_Impl dbg w level 0 file tls) (\<lambda>(l, tls1).
     andThen (put_cstr (cstr func) (lg_stream l)) (\<lambda>s.
     andThen (FixBuffer_append (Ptr '' '' 0) 1 s) (\<lambda>s'. Inr (l\<lparr>lg_stream := s'\<rparr>, tls1))))"

definition Logger_level ::
    "bool \<Rightarrow> log_world \<Rightarrow> source_file \<Rightarrow> log_level \<Rightarrow> log_thread \<Rightarrow> (logger \<times> log_thread) res" where
  "Logger_level dbg w file level tls = Logger_Impl dbg w level 0 file tls"

definition Logger_sys ::
    "bool \<Rightarrow> log_world \<Rightarrow> source_file \<Rightarrow> bool \<Rightarrow> int \<Rightarrow> log_thread \<Rightarrow> (logger \<times> log_thread) res" where
  "Logger_sys dbg w file toAbort errno tls =
     Logger_Impl dbg w (if toAbort then FATAL else ERROR) errno file tls"

definition Logger_finish :: "logger \<Rightarrow> fixbuf res" where
  "Logger_finish l =
     andThen (put_cstr (cstr '' - '') (lg_stream l)) (\<lambda>s1.
     andThen (put_source (lg_file l) s1) (\<lambda>s2.
     andThen (FixBuffer_append (Ptr '':'' 0) 1 s2) (\<lambda>s3.
     andThen (put_int (lg_line l) s3) (\<lambda>s4.
     FixBuffer_append (Ptr [CHR 0x0A] 0) 1 s4))))"

text \<open>The destructor: the record given to the output function, and whether the program goes on.\<close>

definition Logger_dtor :: "logger \<Rightarrow> (string \<times> bool) res" where
  "Logger_dtor l =
     andThen (Logger_finish l) (\<lambda>s.
     andThen (ptr_read (Ptr (m_data s) 0) (sz_of_int (fb_length s))) (\<lambda>msg.
     Inr (msg, lg_level l \<noteq> FATAL)))"

definition CheckNotNull :: "bool \<Rightarrow> 'a res \<Rightarrow> 'a res" where
  "CheckNotNull is_null k = (if is_null then Inl LogFatal else k)"

section \<open>The globals\<close>

text \<open>
  The level, the output and the flush function and the time zone are global variables with setters.
  The functions work on a state \<open>'io\<close>; the default ones on \<open>stdout\<close>, which buffers what
  \<open>fwrite\<close> takes (\<open>taken\<close> characters) until it is flushed. \<open>abort\<close> does not flush it.
\<close>

record 'io log_globals =
  g_loglevel :: log_level
  g_output :: "string \<Rightarrow> 'io \<Rightarrow> 'io"
  g_flush :: "'io \<Rightarrow> 'io"
  g_log_time_zone :: "tz_data option option"

record stdout =
  so_buffered :: string
  so_flushed :: string

definition default_output :: "(string \<Rightarrow> nat) \<Rightarrow> string \<Rightarrow> stdout \<Rightarrow> stdout" where
  "default_output taken msg F = F\<lparr>so_buffered := so_buffered F @ take (taken msg) msg\<rparr>"

definition default_flush :: "stdout \<Rightarrow> stdout" where
  "default_flush F = F\<lparr>so_flushed := so_flushed F @ so_buffered F, so_buffered := []\<rparr>"

definition default_globals :: "(string \<Rightarrow> nat) \<Rightarrow> bool \<Rightarrow> bool \<Rightarrow> stdout log_globals" where
  "default_globals taken trace_set debug_set =
     \<lparr>g_loglevel = init_log_level trace_set debug_set, g_output = default_output taken,
      g_flush = default_flush, g_log_time_zone = None\<rparr>"

definition set_log_level :: "log_level \<Rightarrow> 'io log_globals \<Rightarrow> 'io log_globals" where
  "set_log_level level G = G\<lparr>g_loglevel := level\<rparr>"

definition set_out_put :: "(string \<Rightarrow> 'io \<Rightarrow> 'io) \<Rightarrow> 'io log_globals \<Rightarrow> 'io log_globals" where
  "set_out_put out G = G\<lparr>g_output := out\<rparr>"

definition set_flush :: "('io \<Rightarrow> 'io) \<Rightarrow> 'io log_globals \<Rightarrow> 'io log_globals" where
  "set_flush flush G = G\<lparr>g_flush := flush\<rparr>"

definition set_time_zone :: "tz_data option option \<Rightarrow> 'io log_globals \<Rightarrow> 'io log_globals" where
  "set_time_zone tz G = G\<lparr>g_log_time_zone := tz\<rparr>"

text \<open>The end of a record on these globals: the state of the output and whether the program goes on.\<close>

definition emit_record :: "'io log_globals \<Rightarrow> logger \<Rightarrow> 'io \<Rightarrow> ('io \<times> bool) res" where
  "emit_record G l io =
     andThen (Logger_dtor l) (\<lambda>(msg, goes_on).
       let io1 = g_output G msg io in Inr (if goes_on then io1 else g_flush G io1, goes_on))"

text \<open>A whole statement: with the level off nothing happens, not even the arguments are evaluated.\<close>

definition log_statement ::
    "log_level \<Rightarrow> (tz_data option option \<Rightarrow> log_thread \<Rightarrow> (logger \<times> log_thread) res) \<Rightarrow> (fixbuf \<Rightarrow> fixbuf res) \<Rightarrow>
     'io log_globals \<Rightarrow> log_thread \<times> 'io \<Rightarrow> (log_thread \<times> 'io \<times> bool) res" where
  "log_statement level mk args G st = (case st of (tls, io) \<Rightarrow>
     if log_enabled (g_loglevel G) level
     then andThen (mk (g_log_time_zone G) tls) (\<lambda>(l, tls1).
          andThen (args (lg_stream l)) (\<lambda>s.
          andThen (emit_record G (l\<lparr>lg_stream := s\<rparr>) io) (\<lambda>(io1, goes_on). Inr (tls1, io1, goes_on))))
     else Inr (tls, io, True))"

lemma log_statement_off:
  "level < g_loglevel G \<Longrightarrow> level \<in> {TRACE, DEBUG, INFO} \<Longrightarrow>
   log_statement level mk args G (tls, io) = Inr (tls, io, True)"
  by (auto simp: log_statement_def log_enabled_def)

text \<open>With the default functions a record reaches \<open>stdout\<close>, and a fatal one is flushed before the
  program aborts.\<close>

lemma fatal_record_is_flushed:
  assumes "emit_record (default_globals taken t d) l F = Inr (F', goes_on)"
    and "Logger_dtor l = Inr (msg, alive)" and "length msg \<le> taken msg"
  shows "goes_on = (lg_level l \<noteq> FATAL)"
    and "so_flushed F' @ so_buffered F' = so_flushed F @ so_buffered F @ msg"
    and "\<not> goes_on \<Longrightarrow> so_buffered F' = []"
  using assms
  by (auto simp: emit_record_def default_globals_def default_output_def default_flush_def Logger_dtor_def
      res_simps Let_def split: if_splits)

section \<open>Properties\<close>

text \<open>The names of the levels have four or five characters; the code gives their length as six.\<close>

lemma level_name_length:
  "length (log_m_levelname level) = (if level \<in> {INFO, WARN} then 4 else 5)"
  "CHR 0x00 \<notin> set (log_m_levelname level)"
  by (cases level; simp)+

lemma put_level_debug: "put_level True level s = Inl AssertFail"
proof -
  have "strlen (cstr (log_m_levelname level)) = Inr (length (log_m_levelname level))"
    by (rule strlen_cstr [OF level_name_length(2)])
  then show ?thesis by (simp add: put_level_def put_T_def T_ctor_def level_name_length(1) cassert_def)
qed

lemma put_level_release:
  assumes "fixbuf_inv s" "m_cur s + 7 \<le> length (m_data s)"
  shows "if level \<in> {INFO, WARN} then put_level False level s = Inl OutOfBounds
    else \<exists>s'. put_level False level s = Inr s' \<and> fixbuf_inv s' \<and>
      fixbuf_text s' = fixbuf_text s @ log_m_levelname level @ [CHR 0x00]"
proof (cases "level \<in> {INFO, WARN}")
  case True
  have "6 < sz_of_int (avail s)" using assms by (simp add: avail_eq sz_of_int_nat fixbuf_inv_def)
  then show ?thesis
    using True level_name_length(1) [of level]
    by (simp add: put_level_def put_T_def T_ctor_def LogStream_append_def FixBuffer_append_def
      sz_of_int_nat cstr_def read_at_def)
next
  case False
  define w where "w = log_m_levelname level @ [CHR 0x00]"
  have l: "length w = 6" using False level_name_length(1) [of level] by (simp add: w_def)
  have "ptr_read (cstr (log_m_levelname level)) (length w) = Inr w"
    by (simp add: cstr_def read_at_def l flip: w_def)
  from FixBuffer_append_text [OF assms(1) this] show ?thesis
    using False assms(2) by (auto simp: put_level_def put_T_def T_ctor_def LogStream_append_def
      sz_of_int_nat l simp flip: w_def)
qed



text \<open>With fields in their ranges the time has the 17 characters that are asserted.\<close>

lemma length_time_text:
  assumes "0 \<le> tm_year t + 1900" "tm_year t + 1900 < 10000" "0 \<le> tm_mon t" "tm_mon t < 12"
    "0 \<le> tm_mday t" "tm_mday t < 32" "0 \<le> tm_hour t" "tm_hour t < 24" "0 \<le> tm_min t" "tm_min t < 60"
    "0 \<le> tm_sec t" "tm_sec t < 62"
  shows "length (time_text t) = 17"
  using assms by (simp add: time_text_def length_blank_pad length_zero_pad)

text \<open>The text of a time stamp ends in its microseconds and, without them, has the seconds only:
  two stamps in one second have the same short text.\<close>

lemma to_formatted_string_micro:
  assumes "0 \<le> t" and "length (time_text (gmtime (t sdiv k_micro_seconds_persecond))) = 17"
  shows "to_formatted_string gmtime True t =
      to_formatted_string gmtime False t @ CHR ''.'' # zero_pad 6 (t mod 1000000)"
    and "dec_value (drop 18 (to_formatted_string gmtime True t)) = nat (t mod 1000000)"
proof -
  have m: "t smod k_micro_seconds_persecond = t mod 1000000"
    using assms(1) by (simp add: k_micro_seconds_persecond_def smod_nonneg)
  have "int32_ok (t mod 1000000)" by (simp add: int32_ok_def) (smt (verit) pos_mod_bound pos_mod_sign)
  then have i: "to_int32 (t mod 1000000) = t mod 1000000" by (rule to_int32_id)
  have l: "length (zero_pad 6 (t mod 1000000)) = 6" by (rule length_zero_pad) simp_all
  show e: "to_formatted_string gmtime True t =
      to_formatted_string gmtime False t @ CHR ''.'' # zero_pad 6 (t mod 1000000)"
    using assms(2) l by (simp add: to_formatted_string_def m i Let_def)
  show "dec_value (drop 18 (to_formatted_string gmtime True t)) = nat (t mod 1000000)"
    using assms(2) unfolding e
    by (simp add: to_formatted_string_def Let_def dec_value_zero_pad)
qed

end
