(* ===== verification/Net_Buffer.thy ===== *)
theory Net_Buffer
  imports Net_Endian
begin

text \<open>
  The byte buffer of a connection (\<open>net/buffer.h\<close>, \<open>net/buffer.cpp\<close>).

  \<open>mem\<close> is the content of the \<open>std::vector<char>\<close> (its length is \<open>buffer_.size()\<close>),
  \<open>vcap\<close> its capacity, and \<open>readIndex\<close> and \<open>writeIndex\<close> split it into a prependable,
  a readable and a writeable part. A pointer into the buffer is its offset from \<open>begin()\<close>.
  Every method is one definition. The two \<open>beginWrite\<close> overloads of the source differ:
  the non-const one returns the read position; a non-const method calls that one.

  The lemmas show: the invariant \<open>buf_ok\<close> and which operations keep it; what each operation
  does to the readable bytes \<open>content\<close>; that the storage never grows; the round trips of
  the integer methods; and, through the locale \<open>byte_source\<close>, that consuming the buffer
  piecewise yields the same bytes as consuming it at once.
\<close>

section \<open>Data\<close>

record buffer =
  mem :: "byte list"
  vcap :: nat
  readIndex :: nat
  writeIndex :: nat

definition kCheapPrepend :: nat where "kCheapPrepend = 8"
definition kInittialSize :: nat where "kInittialSize = 1024"
definition max_vector_size :: nat where "max_vector_size = 2 ^ 63 - 1"
definition CR :: byte where "CR = 13"
definition LF :: byte where "LF = 10"

section \<open>Sizes and positions\<close>

definition readableBytes :: "buffer \<Rightarrow> nat" where
  "readableBytes b = sz_sub (writeIndex b) (readIndex b)"

definition writeableBytes :: "buffer \<Rightarrow> nat" where
  "writeableBytes b = sz_sub (length (mem b)) (writeIndex b)"

definition prependableBytes :: "buffer \<Rightarrow> nat" where
  "prependableBytes b = readIndex b"

definition peek :: "buffer \<Rightarrow> nat" where
  "peek b = readIndex b"

definition beginWrite :: "buffer \<Rightarrow> nat" where
  "beginWrite b = readIndex b"

definition beginWrite_const :: "buffer \<Rightarrow> nat" where
  "beginWrite_const b = writeIndex b"

definition internalCapacity :: "buffer \<Rightarrow> nat" where
  "internalCapacity b = vcap b"

definition Buffer_ctor :: "bool \<Rightarrow> nat \<Rightarrow> buffer res" where
  "Buffer_ctor dbg initsize =
     (let n = sz_add kCheapPrepend initsize in
      if max_vector_size < n then Inl LengthError
      else let b = \<lparr>mem = replicate n 0, vcap = n,
                    readIndex = kCheapPrepend, writeIndex = kCheapPrepend\<rparr> in
        cassert dbg (readableBytes b = 0)
       (cassert dbg (writeableBytes b = initsize)
       (cassert dbg (prependableBytes b = kCheapPrepend) (Inr b))))"

definition Buffer_swap :: "buffer \<Rightarrow> buffer \<Rightarrow> buffer \<times> buffer" where
  "Buffer_swap b rhs =
     (b\<lparr>mem := mem rhs, vcap := vcap rhs, writeIndex := writeIndex rhs, readIndex := readIndex rhs\<rparr>,
      rhs\<lparr>mem := mem b, vcap := vcap b, writeIndex := writeIndex b, readIndex := readIndex b\<rparr>)"

section \<open>Moving the two indexes\<close>

definition hasWritten :: "bool \<Rightarrow> nat \<Rightarrow> buffer \<Rightarrow> buffer res" where
  "hasWritten dbg len b =
     cassert dbg (len \<le> writeableBytes b) (Inr (b\<lparr>writeIndex := sz_add (writeIndex b) len\<rparr>))"

definition unwrite :: "bool \<Rightarrow> nat \<Rightarrow> buffer \<Rightarrow> buffer res" where
  "unwrite dbg len b =
     cassert dbg (len \<le> readableBytes b) (Inr (b\<lparr>writeIndex := sz_sub (writeIndex b) len\<rparr>))"

definition retriveAll :: "buffer \<Rightarrow> buffer" where
  "retriveAll b = b\<lparr>readIndex := kCheapPrepend, writeIndex := kCheapPrepend\<rparr>"

definition retrive :: "bool \<Rightarrow> nat \<Rightarrow> buffer \<Rightarrow> buffer res" where
  "retrive dbg len b =
     cassert dbg (len \<le> readableBytes b)
      (if len < readableBytes b then Inr (b\<lparr>readIndex := sz_add (readIndex b) len\<rparr>)
       else Inr (retriveAll b))"

definition retriveUntil :: "bool \<Rightarrow> nat \<Rightarrow> buffer \<Rightarrow> buffer res" where
  "retriveUntil dbg e b =
     cassert dbg (peek b \<le> e) (cassert dbg (e \<le> beginWrite b)
      (retrive dbg (sz_sub e (peek b)) b))"

definition retriveInt64 :: "bool \<Rightarrow> buffer \<Rightarrow> buffer res" where
  "retriveInt64 dbg b = retrive dbg 8 b"

definition retriveInt32 :: "bool \<Rightarrow> buffer \<Rightarrow> buffer res" where
  "retriveInt32 dbg b = retrive dbg 4 b"

definition retriveInt16 :: "bool \<Rightarrow> buffer \<Rightarrow> buffer res" where
  "retriveInt16 dbg b = retrive dbg 2 b"

definition retriveInt8 :: "bool \<Rightarrow> buffer \<Rightarrow> buffer res" where
  "retriveInt8 dbg b = retrive dbg 1 b"

definition retriveAsString :: "bool \<Rightarrow> nat \<Rightarrow> buffer \<Rightarrow> (byte list \<times> buffer) res" where
  "retriveAsString dbg len b =
     cassert dbg (len \<le> readableBytes b)
      (andThen (read_at (mem b) (peek b) len) (\<lambda>result.
       andThen (retrive dbg len b) (\<lambda>b'. Inr (result, b'))))"

definition retriveAllAsString :: "bool \<Rightarrow> buffer \<Rightarrow> (byte list \<times> buffer) res" where
  "retriveAllAsString dbg b = retriveAsString dbg (readableBytes b) b"

text \<open>A \<open>StringPiece\<close> over the buffer: the start offset and the length as an \<open>int\<close>.\<close>

definition toStringPiece :: "buffer \<Rightarrow> nat \<times> int" where
  "toStringPiece b = (peek b, to_int32 (int (readableBytes b)))"

section \<open>Searching\<close>

text \<open>\<open>std::search\<close> of \<open>pat\<close> in a range, as the offset inside it; the range's end if absent.\<close>

fun std_search :: "byte list \<Rightarrow> byte list \<Rightarrow> nat" where
  "std_search pat [] = 0"
| "std_search pat (x # xs) =
     (if take (length pat) (x # xs) = pat then 0 else Suc (std_search pat xs))"

text \<open>\<open>memchr\<close> over the first \<open>n\<close> bytes of \<open>bs\<close>; reading past the storage is a fault.\<close>

fun memchr :: "byte \<Rightarrow> nat \<Rightarrow> byte list \<Rightarrow> nat option res" where
  "memchr c 0 bs = Inr None"
| "memchr c (Suc n) [] = Inl OutOfBounds"
| "memchr c (Suc n) (x # xs) =
     (if x = c then Inr (Some 0)
      else andThen (memchr c n xs) (\<lambda>r. Inr (map_option Suc r)))"

definition kCRLF :: "byte list" where
  "kCRLF = [CR, LF]"

definition findCRLF_from :: "bool \<Rightarrow> nat \<Rightarrow> buffer \<Rightarrow> nat option res" where
  "findCRLF_from dbg start b =
     cassert dbg (peek b \<le> start) (cassert dbg (start \<le> beginWrite_const b)
      (andThen (read_at (mem b) start (sz_sub (beginWrite_const b) start)) (\<lambda>range.
       let crlf = start + std_search kCRLF range in
       Inr (if crlf = beginWrite_const b then None else Some crlf))))"

definition findCRLF :: "buffer \<Rightarrow> nat option res" where
  "findCRLF b =
     andThen (read_at (mem b) (peek b) (sz_sub (beginWrite_const b) (peek b))) (\<lambda>range.
     let crlf = peek b + std_search kCRLF range in
     Inr (if crlf = beginWrite_const b then None else Some crlf))"

definition findEOL :: "buffer \<Rightarrow> nat option res" where
  "findEOL b =
     andThen (memchr LF (readableBytes b) (drop (peek b) (mem b))) (\<lambda>eol.
     Inr (map_option (\<lambda>i. peek b + i) eol))"

definition findEOL_from :: "bool \<Rightarrow> nat \<Rightarrow> buffer \<Rightarrow> nat option res" where
  "findEOL_from dbg start b =
     cassert dbg (start < beginWrite b) (cassert dbg (peek b \<le> start)
      (andThen (memchr LF (sz_sub (beginWrite b) start) (drop start (mem b))) (\<lambda>eol.
       Inr (map_option (\<lambda>i. start + i) eol))))"

section \<open>Storage and appending\<close>

definition vector_reserve :: "nat \<Rightarrow> buffer \<Rightarrow> buffer res" where
  "vector_reserve n b =
     (if max_vector_size < n then Inl LengthError else Inr (b\<lparr>vcap := max (vcap b) n\<rparr>))"

definition makeSpace :: "bool \<Rightarrow> nat \<Rightarrow> buffer \<Rightarrow> buffer res" where
  "makeSpace dbg len b =
     (if sz_add (writeableBytes b) (prependableBytes b) < sz_add len kCheapPrepend
      then vector_reserve (sz_add (writeIndex b) len) b
      else cassert dbg (kCheapPrepend < readIndex b)
       (let readable = readableBytes b in
        andThen (read_at (mem b) (readIndex b) readable) (\<lambda>d.
        andThen (write_at (mem b) kCheapPrepend d) (\<lambda>m.
        let b' = b\<lparr>mem := m, readIndex := kCheapPrepend,
                   writeIndex := sz_add kCheapPrepend readable\<rparr> in
        cassert dbg (readable = readableBytes b') (Inr b')))))"

definition ensureWriteableBytes :: "bool \<Rightarrow> nat \<Rightarrow> buffer \<Rightarrow> buffer res" where
  "ensureWriteableBytes dbg len b =
     andThen (if writeableBytes b < len then makeSpace dbg len b else Inr b) (\<lambda>b'.
     cassert dbg (len \<le> writeableBytes b') (Inr b'))"

definition Buffer_append :: "bool \<Rightarrow> byte list \<Rightarrow> buffer \<Rightarrow> buffer res" where
  "Buffer_append dbg d b =
     andThen (ensureWriteableBytes dbg (length d) b) (\<lambda>b1.
     andThen (write_at (mem b1) (beginWrite b1) d) (\<lambda>m.
     hasWritten dbg (length d) (b1\<lparr>mem := m\<rparr>)))"

definition appendInt64 :: "bool \<Rightarrow> 64 word \<Rightarrow> buffer \<Rightarrow> buffer res" where
  "appendInt64 dbg x b = Buffer_append dbg (le_bytes 8 (hostToNetwork64 x)) b"

definition appendInt32 :: "bool \<Rightarrow> 32 word \<Rightarrow> buffer \<Rightarrow> buffer res" where
  "appendInt32 dbg x b = Buffer_append dbg (le_bytes 4 (hostToNetwork32 x)) b"

definition appendInt16 :: "bool \<Rightarrow> 16 word \<Rightarrow> buffer \<Rightarrow> buffer res" where
  "appendInt16 dbg x b = Buffer_append dbg (le_bytes 2 (hostToNetwork16 x)) b"

definition appendInt8 :: "bool \<Rightarrow> 8 word \<Rightarrow> buffer \<Rightarrow> buffer res" where
  "appendInt8 dbg x b = Buffer_append dbg [x] b"

section \<open>Reading integers\<close>

definition peekInt64 :: "bool \<Rightarrow> buffer \<Rightarrow> 64 word res" where
  "peekInt64 dbg b =
     cassert dbg (8 \<le> readableBytes b)
      (andThen (read_at (mem b) (peek b) 8) (\<lambda>be64. Inr (networkToHost64 (le_word be64))))"

definition peekInt32 :: "bool \<Rightarrow> buffer \<Rightarrow> 32 word res" where
  "peekInt32 dbg b =
     cassert dbg (4 \<le> readableBytes b)
      (andThen (read_at (mem b) (peek b) 4) (\<lambda>be32. Inr (networkToHost32 (le_word be32))))"

definition peekInt16 :: "bool \<Rightarrow> buffer \<Rightarrow> 16 word res" where
  "peekInt16 dbg b =
     cassert dbg (2 \<le> readableBytes b)
      (andThen (read_at (mem b) (peek b) 2) (\<lambda>be16. Inr (networkToHost16 (le_word be16))))"

definition peekInt8 :: "bool \<Rightarrow> buffer \<Rightarrow> 8 word res" where
  "peekInt8 dbg b =
     cassert dbg (1 \<le> readableBytes b)
      (andThen (read_at (mem b) (peek b) 1) (\<lambda>x. Inr (x ! 0)))"

definition readInt64 :: "bool \<Rightarrow> buffer \<Rightarrow> (64 word \<times> buffer) res" where
  "readInt64 dbg b = andThen (peekInt64 dbg b) (\<lambda>result.
     andThen (retriveInt64 dbg b) (\<lambda>b'. Inr (result, b')))"

definition readInt32 :: "bool \<Rightarrow> buffer \<Rightarrow> (32 word \<times> buffer) res" where
  "readInt32 dbg b = andThen (peekInt32 dbg b) (\<lambda>result.
     andThen (retriveInt32 dbg b) (\<lambda>b'. Inr (result, b')))"

definition readInt16 :: "bool \<Rightarrow> buffer \<Rightarrow> (16 word \<times> buffer) res" where
  "readInt16 dbg b = andThen (peekInt16 dbg b) (\<lambda>result.
     andThen (retriveInt16 dbg b) (\<lambda>b'. Inr (result, b')))"

definition readInt8 :: "bool \<Rightarrow> buffer \<Rightarrow> (8 word \<times> buffer) res" where
  "readInt8 dbg b = andThen (peekInt8 dbg b) (\<lambda>result.
     andThen (retriveInt8 dbg b) (\<lambda>b'. Inr (result, b')))"

section \<open>Prepending, shrinking, reading from a descriptor\<close>

definition prepend :: "bool \<Rightarrow> byte list \<Rightarrow> buffer \<Rightarrow> buffer res" where
  "prepend dbg d b = cassert dbg (length d \<le> prependableBytes b) (Inr b)"

definition prependInt64 :: "bool \<Rightarrow> 64 word \<Rightarrow> buffer \<Rightarrow> buffer res" where
  "prependInt64 dbg x b = prepend dbg (le_bytes 8 (hostToNetwork64 x)) b"

definition prependInt32 :: "bool \<Rightarrow> 32 word \<Rightarrow> buffer \<Rightarrow> buffer res" where
  "prependInt32 dbg x b = prepend dbg (le_bytes 4 (hostToNetwork32 x)) b"

definition prependInt16 :: "bool \<Rightarrow> 16 word \<Rightarrow> buffer \<Rightarrow> buffer res" where
  "prependInt16 dbg x b = prepend dbg (le_bytes 2 (hostToNetwork16 x)) b"

definition prependInt8 :: "bool \<Rightarrow> 8 word \<Rightarrow> buffer \<Rightarrow> buffer res" where
  "prependInt8 dbg x b = prepend dbg [x] b"

text \<open>
  \<open>other.append(toStringPiece())\<close>: the length goes through \<open>int\<close> and back to \<open>size_t\<close>,
  and the bytes are read from the source buffer.
\<close>

definition shirnk :: "bool \<Rightarrow> nat \<Rightarrow> buffer \<Rightarrow> buffer res" where
  "shirnk dbg reserve b =
     andThen (Buffer_ctor dbg kInittialSize) (\<lambda>other.
     andThen (ensureWriteableBytes dbg (sz_add (readableBytes b) reserve) other) (\<lambda>other1.
     andThen (read_at (mem b) (fst (toStringPiece b)) (sz_of_int (snd (toStringPiece b)))) (\<lambda>str.
     andThen (Buffer_append dbg str other1) (\<lambda>other2.
     Inr (fst (Buffer_swap b other2))))))"

text \<open>
  \<open>readFd\<close>: the result of \<open>readv\<close> is an argument, an errno or the bytes it delivered, which
  the kernel scatters over the writeable part and then \<open>extrabuf\<close>; it delivers at most
  \<open>readFd_space\<close> of them. The value is the new buffer, the return value and the errno
  stored through the pointer, if any.
\<close>

definition readFd_space :: "buffer \<Rightarrow> nat" where
  "readFd_space b =
     (let writeable = writeableBytes b in
      if writeable < 65536 then writeable + 65536 else writeable)"

definition readFd :: "bool \<Rightarrow> int + byte list \<Rightarrow> buffer \<Rightarrow> (buffer \<times> int \<times> int option) res" where
  "readFd dbg r b =
     (let writeable = writeableBytes b in
      case r of
        Inl err \<Rightarrow> Inr (b, -1, Some err)
      | Inr d \<Rightarrow>
          let n = length d in
          andThen (write_at (mem b) (writeIndex b) (take writeable d)) (\<lambda>m.
          if n \<le> writeable
          then Inr (b\<lparr>mem := m, writeIndex := sz_add (writeIndex b) n\<rparr>, int n, None)
          else andThen (Buffer_append dbg (drop writeable d)
                         (b\<lparr>mem := m, writeIndex := length m\<rparr>))
                 (\<lambda>b'. Inr (b', int n, None))))"


section \<open>The invariant\<close>

definition content :: "buffer \<Rightarrow> byte list" where
  "content b = take (readableBytes b) (drop (readIndex b) (mem b))"

definition buf_ok :: "buffer \<Rightarrow> bool" where
  "buf_ok b \<longleftrightarrow> kCheapPrepend \<le> readIndex b \<and> readIndex b \<le> writeIndex b \<and>
     writeIndex b \<le> length (mem b) \<and> length (mem b) \<le> vcap b \<and> vcap b \<le> max_vector_size"

named_theorems buf_defs \<open>the small accessors of the buffer\<close>

declare kCheapPrepend_def [buf_defs] peek_def [buf_defs] beginWrite_def [buf_defs]
  beginWrite_const_def [buf_defs] prependableBytes_def [buf_defs]

lemma buf_okI:
  "8 \<le> readIndex b \<Longrightarrow> readIndex b \<le> writeIndex b \<Longrightarrow> writeIndex b \<le> length (mem b) \<Longrightarrow>
   length (mem b) \<le> vcap b \<Longrightarrow> vcap b \<le> max_vector_size \<Longrightarrow> buf_ok b"
  by (simp add: buf_ok_def kCheapPrepend_def)

lemma buf_okD:
  assumes "buf_ok b"
  shows "8 \<le> readIndex b" "readIndex b \<le> writeIndex b" "writeIndex b \<le> length (mem b)"
    "length (mem b) < 2 ^ 63" "writeIndex b < 2 ^ 63" "readIndex b < 2 ^ 63"
    "length (mem b) \<le> vcap b" "vcap b \<le> max_vector_size"
proof -
  have "(2::nat) ^ 63 - 1 < 2 ^ 63" by simp
  then show "8 \<le> readIndex b" "readIndex b \<le> writeIndex b" "writeIndex b \<le> length (mem b)"
    "length (mem b) < 2 ^ 63" "writeIndex b < 2 ^ 63" "readIndex b < 2 ^ 63"
    "length (mem b) \<le> vcap b" "vcap b \<le> max_vector_size"
    using assms unfolding buf_ok_def kCheapPrepend_def max_vector_size_def by linarith+
qed

lemma readable_ok: "buf_ok b \<Longrightarrow> readableBytes b = writeIndex b - readIndex b"
  using buf_okD [of b] by (simp add: readableBytes_def sz_sub_small)

lemma writeable_ok: "buf_ok b \<Longrightarrow> writeableBytes b = length (mem b) - writeIndex b"
  using buf_okD [of b] by (simp add: writeableBytes_def sz_sub_small)

lemmas ok_sizes = readable_ok writeable_ok

lemma length_content: "buf_ok b \<Longrightarrow> length (content b) = readableBytes b"
  using buf_okD [of b] by (simp add: content_def readable_ok)

lemma read_at_content:
  assumes "buf_ok b" "n \<le> readableBytes b"
  shows "read_at (mem b) (readIndex b) n = Inr (take n (content b))"
  using buf_okD [OF assms(1)] assms by (simp add: read_at_def content_def readable_ok min_def)

text \<open>Three regions: what lies before the readable bytes, the bytes, what lies behind.\<close>

lemma mem_split:
  assumes "buf_ok b"
  shows "drop (readIndex b) (mem b) = content b @ drop (writeIndex b) (mem b)"
proof -
  have "writeIndex b = readableBytes b + readIndex b"
    using buf_okD [OF assms] by (simp add: readable_ok assms)
  then show ?thesis
    by (metis append_take_drop_id content_def drop_drop)
qed

section \<open>What each operation does\<close>

lemma Buffer_ctor_ok:
  assumes "n \<le> max_vector_size - kCheapPrepend"
  shows "\<exists>b. Buffer_ctor dbg n = Inr b \<and> buf_ok b \<and> content b = [] \<and> writeableBytes b = n \<and>
    length (mem b) = n + kCheapPrepend"
proof -
  have add: "sz_add kCheapPrepend n = n + kCheapPrepend"
    using assms by (simp add: sz_add_small kCheapPrepend_def max_vector_size_def)
  let ?b = "\<lparr>mem = replicate (n + kCheapPrepend) (0::byte), vcap = n + kCheapPrepend,
     readIndex = kCheapPrepend, writeIndex = kCheapPrepend\<rparr>"
  have ok: "buf_ok ?b"
    using assms by (intro buf_okI) (simp_all add: kCheapPrepend_def max_vector_size_def)
  have "readableBytes ?b = 0" "writeableBytes ?b = n"
    using ok_sizes [OF ok] by simp_all
  moreover have "\<not> max_vector_size < n + kCheapPrepend"
    using assms by (simp add: kCheapPrepend_def max_vector_size_def)
  ultimately show ?thesis
    using ok by (auto simp: Buffer_ctor_def add Let_def cassert_holds prependableBytes_def content_def)
qed

lemma retriveAll_ok: "buf_ok b \<Longrightarrow> buf_ok (retriveAll b) \<and> content (retriveAll b) = []"
proof -
  assume ok: "buf_ok b"
  let ?b = "retriveAll b"
  have ok': "buf_ok ?b"
    using buf_okD [OF ok] by (intro buf_okI) (simp_all add: retriveAll_def kCheapPrepend_def)
  have "readableBytes ?b = 0" by (simp add: readable_ok [OF ok'], simp add: retriveAll_def)
  then show ?thesis using ok' by (simp add: content_def)
qed

lemma retrive_spec:
  assumes ok: "buf_ok b" and n: "n \<le> readableBytes b"
  shows "\<exists>b'. retrive dbg n b = Inr b' \<and> buf_ok b' \<and> content b' = drop n (content b) \<and>
    mem b' = mem b \<and> vcap b' = vcap b"
proof (cases "n < readableBytes b")
  case True
  let ?b = "b\<lparr>readIndex := readIndex b + n\<rparr>"
  note d = buf_okD [OF ok]
  have r: "readableBytes b = writeIndex b - readIndex b" by (rule readable_ok [OF ok])
  have sum: "sz_add (readIndex b) n = readIndex b + n"
    using d True r by (intro sz_add_small) simp
  have ok': "buf_ok ?b" using d True r by (intro buf_okI) simp_all
  then have "content ?b = drop n (content b)"
    using d r by (simp add: content_def readable_ok drop_take add.commute)
  then show ?thesis
    using True ok' by (intro exI [of _ ?b]) (simp add: retrive_def sum cassert_holds)
next
  case False
  then have "drop n (content b) = []" using n by (simp add: length_content ok)
  then show ?thesis
    using False retriveAll_ok [OF ok] n
    by (intro exI [of _ "retriveAll b"]) (simp add: retrive_def cassert_holds, simp add: retriveAll_def)
qed

lemma retrive_debug_ok:
  "buf_ok b \<Longrightarrow> retrive True n b = Inr b' \<Longrightarrow>
   buf_ok b' \<and> content b' = drop n (content b) \<and> mem b' = mem b \<and> n \<le> readableBytes b"
  using retrive_spec [of b n True] by (auto simp: retrive_def res_simps)

text \<open>
  \<open>makeSpace\<close> is called with too little writeable room. Its first branch changes the capacity
  only, so that the room is still missing afterwards; its second branch moves the readable bytes
  to the front, and the assertions in it hold.
\<close>

lemma makeSpace_move:
  assumes ok: "buf_ok b" and gap: "kCheapPrepend < readIndex b"
    and no_grow: "\<not> sz_add (writeableBytes b) (prependableBytes b) < sz_add n kCheapPrepend"
  shows "\<exists>b'. makeSpace dbg n b = Inr b' \<and> buf_ok b' \<and> content b' = content b \<and>
    length (mem b') = length (mem b) \<and> vcap b' = vcap b \<and>
    writeableBytes b' + kCheapPrepend = writeableBytes b + prependableBytes b"
proof -
  note d = buf_okD [OF ok] and sz = ok_sizes [OF ok]
  have rd: "read_at (mem b) (readIndex b) (readableBytes b) = Inr (content b)"
    using read_at_content [OF ok order_refl] length_content [OF ok] by simp
  have len: "kCheapPrepend + length (content b) \<le> length (mem b)"
    using d sz gap by (simp add: length_content [OF ok])
  let ?m = "take kCheapPrepend (mem b) @ content b @ drop (kCheapPrepend + length (content b)) (mem b)"
  have wr: "write_at (mem b) kCheapPrepend (content b) = Inr ?m"
    using len by (simp add: write_at_def)
  have lm: "length ?m = length (mem b)" using len by simp
  let ?w = "kCheapPrepend + readableBytes b"
  let ?b = "b\<lparr>mem := ?m, readIndex := kCheapPrepend, writeIndex := ?w\<rparr>"
  have w: "sz_add kCheapPrepend (readableBytes b) = ?w"
    using d sz by (intro sz_add_small) (simp add: kCheapPrepend_def)
  have ok': "buf_ok ?b"
    using d lm len length_content [OF ok] by (simp add: buf_ok_def)
  have rb: "readableBytes ?b = readableBytes b" by (simp add: readable_ok [OF ok'])
  have dm: "drop kCheapPrepend ?m = content b @ drop (kCheapPrepend + length (content b)) (mem b)"
    using len by simp
  have "content ?b = take (readableBytes b) (drop kCheapPrepend ?m)"
    unfolding content_def [of ?b] rb by simp
  also have "\<dots> = content b"
    unfolding dm by (simp add: length_content [OF ok])
  finally have "content ?b = content b" .
  moreover have "writeableBytes ?b + kCheapPrepend = writeableBytes b + prependableBytes b"
  proof -
    have sel: "mem ?b = ?m" "writeIndex ?b = ?w" by simp_all
    have "writeableBytes ?b = length (mem b) - ?w"
      by (simp only: writeable_ok [OF ok'] sel lm)
    then show ?thesis using d sz gap by (simp add: prependableBytes_def)
  qed
  moreover have "makeSpace dbg n b = Inr ?b"
    by (simp add: makeSpace_def no_grow gap cassert_holds rd wr w rb Let_def)
  ultimately show ?thesis
    using ok' lm by (intro exI [of _ ?b]) simp
qed

lemma makeSpace_grow:
  assumes "sz_add (writeableBytes b) (prependableBytes b) < sz_add n kCheapPrepend"
    and "makeSpace dbg n b = Inr b'"
  shows "writeableBytes b' = writeableBytes b"
  using assms by (auto simp: makeSpace_def vector_reserve_def writeableBytes_def split: if_splits)

text \<open>
  With assertions, room for \<open>n\<close> bytes is found exactly when the storage already holds it.
\<close>

lemma ensure_fits:
  assumes ok: "buf_ok b" and fits: "n + kCheapPrepend \<le> writeableBytes b + prependableBytes b"
  shows "\<exists>b'. ensureWriteableBytes dbg n b = Inr b' \<and> buf_ok b' \<and> content b' = content b \<and>
    length (mem b') = length (mem b) \<and> vcap b' = vcap b \<and> n \<le> writeableBytes b'"
proof (cases "writeableBytes b < n")
  case True
  note d = buf_okD [OF ok] and sz = ok_sizes [OF ok]
  have gap: "kCheapPrepend < readIndex b"
    using fits True by (simp add: prependableBytes_def)
  have "\<not> sz_add (writeableBytes b) (prependableBytes b) < sz_add n kCheapPrepend"
    using fits d sz by (simp add: sz_add_small prependableBytes_def)
  from makeSpace_move [OF ok gap this, of dbg] obtain b' where
    b': "makeSpace dbg n b = Inr b'" "buf_ok b'" "content b' = content b"
      "length (mem b') = length (mem b)" "vcap b' = vcap b"
      "writeableBytes b' + kCheapPrepend = writeableBytes b + prependableBytes b" by blast
  have "n \<le> writeableBytes b'" using b'(6) fits by linarith
  then show ?thesis
    using b' True by (intro exI [of _ b']) (simp add: ensureWriteableBytes_def cassert_holds)
next
  case False
  then show ?thesis
    using ok by (intro exI [of _ b]) (simp add: ensureWriteableBytes_def cassert_holds)
qed

lemma ensure_debug_ok:
  assumes ok: "buf_ok b" and h: "ensureWriteableBytes True n b = Inr b'"
  shows "buf_ok b' \<and> content b' = content b \<and> length (mem b') = length (mem b) \<and>
    n \<le> writeableBytes b' \<and> n + kCheapPrepend \<le> writeableBytes b + prependableBytes b"
proof (cases "writeableBytes b < n")
  case True
  with h have m: "makeSpace True n b = Inr b'" and n: "n \<le> writeableBytes b'"
    by (auto simp: ensureWriteableBytes_def res_simps)
  have no_grow: "\<not> sz_add (writeableBytes b) (prependableBytes b) < sz_add n kCheapPrepend"
    using makeSpace_grow [OF _ m] n True by fastforce
  then have gap: "kCheapPrepend < readIndex b"
    using m by (simp add: makeSpace_def res_simps)
  from makeSpace_move [OF ok gap no_grow, of True] m n show ?thesis by auto
next
  case False
  then have "b' = b" and "n \<le> writeableBytes b"
    using h by (auto simp: ensureWriteableBytes_def res_simps)
  then show ?thesis
    using ok buf_okD [OF ok] by (simp add: prependableBytes_def kCheapPrepend_def)
qed

text \<open>
  Appending writes at the read position: the new bytes replace the oldest readable ones and the
  readable part grows at its end by as many bytes of whatever the storage holds there.
\<close>

definition storage_room :: "buffer \<Rightarrow> nat" where
  "storage_room b = length (mem b) - kCheapPrepend - readableBytes b"

lemma storage_room_eq:
  "buf_ok b \<Longrightarrow> storage_room b + kCheapPrepend = writeableBytes b + prependableBytes b"
  using buf_okD [of b]
  by (simp add: storage_room_def readable_ok writeable_ok prependableBytes_def kCheapPrepend_def)

lemma append_writes:
  assumes ok: "buf_ok b" and fits: "length d \<le> writeableBytes b"
  shows "\<exists>m. write_at (mem b) (beginWrite b) d = Inr m \<and>
    hasWritten dbg (length d) (b\<lparr>mem := m\<rparr>) = Inr (b\<lparr>mem := m, writeIndex := writeIndex b + length d\<rparr>) \<and>
    length m = length (mem b) \<and> drop (readIndex b) m = d @ drop (length d) (drop (readIndex b) (mem b))"
proof -
  note bd = buf_okD [OF ok] and sz = ok_sizes [OF ok]
  have "beginWrite b + length d \<le> length (mem b)"
    using bd sz fits by (simp add: beginWrite_def)
  then obtain m where m: "write_at (mem b) (beginWrite b) d = Inr m"
    by (simp add: write_at_def)
  have lm: "length m = length (mem b)" by (rule length_write_at [OF m])
  have "drop (readIndex b) m = d @ drop (length d) (drop (readIndex b) (mem b))"
    using write_at_drop [OF m] by (simp add: beginWrite_def add.commute)
  moreover have "hasWritten dbg (length d) (b\<lparr>mem := m\<rparr>) =
      Inr (b\<lparr>mem := m, writeIndex := writeIndex b + length d\<rparr>)"
    using fits bd sz lm
    by (simp add: hasWritten_def writeableBytes_def cassert_holds sz_add_small)
  ultimately show ?thesis using m lm by blast
qed

lemma append_spec:
  assumes ok: "buf_ok b" and room: "length d \<le> storage_room b"
  shows "\<exists>b' rest. Buffer_append dbg d b = Inr b' \<and> buf_ok b' \<and>
    length (mem b') = length (mem b) \<and> vcap b' = vcap b \<and> length rest = length d \<and>
    content b' = d @ drop (length d) (content b @ rest)"
proof -
  have "length d + kCheapPrepend \<le> writeableBytes b + prependableBytes b"
    using room storage_room_eq [OF ok] by linarith
  from ensure_fits [OF ok this] obtain b1 where
    e: "ensureWriteableBytes dbg (length d) b = Inr b1" and ok1: "buf_ok b1"
    and c1: "content b1 = content b" and l1: "length (mem b1) = length (mem b)"
    and v1: "vcap b1 = vcap b" and w1: "length d \<le> writeableBytes b1" by blast
  note bd = buf_okD [OF ok1] and sz = ok_sizes [OF ok1]
  from append_writes [OF ok1 w1, of dbg] obtain m where
    m: "write_at (mem b1) (beginWrite b1) d = Inr m"
      "hasWritten dbg (length d) (b1\<lparr>mem := m\<rparr>) =
       Inr (b1\<lparr>mem := m, writeIndex := writeIndex b1 + length d\<rparr>)"
    and lm: "length m = length (mem b1)"
    and dm: "drop (readIndex b1) m = d @ drop (length d) (drop (readIndex b1) (mem b1))" by blast
  let ?b = "b1\<lparr>mem := m, writeIndex := writeIndex b1 + length d\<rparr>"
  have ok2: "buf_ok ?b" using bd sz w1 lm by (intro buf_okI) simp_all
  have r2: "readableBytes ?b = readableBytes b1 + length d"
    using bd sz by (simp add: readable_ok [OF ok2])
  define rest where "rest = take (length d) (drop (writeIndex b1) (mem b1))"
  have lr: "length rest = length d" using w1 sz by (simp add: rest_def)
  have lc: "length (content b1) = readableBytes b1" by (rule length_content [OF ok1])
  have "content ?b = take (readableBytes b1 + length d)
      (d @ drop (length d) (drop (readIndex b1) (mem b1)))"
    unfolding content_def [of ?b] r2 by (simp add: dm)
  also have "\<dots> = d @ drop (length d) (take (readableBytes b1 + length d) (drop (readIndex b1) (mem b1)))"
    by (simp add: take_drop ac_simps)
  also have "take (readableBytes b1 + length d) (drop (readIndex b1) (mem b1)) = content b1 @ rest"
    unfolding mem_split [OF ok1] rest_def by (simp add: lc)
  finally have "content ?b = d @ drop (length d) (content b @ rest)" by (simp add: c1)
  moreover have "Buffer_append dbg d b = Inr ?b" by (simp add: Buffer_append_def e m)
  ultimately show ?thesis
    using ok2 lm l1 v1 lr by (intro exI [of _ ?b] exI [of _ rest]) simp
qed

lemma append_debug_room:
  assumes ok: "buf_ok b" and h: "Buffer_append True d b = Inr b'"
  shows "length d \<le> storage_room b"
proof -
  from h obtain b1 where "ensureWriteableBytes True (length d) b = Inr b1"
    by (auto simp: Buffer_append_def res_simps)
  from ensure_debug_ok [OF ok this] storage_room_eq [OF ok] show ?thesis by linarith
qed

text \<open>A successful append in a Debug build, as one elimination fact.\<close>

lemma append_debug_ok:
  assumes "buf_ok b" "Buffer_append True d b = Inr b'"
  shows "buf_ok b' \<and> length (mem b') = length (mem b) \<and> length d \<le> storage_room b \<and>
    take (length d) (content b') = d \<and> length (content b') = length (content b) + length d"
proof -
  note room = append_debug_room [OF assms]
  from append_spec [OF assms(1) room, of True] assms(2) obtain rest where
    "buf_ok b'" "length (mem b') = length (mem b)" "length rest = length d"
    "content b' = d @ drop (length d) (content b @ rest)" by auto
  then show ?thesis using room by simp
qed

section \<open>Consuming a byte source\<close>

text \<open>
  What a reader of a byte source relies on: a state with an invariant, the bytes still to be read,
  and an operation that drops a prefix of them.
\<close>

locale byte_source =
  fixes inv :: "'s \<Rightarrow> bool"
    and bytes :: "'s \<Rightarrow> byte list"
    and consume :: "nat \<Rightarrow> 's \<Rightarrow> 's res"
  assumes consume_step: "inv s \<Longrightarrow> n \<le> length (bytes s) \<Longrightarrow>
    \<exists>s'. consume n s = Inr s' \<and> inv s' \<and> bytes s' = drop n (bytes s)"
begin

lemma consume_many:
  "inv s \<Longrightarrow> sum_list ns \<le> length (bytes s) \<Longrightarrow>
   \<exists>s'. foldRes consume ns s = Inr s' \<and> inv s' \<and> bytes s' = drop (sum_list ns) (bytes s)"
proof (induction ns arbitrary: s)
  case Nil
  then show ?case by simp
next
  case (Cons n ns)
  then obtain s1 where s1: "consume n s = Inr s1" "inv s1" "bytes s1 = drop n (bytes s)"
    using consume_step [of s n] by auto
  with Cons.prems have "sum_list ns \<le> length (bytes s1)" by simp
  from Cons.IH [OF s1(2) this] s1 show ?case by (auto simp: add.commute)
qed

lemma consume_chunks_agree:
  assumes "inv s" "sum_list ns = sum_list ms" "sum_list ns \<le> length (bytes s)"
    "foldRes consume ns s = Inr s1" "foldRes consume ms s = Inr s2"
  shows "bytes s1 = bytes s2"
  using consume_many [OF assms(1), of ns] consume_many [OF assms(1), of ms] assms by auto

lemma consume_all_empties:
  assumes "inv s" "sum_list ns = length (bytes s)"
  shows "\<exists>s'. foldRes consume ns s = Inr s' \<and> inv s' \<and> bytes s' = []"
  using consume_many [OF assms(1), of ns] assms(2) by simp

end

interpretation bsrc: byte_source buf_ok content "retrive dbg" for dbg
  by unfold_locales (metis length_content retrive_spec)


section \<open>Sequences of operations\<close>

text \<open>The calls a client can make, as data, and one call on a buffer.\<close>

datatype buf_op =
    OpAppend "byte list"
  | OpPrepend "byte list"
  | OpRetrive nat
  | OpRetriveUntil nat
  | OpRetriveAll
  | OpHasWritten nat
  | OpUnwrite nat
  | OpEnsure nat
  | OpShirnk nat
  | OpReadFd "int + byte list"

fun buf_step :: "bool \<Rightarrow> buf_op \<Rightarrow> buffer \<Rightarrow> buffer res" where
  "buf_step dbg (OpAppend d) b = Buffer_append dbg d b"
| "buf_step dbg (OpPrepend d) b = prepend dbg d b"
| "buf_step dbg (OpRetrive n) b = retrive dbg n b"
| "buf_step dbg (OpRetriveUntil e) b = retriveUntil dbg e b"
| "buf_step dbg OpRetriveAll b = Inr (retriveAll b)"
| "buf_step dbg (OpHasWritten n) b = hasWritten dbg n b"
| "buf_step dbg (OpUnwrite n) b = unwrite dbg n b"
| "buf_step dbg (OpEnsure n) b = ensureWriteableBytes dbg n b"
| "buf_step dbg (OpShirnk n) b = shirnk dbg n b"
| "buf_step dbg (OpReadFd r) b = andThen (readFd dbg r b) (\<lambda>(b', n, e). Inr b')"

lemma hasWritten_debug_ok:
  "buf_ok b \<Longrightarrow> hasWritten True n b = Inr b' \<Longrightarrow> buf_ok b' \<and> length (mem b') = length (mem b)"
proof -
  assume ok: "buf_ok b" and h: "hasWritten True n b = Inr b'"
  note d = buf_okD [OF ok] and sz = ok_sizes [OF ok]
  from h have n: "n \<le> length (mem b) - writeIndex b"
    and b': "b' = b\<lparr>writeIndex := sz_add (writeIndex b) n\<rparr>"
    by (simp_all add: hasWritten_def res_simps sz)
  have "sz_add (writeIndex b) n = writeIndex b + n" using n d by (simp add: sz_add_small)
  then show ?thesis using n d by (simp add: b') (intro buf_okI; simp)
qed

lemma unwrite_debug_ok:
  "buf_ok b \<Longrightarrow> unwrite True n b = Inr b' \<Longrightarrow>
   buf_ok b' \<and> mem b' = mem b \<and> content b' = take (readableBytes b - n) (content b)"
proof -
  assume ok: "buf_ok b" and h: "unwrite True n b = Inr b'"
  note d = buf_okD [OF ok] and sz = ok_sizes [OF ok]
  from h have n: "n \<le> writeIndex b - readIndex b"
    and b': "b' = b\<lparr>writeIndex := sz_sub (writeIndex b) n\<rparr>"
    by (simp_all add: unwrite_def res_simps sz)
  have w: "sz_sub (writeIndex b) n = writeIndex b - n" using n d by (simp add: sz_sub_small)
  have ok': "buf_ok b'" using n d by (simp add: b' w) (intro buf_okI; simp)
  then show ?thesis
    using n d readable_ok [OF ok'] by (simp add: b' w content_def sz min_def add.commute)
qed

lemma retriveUntil_debug:
  assumes ok: "buf_ok b" and h: "retriveUntil True e b = Inr b'"
  shows "e = peek b \<and> buf_ok b' \<and> content b' = content b \<and> mem b' = mem b"
proof -
  from h have e: "e = peek b" and r: "retrive True (sz_sub e (peek b)) b = Inr b'"
    by (auto simp: retriveUntil_def res_simps peek_def beginWrite_def)
  have "sz_sub e (peek b) = 0" using e buf_okD [OF ok] by (simp add: peek_def)
  with retrive_debug_ok [OF ok r] e show ?thesis by simp
qed

lemma readFd_fits:
  assumes ok: "buf_ok b" and n: "length d \<le> writeableBytes b"
  shows "\<exists>b'. readFd dbg (Inr d) b = Inr (b', int (length d), None) \<and> buf_ok b' \<and>
    content b' = content b @ d \<and> length (mem b') = length (mem b)"
proof -
  note bd = buf_okD [OF ok] and sz = ok_sizes [OF ok]
  have "writeIndex b + length d \<le> length (mem b)" using n bd sz by linarith
  then obtain m where m: "write_at (mem b) (writeIndex b) d = Inr m"
    by (simp add: write_at_def)
  have lm: "length m = length (mem b)" by (rule length_write_at [OF m])
  have w: "sz_add (writeIndex b) (length d) = writeIndex b + length d"
    using n bd sz by (simp add: sz_add_small)
  let ?b = "b\<lparr>mem := m, writeIndex := writeIndex b + length d\<rparr>"
  have ok': "buf_ok ?b" using n bd sz lm by (intro buf_okI) simp_all
  have r: "readableBytes ?b = readableBytes b + length d"
    using bd sz by (simp add: readable_ok [OF ok'])
  have split: "take (writeIndex b) m = take (writeIndex b) (mem b)"
    by (rule write_at_take [OF m order_refl])
  have "drop (readIndex b) m = drop (readIndex b) (take (writeIndex b) m) @ drop (writeIndex b) m"
    using bd lm by (metis append_take_drop_id drop_append length_take min_absorb2 drop0
        diff_is_0_eq)
  also have "\<dots> = content b @ d @ drop (writeIndex b + length d) (mem b)"
    by (simp add: split write_at_drop [OF m] content_def sz drop_take)
  finally have "content ?b = take (readableBytes b + length d) (content b @ d @
      drop (writeIndex b + length d) (mem b))"
    unfolding content_def [of ?b] r by simp
  then have "content ?b = content b @ d" by (simp add: length_content [OF ok])
  then show ?thesis
    using ok' lm n by (intro exI [of _ ?b]) (simp add: readFd_def m w Let_def)
qed

lemma readFd_debug_ok:
  assumes ok: "buf_ok b" and h: "readFd True r b = Inr (b', n, e)"
  shows "buf_ok b' \<and> length (mem b') = length (mem b)"
proof (cases r)
  case (Inl err)
  then show ?thesis using ok h by (simp add: readFd_def)
next
  case (Inr d)
  show ?thesis
  proof (cases "length d \<le> writeableBytes b")
    case True
    from readFd_fits [OF ok this, of True] h Inr show ?thesis by auto
  next
    case False
    note bd = buf_okD [OF ok] and sz = ok_sizes [OF ok]
    from h Inr False obtain m where
      m: "write_at (mem b) (writeIndex b) (take (writeableBytes b) d) = Inr m"
      and a: "Buffer_append True (drop (writeableBytes b) d) (b\<lparr>mem := m, writeIndex := length m\<rparr>) = Inr b'"
      by (auto simp: readFd_def Let_def res_simps)
    have lm: "length m = length (mem b)" by (rule length_write_at [OF m])
    have ok1: "buf_ok (b\<lparr>mem := m, writeIndex := length m\<rparr>)"
      using bd lm by (intro buf_okI) simp_all
    from append_debug_ok [OF ok1 a] lm show ?thesis by simp
  qed
qed

lemma shirnk_debug_ok:
  assumes ok: "buf_ok b" and h: "shirnk True n b = Inr b'"
  shows "buf_ok b' \<and> length (mem b') = kInittialSize + kCheapPrepend"
proof -
  from h obtain o0 o1 str o2 where
    c: "Buffer_ctor True kInittialSize = Inr o0"
    and e: "ensureWriteableBytes True (sz_add (readableBytes b) n) o0 = Inr o1"
    and r: "read_at (mem b) (fst (toStringPiece b)) (sz_of_int (snd (toStringPiece b))) = Inr str"
    and a: "Buffer_append True str o1 = Inr o2" and b': "b' = fst (Buffer_swap b o2)"
    by (auto simp: shirnk_def res_simps)
  have "kInittialSize \<le> max_vector_size - kCheapPrepend"
    by (simp add: kInittialSize_def max_vector_size_def kCheapPrepend_def)
  from Buffer_ctor_ok [OF this, of True] c have
    ok0: "buf_ok o0" and l0: "length (mem o0) = kInittialSize + kCheapPrepend" by auto
  from ensure_debug_ok [OF ok0 e] l0 have
    ok1: "buf_ok o1" and l1: "length (mem o1) = kInittialSize + kCheapPrepend" by auto
  from append_debug_ok [OF ok1 a] l1 show ?thesis
    by (simp add: b' Buffer_swap_def buf_ok_def readableBytes_def)
qed

text \<open>One fact for all calls: the invariant is kept, and the storage keeps its size unless
  \<open>shirnk\<close> replaces it by a fresh one.\<close>

lemma buf_step_debug_ok:
  assumes "buf_ok b" "buf_step True op b = Inr b'"
  shows "buf_ok b' \<and> (length (mem b') = length (mem b) \<or>
    length (mem b') = kInittialSize + kCheapPrepend)"
proof (cases op)
  case (OpAppend d)
  then show ?thesis using assms append_debug_ok [of b d b'] by simp
next
  case (OpPrepend d)
  then show ?thesis using assms by (simp add: prepend_def res_simps)
next
  case (OpRetrive n)
  then show ?thesis using assms retrive_debug_ok [of b n b'] by simp
next
  case (OpRetriveUntil e)
  then show ?thesis using assms retriveUntil_debug [of b e b'] by simp
next
  case OpRetriveAll
  then show ?thesis using assms retriveAll_ok [of b] by (auto simp: retriveAll_def)
next
  case (OpHasWritten n)
  then show ?thesis using assms hasWritten_debug_ok [of b n b'] by simp
next
  case (OpUnwrite n)
  then show ?thesis using assms unwrite_debug_ok [of b n b'] by simp
next
  case (OpEnsure n)
  then show ?thesis using assms ensure_debug_ok [of b n b'] by simp
next
  case (OpShirnk n)
  then show ?thesis using assms shirnk_debug_ok [of b n b'] by simp
next
  case (OpReadFd r)
  with assms obtain n e where "readFd True r b = Inr (b', n, e)" by (auto simp: res_simps)
  then show ?thesis using assms(1) readFd_debug_ok [of b r b' n e] by simp
qed

section \<open>Searching and integers\<close>

lemma std_search_spec:
  "std_search pat xs \<le> length xs \<and>
   (std_search pat xs < length xs \<longrightarrow> take (length pat) (drop (std_search pat xs) xs) = pat) \<and>
   (\<forall>j < std_search pat xs. take (length pat) (drop j xs) \<noteq> pat)"
proof (induction xs)
  case (Cons x xs)
  then show ?case by (auto simp: less_Suc_eq_0_disj)
qed simp

lemma append_peek:
  assumes ok: "buf_ok b" and h: "Buffer_append True d b = Inr b'"
  shows "read_at (mem b') (readIndex b') (length d) = Inr d \<and> length d \<le> readableBytes b'"
proof -
  note a = append_debug_ok [OF ok h]
  then have n: "length d \<le> readableBytes b'"
    using length_content [of b'] by simp
  with a read_at_content [of b' "length d"] show ?thesis by simp
qed

lemma append_then_peek:
  assumes ok: "buf_ok b"
  shows "appendInt64 True x8 b = Inr b' \<Longrightarrow> peekInt64 True b' = Inr x8"
    and "appendInt32 True x4 b = Inr b' \<Longrightarrow> peekInt32 True b' = Inr x4"
    and "appendInt16 True x2 b = Inr b' \<Longrightarrow> peekInt16 True b' = Inr x2"
    and "appendInt8 True x1 b = Inr b' \<Longrightarrow> peekInt8 True b' = Inr x1"
proof -
  have c: "networkToHost64 (le_word (le_bytes 8 (hostToNetwork64 x8))) = x8"
    "networkToHost32 (le_word (le_bytes 4 (hostToNetwork32 x4))) = x4"
    "networkToHost16 (le_word (le_bytes 2 (hostToNetwork16 x2))) = x2"
    using c64.dec_enc [of x8] c32.dec_enc [of x4] c16.dec_enc [of x2]
    by (simp_all add: wire64_def unwire64_def wire32_def unwire32_def wire16_def unwire16_def)
  show "appendInt64 True x8 b = Inr b' \<Longrightarrow> peekInt64 True b' = Inr x8"
    using append_peek [OF ok, of "le_bytes 8 (hostToNetwork64 x8)" b']
    by (auto simp: appendInt64_def peekInt64_def peek_def cassert_def c)
  show "appendInt32 True x4 b = Inr b' \<Longrightarrow> peekInt32 True b' = Inr x4"
    using append_peek [OF ok, of "le_bytes 4 (hostToNetwork32 x4)" b']
    by (auto simp: appendInt32_def peekInt32_def peek_def cassert_def c)
  show "appendInt16 True x2 b = Inr b' \<Longrightarrow> peekInt16 True b' = Inr x2"
    using append_peek [OF ok, of "le_bytes 2 (hostToNetwork16 x2)" b']
    by (auto simp: appendInt16_def peekInt16_def peek_def cassert_def c)
  show "appendInt8 True x1 b = Inr b' \<Longrightarrow> peekInt8 True b' = Inr x1"
    using append_peek [OF ok, of "[x1]" b']
    by (auto simp: appendInt8_def peekInt8_def peek_def cassert_def)
qed

text \<open>The peek methods do not change the buffer, so the read methods return the same value.\<close>

lemma readInt_peek:
  "readInt64 True b = Inr (x8, b') \<Longrightarrow> peekInt64 True b = Inr x8"
  "readInt32 True b = Inr (x4, b') \<Longrightarrow> peekInt32 True b = Inr x4"
  by (auto simp: readInt64_def readInt32_def res_simps)

definition buf_inv :: "nat \<Rightarrow> buffer \<Rightarrow> bool" where
  "buf_inv n b \<longleftrightarrow> buf_ok b \<and> length (mem b) \<in> {n, kInittialSize + kCheapPrepend}"

interpretation bufm: invariant_machine "buf_step True" "buf_inv n" for n
  by unfold_locales (auto simp: buf_inv_def dest: buf_step_debug_ok)

section \<open>Properties\<close>

text \<open>C1: Debug build: any sequence of buffer calls that passes its assertions keeps the
  indexes ordered inside the storage, and the storage keeps its size (it never grows).\<close>

theorem buffer_debug_invariant:
  assumes "buf_ok b" and "foldRes (buf_step True) ops b = Inr b'"
  shows "buf_ok b' \<and> length (mem b') \<in> {length (mem b), kInittialSize + kCheapPrepend}"
  using bufm.inv_run [of "length (mem b)" b ops b'] assms by (simp add: buf_inv_def)

text \<open>An empty buffer of eight writeable bytes, for the witnesses.\<close>

definition demo_buf :: buffer where
  "demo_buf = \<lparr>mem = replicate 16 0, vcap = 16, readIndex = 8, writeIndex = 8\<rparr>"

lemma demo_buf_ok: "buf_ok demo_buf"
  by (simp add: demo_buf_def buf_ok_def kCheapPrepend_def max_vector_size_def)

lemmas buf_eval = demo_buf_def Buffer_append_def ensureWriteableBytes_def writeableBytes_def
  readableBytes_def sz_sub_def sz_add_def write_at_def read_at_def hasWritten_def beginWrite_def
  retrive_def retriveAll_def cassert_def kCheapPrepend_def makeSpace_def prependableBytes_def
  peek_def content_def vector_reserve_def max_vector_size_def Let_def replicate_numeral_unfold

theorem buffer_debug_invariant_witness:
  "buf_ok (demo_buf\<lparr>mem := replicate 8 0 @ [1, 2, 3] @ replicate 5 0,
     writeIndex := 11, readIndex := 10\<rparr>)"
proof -
  have "foldRes (buf_step True) [OpAppend [1, 2, 3], OpRetrive 2] demo_buf =
    Inr (demo_buf\<lparr>mem := replicate 8 0 @ [1, 2, 3] @ replicate 5 0,
       writeIndex := 11, readIndex := 10\<rparr>)"
    by (simp add: buf_eval)
  from buffer_debug_invariant [OF demo_buf_ok this] show ?thesis by simp
qed


text \<open>Debug build: \<open>append\<close> of \<open>d\<close> passes its assertions exactly when the existing
  storage has room for it; it never grows the storage.\<close>

theorem append_debug_iff:
  assumes "buf_ok b"
  shows "(\<exists>b'. Buffer_append True d b = Inr b') \<longleftrightarrow> length d \<le> storage_room b"
  using append_debug_room [OF assms] append_spec [OF assms, of d True] by blast

theorem append_debug_iff_witness:
  "(\<exists>b'. Buffer_append True [1, 2, 3] demo_buf = Inr b') \<and>
   \<not> (\<exists>b'. Buffer_append True (replicate 9 1) demo_buf = Inr b')"
  using append_debug_iff [OF demo_buf_ok, of "[1, 2, 3]"]
    append_debug_iff [OF demo_buf_ok, of "replicate 9 1"]
  by (simp add: storage_room_def buf_eval)

text \<open>C33: Either build: an \<open>append\<close> of \<open>d\<close> that fits succeeds and puts \<open>d\<close> at the
  front of the readable bytes, over the oldest unread ones; only a buffer without unread bytes
  ends up holding what a queue would hold.\<close>

theorem append_overwrites_front:
  assumes "buf_ok b" and "length d \<le> storage_room b"
  shows "\<exists>b' rest. Buffer_append dbg d b = Inr b' \<and> buf_ok b' \<and> length rest = length d \<and>
    content b' = d @ drop (length d) (content b @ rest)"
  using append_spec [OF assms, of dbg] by blast

theorem append_overwrites_front_witness:
  "\<exists>b' rest. Buffer_append False [9] (demo_buf\<lparr>writeIndex := 10\<rparr>) = Inr b' \<and> buf_ok b' \<and>
    length rest = 1 \<and> content b' = [9] @ drop 1 ([0, 0] @ rest)"
proof -
  let ?b = "demo_buf\<lparr>writeIndex := 10\<rparr>"
  have ok: "buf_ok ?b"
    by (simp add: demo_buf_def buf_ok_def kCheapPrepend_def max_vector_size_def)
  have room: "length [9 :: byte] \<le> storage_room ?b"
    by (simp add: storage_room_def buf_eval)
  have "content ?b = [0, 0]" by (simp add: buf_eval)
  with append_overwrites_front [OF ok room, of False] show ?thesis by simp
qed

text \<open>C34: Release build: an \<open>append\<close> that does not fit either faults or leaves the write
  index behind the end of the storage.\<close>

theorem append_release_overruns:
  assumes "buf_ok b" and "storage_room b < length d" and "length d < 2 ^ 63"
  shows "(\<exists>e. Buffer_append False d b = Inl e) \<or>
    (\<exists>b'. Buffer_append False d b = Inr b' \<and> length (mem b') < writeIndex b')"
proof (cases "Buffer_append False d b")
  case (Inr b')
  note bd = buf_okD [OF assms(1)] and sz = ok_sizes [OF assms(1)]
  have big: "writeableBytes b + prependableBytes b < length d + kCheapPrepend"
    using assms(2) storage_room_eq [OF assms(1)] by linarith
  then have small: "writeableBytes b < length d"
    using bd by (simp add: prependableBytes_def kCheapPrepend_def)
  have grow: "sz_add (writeableBytes b) (prependableBytes b) < sz_add (length d) kCheapPrepend"
    using big assms(3) bd sz by (simp add: sz_add_small kCheapPrepend_def prependableBytes_def)
  from Inr small obtain b1 m where
    b1: "makeSpace False (length d) b = Inr b1"
    and m: "write_at (mem b1) (beginWrite b1) d = Inr m"
    and b': "b' = b1\<lparr>mem := m, writeIndex := sz_add (writeIndex b1) (length d)\<rparr>"
    by (auto simp: Buffer_append_def ensureWriteableBytes_def hasWritten_def res_simps)
  from b1 grow have same: "mem b1 = mem b" "writeIndex b1 = writeIndex b"
    by (auto simp: makeSpace_def vector_reserve_def split: if_splits)
  have "sz_add (writeIndex b) (length d) = writeIndex b + length d"
    using bd assms(3) by (simp add: sz_add_small)
  then have "length (mem b') < writeIndex b'"
    using length_write_at [OF m] small sz bd by (simp add: b' same)
  with Inr show ?thesis by blast
qed simp

theorem append_release_overruns_witness:
  "\<exists>b'. Buffer_append False [1, 2, 3, 4, 5] (demo_buf\<lparr>writeIndex := 12\<rparr>) = Inr b' \<and>
    length (mem b') < writeIndex b'"
proof -
  let ?b = "demo_buf\<lparr>writeIndex := 12\<rparr>"
  have ok: "buf_ok ?b"
    by (simp add: demo_buf_def buf_ok_def kCheapPrepend_def max_vector_size_def)
  have room: "storage_room ?b < length [1, 2, 3, 4, 5 :: byte]"
    by (simp add: storage_room_def buf_eval)
  have "\<nexists>e. Buffer_append False [1, 2, 3, 4, 5] ?b = Inl e" by (simp add: buf_eval)
  with append_release_overruns [OF ok room] show ?thesis by simp
qed

text \<open>C32: Debug build: an integer just appended, in any of the four widths, is the next one read,
  whatever the buffer held before.\<close>

theorem append_peek_roundtrip:
  assumes "buf_ok b"
  shows "(appendInt64 True x8 b = Inr b8 \<longrightarrow> peekInt64 True b8 = Inr x8) \<and>
    (appendInt32 True x4 b = Inr b4 \<longrightarrow> peekInt32 True b4 = Inr x4) \<and>
    (appendInt16 True x2 b = Inr b2 \<longrightarrow> peekInt16 True b2 = Inr x2) \<and>
    (appendInt8 True x1 b = Inr b1 \<longrightarrow> peekInt8 True b1 = Inr x1)"
  using append_then_peek [OF assms] by blast

lemma appendInt64_demo: "\<exists>b1. appendInt64 True x8 demo_buf = Inr b1"
proof -
  have "length (le_bytes 8 (hostToNetwork64 x8)) \<le> storage_room demo_buf"
    by (simp add: storage_room_def buf_eval)
  from append_spec [OF demo_buf_ok this, of True] show ?thesis
    by (auto simp: appendInt64_def)
qed

theorem append_peek_roundtrip_witness:
  "\<exists>b1. appendInt64 True 258 demo_buf = Inr b1 \<and> peekInt64 True b1 = Inr 258"
  using appendInt64_demo [of 258] append_peek_roundtrip [OF demo_buf_ok, of 258] by blast

text \<open>C35: Either build: \<open>readFd\<close> of a read that fits into the writeable part appends exactly
  the bytes the kernel delivered behind the unread ones and returns their number.\<close>

theorem readFd_appends:
  assumes "buf_ok b" and "length d \<le> writeableBytes b"
  shows "\<exists>b'. readFd dbg (Inr d) b = Inr (b', int (length d), None) \<and> buf_ok b' \<and>
    content b' = content b @ d"
  using readFd_fits [OF assms, of dbg] by blast

theorem readFd_appends_witness:
  "\<exists>b'. readFd True (Inr [7, 8]) demo_buf = Inr (b', 2, None) \<and> buf_ok b' \<and> content b' = [7, 8]"
proof -
  have "length [7, 8 :: byte] \<le> writeableBytes demo_buf" by (simp add: buf_eval)
  from readFd_appends [OF demo_buf_ok this, of True] show ?thesis by (simp add: buf_eval)
qed

text \<open>Either build: \<open>findCRLF\<close> returns the position of the first CR LF among the unread
  bytes, and null exactly when there is none.\<close>

theorem findCRLF_first:
  assumes ok: "buf_ok b"
  shows "\<exists>r. findCRLF b = Inr r \<and>
    (case r of None \<Rightarrow> \<forall>i. take 2 (drop i (content b)) \<noteq> [CR, LF]
     | Some p \<Rightarrow> \<exists>k. p = readIndex b + k \<and> take 2 (drop k (content b)) = [CR, LF] \<and>
         (\<forall>i < k. take 2 (drop i (content b)) \<noteq> [CR, LF]))"
proof -
  note bd = buf_okD [OF ok]
  let ?k = "std_search kCRLF (content b)"
  have len: "length (content b) = writeIndex b - readIndex b"
    by (simp add: length_content [OF ok] readable_ok [OF ok])
  have "sz_sub (writeIndex b) (readIndex b) = readableBytes b" by (simp add: readableBytes_def)
  then have rd: "read_at (mem b) (readIndex b) (sz_sub (writeIndex b) (readIndex b)) = Inr (content b)"
    using read_at_content [OF ok order_refl] length_content [OF ok] by simp
  have f: "findCRLF b = Inr (if ?k = length (content b) then None else Some (readIndex b + ?k))"
    using bd len by (auto simp: findCRLF_def peek_def beginWrite_const_def rd Let_def)
  have two: "length kCRLF = 2" by (simp add: kCRLF_def)
  note s = std_search_spec [of kCRLF "content b", unfolded two]
  show ?thesis
  proof (cases "?k = length (content b)")
    case True
    have "take 2 (drop i (content b)) \<noteq> [CR, LF]" for i
    proof (cases "i < length (content b)")
      case False
      then show ?thesis by simp
    qed (use s True in \<open>simp add: kCRLF_def\<close>)
    with f True show ?thesis by simp
  next
    case False
    with s f show ?thesis by (auto simp: kCRLF_def)
  qed
qed

theorem findCRLF_first_witness:
  "\<exists>b. findCRLF b = Inr (Some 9) \<and> readIndex b = 8 \<and> take 2 (drop 1 (content b)) = [CR, LF] \<and>
    (\<forall>i < 1. take 2 (drop i (content b)) \<noteq> [CR, LF])"
proof -
  let ?b = "demo_buf\<lparr>mem := replicate 8 0 @ [65, 13, 10, 13, 10] @ replicate 3 0, writeIndex := 13\<rparr>"
  have ok: "buf_ok ?b"
    by (simp add: demo_buf_def buf_ok_def kCheapPrepend_def max_vector_size_def)
  have f: "findCRLF ?b = Inr (Some 9)"
    by (simp add: findCRLF_def buf_eval beginWrite_const_def kCRLF_def CR_def LF_def)
  have r: "readIndex ?b = 8" by (simp add: demo_buf_def)
  from findCRLF_first [OF ok] f obtain k where k: "9 = readIndex ?b + k"
    "take 2 (drop k (content ?b)) = [CR, LF]"
    "\<forall>i < k. take 2 (drop i (content ?b)) \<noteq> [CR, LF]" by auto
  have "k = 1" using k(1) unfolding r by simp
  with k f r show ?thesis by blast
qed

text \<open>Either build: consuming the unread bytes in pieces of any sizes gives the same rest as
  consuming their total at once, and never faults while they last.\<close>

theorem retrive_pieces:
  assumes "buf_ok b" and "sum_list ns \<le> readableBytes b"
  shows "\<exists>b'. foldRes (retrive dbg) ns b = Inr b' \<and> buf_ok b' \<and>
    content b' = drop (sum_list ns) (content b)"
  using bsrc.consume_many [OF assms(1)] assms(2) length_content [OF assms(1)] by simp

theorem retrive_pieces_witness:
  "\<exists>b'. foldRes (retrive True) [1, 2] (demo_buf\<lparr>writeIndex := 12\<rparr>) = Inr b' \<and> buf_ok b' \<and>
    content b' = [0]"
proof -
  let ?b = "demo_buf\<lparr>writeIndex := 12\<rparr>"
  have ok: "buf_ok ?b"
    by (simp add: demo_buf_def buf_ok_def kCheapPrepend_def max_vector_size_def)
  have n: "sum_list [1, 2] \<le> readableBytes ?b" by (simp add: buf_eval)
  have "drop (sum_list [1, 2]) (content ?b) = [0]" by (simp add: buf_eval)
  with retrive_pieces [OF ok n, of True] show ?thesis by simp
qed

end
