(* ===== verification/Net_Channel.thy ===== *)
theory Net_Channel
  imports Cpp_Format
begin

unbundle bit_operations_syntax

text \<open>
  An event channel (\<open>net/channel.h\<close>, \<open>net/channel.cpp\<close>): a descriptor, the events it asks
  for, the events \<open>poll\<close> reported and its place in the poller. The callback slots are
  modelled by whether they are set; \<open>handleEvent\<close> yields the callbacks it invokes, in order,
  as a list of \<open>chan_action\<close>, which the owner of the channel runs, with the two assignments of
  \<open>eventHandling_\<close> around them. That list is
  fixed before the first callback runs: the code tests \<open>revents_\<close>, \<open>logHup_\<close> and the slots
  only, and no callback of the repository writes them. Whether the tied object is still
  alive (\<open>tie_.lock()\<close>) is an argument. \<open>Channel::update\<close> and \<open>remove\<close>, which go through the
  loop to the poller, are in \<open>Net_EventLoop\<close>.
\<close>

section \<open>Data\<close>

definition POLLIN :: "32 word" where "POLLIN = 0x001"
definition POLLPRI :: "32 word" where "POLLPRI = 0x002"
definition POLLOUT :: "32 word" where "POLLOUT = 0x004"
definition POLLERR :: "32 word" where "POLLERR = 0x008"
definition POLLHUP :: "32 word" where "POLLHUP = 0x010"
definition POLLNVAL :: "32 word" where "POLLNVAL = 0x020"
definition POLLRDHUP :: "32 word" where "POLLRDHUP = 0x2000"

definition KNoneEvent :: "32 word" where "KNoneEvent = 0"
definition KReadEvent :: "32 word" where "KReadEvent = POLLIN OR POLLPRI"
definition KWriteEvent :: "32 word" where "KWriteEvent = POLLOUT"

record channel =
  ch_fd :: int
  ch_events :: "32 word"
  ch_revents :: "32 word"
  ch_index :: int
  ch_tied :: bool
  logHup :: bool
  ch_eventHandling :: bool
  addToLoop :: bool
  readCallback :: bool
  writeCallback :: bool
  closeCallback :: bool
  errorCallback :: bool

datatype chan_action =
    SetEventHandling bool
  | WarnHup
  | CallClose
  | WarnNval
  | CallError
  | CallRead int
  | CallWrite

definition Channel_ctor :: "int \<Rightarrow> channel" where
  "Channel_ctor fd =
     \<lparr>ch_fd = fd, ch_events = 0, ch_revents = 0, ch_index = 0, ch_tied = False, logHup = True,
      ch_eventHandling = False, addToLoop = False, readCallback = False,
      writeCallback = False, closeCallback = False, errorCallback = False\<rparr>"

text \<open>The setters of the callbacks; an empty function is \<open>False\<close>.\<close>

definition setReadCallback :: "bool \<Rightarrow> channel \<Rightarrow> channel" where
  "setReadCallback cb ch = ch\<lparr>readCallback := cb\<rparr>"

definition setWriteCallback :: "bool \<Rightarrow> channel \<Rightarrow> channel" where
  "setWriteCallback cb ch = ch\<lparr>writeCallback := cb\<rparr>"

definition ch_setCloseCallback :: "bool \<Rightarrow> channel \<Rightarrow> channel" where
  "ch_setCloseCallback cb ch = ch\<lparr>closeCallback := cb\<rparr>"

definition setErrorCallback :: "bool \<Rightarrow> channel \<Rightarrow> channel" where
  "setErrorCallback cb ch = ch\<lparr>errorCallback := cb\<rparr>"

definition Channel_tie :: "channel \<Rightarrow> channel" where
  "Channel_tie ch = ch\<lparr>ch_tied := True\<rparr>"

definition setRevents :: "32 word \<Rightarrow> channel \<Rightarrow> channel" where
  "setRevents revt ch = ch\<lparr>ch_revents := revt\<rparr>"

definition set_eventHandling :: "bool \<Rightarrow> channel \<Rightarrow> channel" where
  "set_eventHandling b ch = ch\<lparr>ch_eventHandling := b\<rparr>"

definition isNoneEvent :: "channel \<Rightarrow> bool" where
  "isNoneEvent ch \<longleftrightarrow> ch_revents ch = KNoneEvent"

definition doNotLogUp :: "channel \<Rightarrow> channel" where
  "doNotLogUp ch = ch\<lparr>logHup := False\<rparr>"

section \<open>Interest\<close>

text \<open>The event masks the enabling methods store before they call \<open>update\<close>.\<close>

definition set_reading :: "channel \<Rightarrow> channel" where
  "set_reading ch = ch\<lparr>ch_events := ch_events ch OR KReadEvent\<rparr>"

definition clear_reading :: "channel \<Rightarrow> channel" where
  "clear_reading ch = ch\<lparr>ch_events := ch_events ch AND NOT KReadEvent\<rparr>"

definition set_writing :: "channel \<Rightarrow> channel" where
  "set_writing ch = ch\<lparr>ch_events := ch_events ch OR KWriteEvent\<rparr>"

definition clear_writing :: "channel \<Rightarrow> channel" where
  "clear_writing ch = ch\<lparr>ch_events := ch_events ch AND NOT KWriteEvent\<rparr>"

definition clear_all :: "channel \<Rightarrow> channel" where
  "clear_all ch = ch\<lparr>ch_events := KNoneEvent\<rparr>"

definition isWriting :: "channel \<Rightarrow> bool" where
  "isWriting ch \<longleftrightarrow> KReadEvent AND ch_events ch \<noteq> 0"

definition isReading :: "channel \<Rightarrow> bool" where
  "isReading ch \<longleftrightarrow> KWriteEvent AND ch_events ch \<noteq> 0"

section \<open>Dispatch\<close>

definition handleEventWithGuard :: "int \<Rightarrow> channel \<Rightarrow> chan_action list" where
  "handleEventWithGuard recvtime ch =
     (let r = ch_revents ch in
      [SetEventHandling True] @
      (if r AND POLLHUP \<noteq> 0 \<and> \<not> (r AND POLLIN \<noteq> 0)
       then (if logHup ch then [WarnHup] else []) @ (if closeCallback ch then [CallClose] else [])
       else []) @
      (if r AND POLLNVAL \<noteq> 0 then [WarnNval] else []) @
      (if r AND (if POLLERR \<noteq> 0 \<or> POLLNVAL \<noteq> 0 then 1 else 0) \<noteq> 0
       then (if errorCallback ch then [CallError] else []) else []) @
      (if r AND (POLLIN OR POLLPRI OR POLLRDHUP) \<noteq> 0
       then (if readCallback ch then [CallRead recvtime] else []) else []) @
      (if r AND POLLOUT \<noteq> 0
       then (if writeCallback ch then [CallWrite] else []) else []) @
      [SetEventHandling False])"

definition handleEvent :: "bool \<Rightarrow> int \<Rightarrow> channel \<Rightarrow> chan_action list" where
  "handleEvent tie_alive recvtime ch =
     (if ch_tied ch
      then (if tie_alive then handleEventWithGuard recvtime ch else [])
      else handleEventWithGuard recvtime ch)"

definition eventsToString :: "int \<Rightarrow> 32 word \<Rightarrow> string" where
  "eventsToString fd ev =
     dec_int fd @ '':'' @
     (if ev AND POLLIN \<noteq> 0 then ''IN'' else []) @
     (if ev AND POLLPRI \<noteq> 0 then ''PRI'' else []) @
     (if ev \<noteq> 0 \<and> POLLOUT \<noteq> 0 then ''OUT'' else []) @
     (if ev \<noteq> 0 \<and> POLLHUP \<noteq> 0 then ''HUP'' else []) @
     (if ev AND POLLRDHUP \<noteq> 0 then ''RDHUP'' else []) @
     (if ev AND POLLERR \<noteq> 0 then ''ERR'' else []) @
     (if ev AND POLLNVAL \<noteq> 0 then ''NVAL'' else [])"

definition reventsToString :: "channel \<Rightarrow> string" where
  "reventsToString ch = eventsToString (ch_fd ch) (ch_revents ch)"

definition Channel_eventsToString :: "channel \<Rightarrow> string" where
  "Channel_eventsToString ch = eventsToString (ch_fd ch) (ch_events ch)"

section \<open>Lemmas\<close>

named_theorems poll_bits \<open>the event constants\<close>

declare POLLIN_def [poll_bits] POLLPRI_def [poll_bits] POLLOUT_def [poll_bits]
  POLLERR_def [poll_bits] POLLHUP_def [poll_bits] POLLNVAL_def [poll_bits]
  POLLRDHUP_def [poll_bits] KNoneEvent_def [poll_bits] KReadEvent_def [poll_bits]
  KWriteEvent_def [poll_bits]

named_theorems chan_defs \<open>the field updates of a channel\<close>

declare set_reading_def [chan_defs] clear_reading_def [chan_defs] set_writing_def [chan_defs]
  clear_writing_def [chan_defs] clear_all_def [chan_defs] setRevents_def [chan_defs]
  Channel_tie_def [chan_defs] isNoneEvent_def [chan_defs] isWriting_def [chan_defs]
  isReading_def [chan_defs] Channel_ctor_def [chan_defs] set_eventHandling_def [chan_defs]

lemma mask_disjoint: "KReadEvent AND KWriteEvent = 0"
  by (simp add: poll_bits)

lemma read_or: "KReadEvent AND (e OR KReadEvent) = KReadEvent"
  and write_or: "KWriteEvent AND (e OR KWriteEvent) = KWriteEvent"
  by (simp_all add: bit_eq_iff bit_simps)

lemma read_or_write: "KReadEvent AND (e OR KWriteEvent) = KReadEvent AND e"
proof -
  have "KReadEvent AND (e OR KWriteEvent) = (KReadEvent AND e) OR (KReadEvent AND KWriteEvent)"
    by (simp add: bit_eq_iff bit_simps) blast
  then show ?thesis by (simp add: mask_disjoint)
qed

lemma write_or_read: "KWriteEvent AND (e OR KReadEvent) = KWriteEvent AND e"
proof -
  have "KWriteEvent AND (e OR KReadEvent) = (KWriteEvent AND e) OR (KReadEvent AND KWriteEvent)"
    by (simp add: bit_eq_iff bit_simps) blast
  then show ?thesis by (simp add: mask_disjoint)
qed

lemma read_clear: "KReadEvent AND (e AND NOT KReadEvent) = 0"
  and write_clear: "KWriteEvent AND (e AND NOT KWriteEvent) = 0"
  by (simp_all add: bit_eq_iff bit_simps)

lemma read_clear_write: "KReadEvent AND (e AND NOT KWriteEvent) = KReadEvent AND e"
proof -
  have k: "KReadEvent AND NOT KWriteEvent = KReadEvent" by (simp add: poll_bits)
  have "KReadEvent AND (e AND NOT KWriteEvent) = (KReadEvent AND NOT KWriteEvent) AND e"
    by (simp only: and.assoc and.commute and.left_commute)
  then show ?thesis by (simp only: k)
qed

lemmas mask_simps = read_or write_or read_or_write write_or_read read_clear write_clear read_clear_write

lemma read_mask_nonzero [simp]: "KReadEvent \<noteq> 0" "KWriteEvent \<noteq> 0"
  by (simp_all add: poll_bits)

text \<open>The two predicates the connection asks are exchanged against the masks they are set by.\<close>

lemma predicates_exchanged:
  "isWriting (set_reading ch)" "isReading (set_writing ch)"
  "isWriting (set_writing ch) = isWriting ch" "isReading (set_reading ch) = isReading ch"
  "\<not> isWriting (clear_reading ch)" "\<not> isReading (clear_writing ch)"
  "isWriting (clear_writing ch) = isWriting ch"
  by (simp_all add: chan_defs mask_simps)

lemma fresh_channel:
  "ch_index (Channel_ctor fd) = 0" "ch_fd (Channel_ctor fd) = fd" "isNoneEvent (Channel_ctor fd)"
  by (simp_all add: chan_defs KNoneEvent_def)

section \<open>Properties\<close>

text \<open>The order of the callbacks of one dispatch: close, error, read, write.\<close>

fun action_rank :: "chan_action \<Rightarrow> nat" where
  "action_rank (SetEventHandling b) = (if b then 0 else 7)"
| "action_rank WarnHup = 1"
| "action_rank CallClose = 2"
| "action_rank WarnNval = 3"
| "action_rank CallError = 4"
| "action_rank (CallRead t) = 5"
| "action_rank CallWrite = 6"

text \<open>\<open>handleEvent\<close> runs each callback at most once, in the order close, error, read,
  write, and none at all when the tied object is gone; read, write and close exactly when their
  event bits are reported and their slot is set. The error callback runs exactly when
  \<open>POLLIN\<close> is reported, because its mask is the logical \<open>POLLERR||POLLNVAL\<close>: every readable
  channel gets it, and a channel with \<open>POLLERR\<close> alone does not.\<close>

theorem handleEvent_dispatch:
  "sorted_wrt (\<lambda>a b. action_rank a < action_rank b) (handleEvent alive t ch) \<and>
   (CallRead u \<in> set (handleEvent alive t ch) \<longleftrightarrow> u = t \<and> (ch_tied ch \<longrightarrow> alive) \<and>
      readCallback ch \<and> ch_revents ch AND (POLLIN OR POLLPRI OR POLLRDHUP) \<noteq> 0) \<and>
   (CallWrite \<in> set (handleEvent alive t ch) \<longleftrightarrow> (ch_tied ch \<longrightarrow> alive) \<and>
      writeCallback ch \<and> ch_revents ch AND POLLOUT \<noteq> 0) \<and>
   (CallError \<in> set (handleEvent alive t ch) \<longleftrightarrow> (ch_tied ch \<longrightarrow> alive) \<and>
      errorCallback ch \<and> ch_revents ch AND POLLIN \<noteq> 0) \<and>
   (CallClose \<in> set (handleEvent alive t ch) \<longleftrightarrow> (ch_tied ch \<longrightarrow> alive) \<and>
      closeCallback ch \<and> ch_revents ch AND POLLHUP \<noteq> 0 \<and> ch_revents ch AND POLLIN = 0)"
  by (auto simp: handleEvent_def handleEventWithGuard_def Let_def POLLERR_def POLLNVAL_def
      POLLIN_def)

text \<open>The guard of the theorem, a tied channel whose owner is alive, at a readable channel that
  the peer has not closed: the error callback runs too.\<close>

theorem handleEvent_dispatch_witness:
  "CallRead 5 \<in> set (handleEvent True 5
     ((Channel_ctor 3)\<lparr>readCallback := True, errorCallback := True, ch_tied := True,
       ch_revents := POLLIN\<rparr>)) \<and>
   CallError \<in> set (handleEvent True 5
     ((Channel_ctor 3)\<lparr>readCallback := True, errorCallback := True, ch_tied := True,
       ch_revents := POLLIN\<rparr>))"
  using handleEvent_dispatch [of True 5
     "(Channel_ctor 3)\<lparr>readCallback := True, errorCallback := True, ch_tied := True,
       ch_revents := POLLIN\<rparr>" 5]
  by (simp add: Channel_ctor_def poll_bits)

end
