(* ===== verification/Net_Poller.thy ===== *)
theory Net_Poller
  imports Net_Channel
begin

unbundle bit_operations_syntax

text \<open>
  The poller (\<open>net/poller.h\<close>, \<open>net/poller.cpp\<close>, \<open>net/epoll_poller.h\<close>,
  \<open>net/epoll_poller.cpp\<close>). Channels are objects of a store, named by their address (a
  \<open>nat\<close>); \<open>channels\<close> is the map from descriptors to channel pointers. The kernel is a
  parameter: \<open>ctl\<close> is \<open>epoll_ctl\<close>, which takes the kernel state, the operation, the
  descriptor and the event (pointer and mask) and tells whether it succeeded;
  \<open>epoll_set\<close> is the documented behaviour of \<open>epoll_ctl\<close> as one such parameter.

  The lemmas show how a channel's index moves between new, added and deleted, which kernel calls
  each move makes, and that a channel as its constructor leaves it (index 0) is outside that
  machine: a Debug build stops at an assertion, a Release build never registers it.
\<close>

section \<open>Data\<close>

definition KNew :: int where "KNew = -1"
definition KAdded :: int where "KAdded = 1"
definition KDeleted :: int where "KDeleted = 2"

datatype epoll_op = EPOLL_CTL_ADD | EPOLL_CTL_DEL | EPOLL_CTL_MOD

record 'k poller =
  channels :: "int \<Rightarrow> nat option"
  eventList_size :: nat
  kern :: 'k

type_synonym chan_store = "nat \<Rightarrow> channel option"
type_synonym 'k epoll_ctl = "'k \<Rightarrow> epoll_op \<Rightarrow> int \<Rightarrow> nat \<Rightarrow> 32 word \<Rightarrow> bool \<times> 'k"

text \<open>The constructor; \<open>epollfd\<close> is what \<open>epoll_create1\<close> answers. \<open>KInitEventSize\<close> is declared in the
  header and given no value.\<close>

definition empty_poller :: "nat \<Rightarrow> 'k \<Rightarrow> 'k poller" where
  "empty_poller KInitEventSize k =
     \<lparr>channels = (\<lambda>_. None), eventList_size = KInitEventSize, kern = k\<rparr>"

definition EPollPoller_ctor :: "nat \<Rightarrow> int \<Rightarrow> 'k \<Rightarrow> 'k poller res" where
  "EPollPoller_ctor KInitEventSize epollfd k =
     (if epollfd < 0 then Inl LogFatal else Inr (empty_poller KInitEventSize k))"

definition hasChannel :: "nat \<Rightarrow> channel \<Rightarrow> 'k poller \<Rightarrow> bool" where
  "hasChannel cid ch p \<longleftrightarrow> channels p (ch_fd ch) = Some cid"

definition operationTostring :: "epoll_op \<Rightarrow> string" where
  "operationTostring op = (case op of EPOLL_CTL_ADD \<Rightarrow> ''ADD''
     | EPOLL_CTL_DEL \<Rightarrow> ''DEL'' | EPOLL_CTL_MOD \<Rightarrow> ''MOD'')"

section \<open>Registration\<close>

definition EPollPoller_update ::
    "'k epoll_ctl \<Rightarrow> epoll_op \<Rightarrow> nat \<Rightarrow> channel \<Rightarrow> 'k poller \<Rightarrow> 'k poller res" where
  "EPollPoller_update ctl operation cid ch p =
     (let (ok, k) = ctl (kern p) operation (ch_fd ch) cid (ch_events ch); p' = p\<lparr>kern := k\<rparr> in
      if ok then Inr p'
      else if operation = EPOLL_CTL_DEL then Inr p' else Inl LogFatal)"

definition EPollPoller_updateChannel ::
    "bool \<Rightarrow> 'k epoll_ctl \<Rightarrow> nat \<Rightarrow> channel \<Rightarrow> 'k poller \<Rightarrow> (channel \<times> 'k poller) res" where
  "EPollPoller_updateChannel dbg ctl cid ch p =
     (let index = ch_index ch; fd = ch_fd ch in
      if index = KNew \<or> index = KDeleted then
        andThen
         (if index = KNew
          then cassert dbg (channels p fd = None) (Inr (p\<lparr>channels := (channels p)(fd := Some cid)\<rparr>))
          else cassert dbg (channels p fd \<noteq> None) (cassert dbg (channels p fd = Some cid) (Inr p)))
         (\<lambda>p1. let ch1 = ch\<lparr>ch_index := KAdded\<rparr> in
          andThen (EPollPoller_update ctl EPOLL_CTL_ADD cid ch1 p1) (\<lambda>p2. Inr (ch1, p2)))
      else
        cassert dbg (channels p fd \<noteq> None)
       (let p1 = (if dbg then p\<lparr>channels := (channels p)(fd := Some cid)\<rparr> else p) in
        cassert dbg (index = KAdded)
        (if isNoneEvent ch
         then let ch1 = ch\<lparr>ch_index := KDeleted\<rparr> in
           andThen (EPollPoller_update ctl EPOLL_CTL_DEL cid ch1 p1) (\<lambda>p2. Inr (ch1, p2))
         else andThen (EPollPoller_update ctl EPOLL_CTL_MOD cid ch p1) (\<lambda>p2. Inr (ch, p2)))))"

definition EPollPoller_removeChannel ::
    "bool \<Rightarrow> 'k epoll_ctl \<Rightarrow> nat \<Rightarrow> channel \<Rightarrow> 'k poller \<Rightarrow> (channel \<times> 'k poller) res" where
  "EPollPoller_removeChannel dbg ctl cid ch p =
     (let fd = ch_fd ch in
      cassert dbg (channels p fd \<noteq> None)
     (let p0 = (if dbg then p\<lparr>channels := (channels p)(fd := Some cid)\<rparr> else p) in
      cassert dbg (isNoneEvent ch)
     (let index = ch_index ch in
      cassert dbg (index = KAdded \<or> index = KDeleted)
     (let n = (if channels p0 fd = None then 0 else 1 :: nat);
          p1 = p0\<lparr>channels := (channels p0)(fd := None)\<rparr> in
      cassert dbg (n = 1)
      (andThen (if index = KAdded then EPollPoller_update ctl EPOLL_CTL_DEL cid ch p1 else Inr p1)
        (\<lambda>p2. Inr (ch\<lparr>ch_index := KNew\<rparr>, p2)))))))"

section \<open>Polling\<close>

text \<open>
  \<open>eventList\<close> after \<open>epoll_wait\<close> holds pairs of a channel pointer and an event mask. A
  pointer to no live channel is a fault.
\<close>

fun fill_events ::
    "bool \<Rightarrow> 'k poller \<Rightarrow> (nat \<times> 32 word) list \<Rightarrow> chan_store \<Rightarrow> nat list \<Rightarrow> (chan_store \<times> nat list) res" where
  "fill_events dbg p [] st activechannel = Inr (st, activechannel)"
| "fill_events dbg p ((channel, ev) # evs) st activechannel =
     (case st channel of
        None \<Rightarrow> Inl NullDeref
      | Some ch \<Rightarrow>
          let fd = ch_fd ch in
          cassert dbg (channels p fd \<noteq> None)
         (cassert dbg (channels p fd = Some channel)
          (fill_events dbg p evs (st(channel := Some (setRevents ev ch))) (activechannel @ [channel]))))"

definition fillActiveList ::
    "bool \<Rightarrow> 'k poller \<Rightarrow> (nat \<times> 32 word) list \<Rightarrow> chan_store \<Rightarrow> nat list \<Rightarrow> (chan_store \<times> nat list) res" where
  "fillActiveList dbg p evs st activechannel =
     cassert dbg (length evs \<le> eventList_size p) (fill_events dbg p evs st activechannel)"

text \<open>\<open>poll\<close>: the result of \<open>epoll_wait\<close> is an errno or the events it stored.\<close>

definition EPollPoller_poll ::
    "bool \<Rightarrow> int + (nat \<times> 32 word) list \<Rightarrow> chan_store \<Rightarrow> nat list \<Rightarrow> 'k poller \<Rightarrow>
     (chan_store \<times> nat list \<times> 'k poller) res" where
  "EPollPoller_poll dbg r st activeChannel p =
     (case r of
        Inl savedErrorno \<Rightarrow> Inr (st, activeChannel, p)
      | Inr [] \<Rightarrow> Inr (st, activeChannel, p)
      | Inr evs \<Rightarrow>
          andThen (fillActiveList dbg p evs st activeChannel) (\<lambda>(st', active').
          Inr (st', active',
               if length evs = eventList_size p then p\<lparr>eventList_size := length evs * 2\<rparr> else p)))"

section \<open>The documented kernel\<close>

text \<open>
  \<open>epoll_ctl\<close> on an interest list: adding a present descriptor and changing or deleting an
  absent one fail.
\<close>

definition epoll_set :: "(int \<Rightarrow> (nat \<times> 32 word) option) epoll_ctl" where
  "epoll_set k op fd ptr ev =
     (case op of
        EPOLL_CTL_ADD \<Rightarrow> (if k fd = None then (True, k(fd := Some (ptr, ev))) else (False, k))
      | EPOLL_CTL_DEL \<Rightarrow> (if k fd = None then (False, k) else (True, k(fd := None)))
      | EPOLL_CTL_MOD \<Rightarrow> (if k fd = None then (False, k) else (True, k(fd := Some (ptr, ev)))))"

section \<open>Registration of channels\<close>

lemmas poll_ops = EPollPoller_updateChannel_def EPollPoller_removeChannel_def EPollPoller_update_def

lemma index_distinct [simp]:
  "KNew \<noteq> KAdded" "KNew \<noteq> KDeleted" "KAdded \<noteq> KDeleted"
  "KAdded \<noteq> KNew" "KDeleted \<noteq> KNew" "KDeleted \<noteq> KAdded"
  "KNew \<noteq> 0" "KAdded \<noteq> 0" "KDeleted \<noteq> 0" "0 \<noteq> KNew" "0 \<noteq> KAdded" "0 \<noteq> KDeleted"
  by (simp_all add: KNew_def KAdded_def KDeleted_def)

text \<open>The states of a correctly initialised channel, and what the poller knows of it.\<close>

definition poll_inv :: "chan_store \<times> (int \<Rightarrow> (nat \<times> 32 word) option) poller \<Rightarrow> bool" where
  "poll_inv sp \<longleftrightarrow> (case sp of (st, p) \<Rightarrow>
     (\<forall>fd cid. channels p fd = Some cid \<longrightarrow>
        (\<exists>ch. st cid = Some ch \<and> ch_fd ch = fd \<and> ch_index ch \<in> {KAdded, KDeleted})) \<and>
     (\<forall>cid ch. st cid = Some ch \<and> ch_index ch \<in> {KAdded, KDeleted} \<longrightarrow>
        channels p (ch_fd ch) = Some cid) \<and>
     (\<forall>fd. kern p fd \<noteq> None \<longleftrightarrow>
        (\<exists>cid ch. channels p fd = Some cid \<and> st cid = Some ch \<and> ch_index ch = KAdded)))"

datatype poll_op =
    PCtor nat int
  | PEvents nat "32 word"
  | PRevents nat "32 word"
  | PUpdate nat
  | PRemove nat

text \<open>One step on the store and the poller; only unused addresses get a new channel.\<close>

fun poll_step ::
    "bool \<Rightarrow> 'k epoll_ctl \<Rightarrow> poll_op \<Rightarrow> chan_store \<times> 'k poller \<Rightarrow> (chan_store \<times> 'k poller) res" where
  "poll_step dbg ctl (PCtor cid fd) (st, p) =
     (if st cid = None then Inr (st(cid := Some (Channel_ctor fd)), p) else Inr (st, p))"
| "poll_step dbg ctl (PEvents cid ev) (st, p) =
     (case st cid of None \<Rightarrow> Inl NullDeref
      | Some ch \<Rightarrow> Inr (st(cid := Some (ch\<lparr>ch_events := ev\<rparr>)), p))"
| "poll_step dbg ctl (PRevents cid ev) (st, p) =
     (case st cid of None \<Rightarrow> Inl NullDeref | Some ch \<Rightarrow> Inr (st(cid := Some (setRevents ev ch)), p))"
| "poll_step dbg ctl (PUpdate cid) (st, p) =
     (case st cid of None \<Rightarrow> Inl NullDeref
      | Some ch \<Rightarrow> andThen (EPollPoller_updateChannel dbg ctl cid ch p)
          (\<lambda>(ch', p'). Inr (st(cid := Some ch'), p')))"
| "poll_step dbg ctl (PRemove cid) (st, p) =
     (case st cid of None \<Rightarrow> Inl NullDeref
      | Some ch \<Rightarrow> andThen (EPollPoller_removeChannel dbg ctl cid ch p)
          (\<lambda>(ch', p'). Inr (st(cid := Some ch'), p')))"


lemma poll_invD:
  assumes "poll_inv (st, p)"
  shows "channels p fd = Some cid \<Longrightarrow>
      \<exists>ch. st cid = Some ch \<and> ch_fd ch = fd \<and> ch_index ch \<in> {KAdded, KDeleted}"
    and "st cid = Some ch \<Longrightarrow> ch_index ch \<in> {KAdded, KDeleted} \<Longrightarrow> channels p (ch_fd ch) = Some cid"
    and "kern p fd \<noteq> None \<longleftrightarrow>
      (\<exists>cid ch. channels p fd = Some cid \<and> st cid = Some ch \<and> ch_index ch = KAdded)"
  using assms unfolding poll_inv_def by blast+

text \<open>Moving one channel to index \<open>i\<close> keeps the invariant if map and kernel follow it.\<close>

lemma poll_inv_move:
  assumes inv: "poll_inv (st, p)" and cid: "st cid = Some ch"
    and free: "channels p (ch_fd ch) \<in> {None, Some cid}"
    and map: "channels p' = (channels p)(ch_fd ch := if i \<in> {KAdded, KDeleted} then Some cid else None)"
    and krn: "\<And>fd. kern p' fd \<noteq> None \<longleftrightarrow> (if fd = ch_fd ch then i = KAdded else kern p fd \<noteq> None)"
    and ch': "ch_fd ch' = ch_fd ch" "ch_index ch' = i"
  shows "poll_inv (st(cid := Some ch'), p')"
proof -
  note d = poll_invD [OF inv]
  have one: "channels p fd = Some cid \<Longrightarrow> fd = ch_fd ch" for fd
    using d(1) [of fd cid] cid by auto
  have map': "channels p' fd = Some c \<Longrightarrow>
      \<exists>ch''. (st(cid := Some ch')) c = Some ch'' \<and> ch_fd ch'' = fd \<and> ch_index ch'' \<in> {KAdded, KDeleted}"
    for fd c
    using d(1) [of fd c] one [of fd] ch' by (auto simp: map split: if_splits)
  have idx: "(st(cid := Some ch')) c = Some ch'' \<Longrightarrow> ch_index ch'' \<in> {KAdded, KDeleted} \<Longrightarrow>
      channels p' (ch_fd ch'') = Some c" for c ch''
    using d(2) [of c ch''] ch' free by (auto simp: map split: if_splits)
  have k: "kern p' fd \<noteq> None \<longleftrightarrow>
      (\<exists>c ch''. channels p' fd = Some c \<and> (st(cid := Some ch')) c = Some ch'' \<and> ch_index ch'' = KAdded)"
    for fd
  proof (cases "fd = ch_fd ch")
    case True
    then show ?thesis using ch' krn [of fd] by (auto simp: map)
  next
    case False
    then have "channels p fd \<noteq> Some cid" using one by blast
    then show ?thesis using False d(3) [of fd] krn [of fd] by (auto simp: map)
  qed
  show ?thesis unfolding poll_inv_def using map' idx k by simp
qed

lemma epoll_set_simps:
  "epoll_set k EPOLL_CTL_ADD fd ptr ev = (if k fd = None then (True, k(fd := Some (ptr, ev))) else (False, k))"
  "epoll_set k EPOLL_CTL_DEL fd ptr ev = (k fd \<noteq> None, k(fd := None))"
  "epoll_set k EPOLL_CTL_MOD fd ptr ev = (if k fd = None then (False, k) else (True, k(fd := Some (ptr, ev))))"
  by (auto simp: epoll_set_def fun_eq_iff)

lemma update_debug_inv:
  assumes inv: "poll_inv (st, p)" and cid: "st cid = Some ch"
    and h: "EPollPoller_updateChannel True epoll_set cid ch p = Inr (ch', p')"
  shows "poll_inv (st(cid := Some ch'), p')"
proof -
  note d = poll_invD [OF inv]
  consider (new) "ch_index ch = KNew" | (deleted) "ch_index ch = KDeleted"
    | (off) "ch_index ch = KAdded" "isNoneEvent ch" | (on) "ch_index ch = KAdded" "\<not> isNoneEvent ch"
    using h by (auto simp: EPollPoller_updateChannel_def Let_def res_simps split: if_splits)
  then show ?thesis
  proof cases
    case new
    then show ?thesis using h
      by (intro poll_inv_move [OF inv cid, where i = KAdded])
        (auto simp: poll_ops Let_def res_simps epoll_set_simps split: if_splits)
  next
    case deleted
    then show ?thesis using h
      by (intro poll_inv_move [OF inv cid, where i = KAdded])
        (auto simp: poll_ops Let_def res_simps epoll_set_simps fun_upd_idem split: if_splits)
  next
    case off
    then have "channels p (ch_fd ch) = Some cid" using d(2) [OF cid] by simp
    then show ?thesis using h off
      by (intro poll_inv_move [OF inv cid, where i = KDeleted])
        (auto simp: poll_ops Let_def res_simps epoll_set_simps fun_upd_idem split: if_splits)
  next
    case on
    then have "channels p (ch_fd ch) = Some cid" using d(2) [OF cid] by simp
    then show ?thesis using h on
      by (intro poll_inv_move [OF inv cid, where i = KAdded])
        (auto simp: poll_ops Let_def res_simps epoll_set_simps fun_upd_idem split: if_splits)
  qed
qed

lemma remove_debug_inv:
  assumes inv: "poll_inv (st, p)" and cid: "st cid = Some ch"
    and h: "EPollPoller_removeChannel True epoll_set cid ch p = Inr (ch', p')"
  shows "poll_inv (st(cid := Some ch'), p')"
proof -
  note d = poll_invD [OF inv]
  from h have "ch_index ch \<in> {KAdded, KDeleted}"
    by (auto simp: EPollPoller_removeChannel_def Let_def res_simps split: if_splits)
  then have c: "channels p (ch_fd ch) = Some cid" using d(2) [OF cid] by simp
  have k: "kern p (ch_fd ch) \<noteq> None \<longleftrightarrow> ch_index ch = KAdded"
    using d(3) [of "ch_fd ch"] c cid by auto
  show ?thesis using h c k
    by (intro poll_inv_move [OF inv cid, where i = KNew])
      (auto simp: poll_ops Let_def res_simps epoll_set_simps fun_upd_idem split: if_splits)
qed

text \<open>Steps that leave index, descriptor and registration alone.\<close>

lemma poll_inv_same:
  assumes inv: "poll_inv (st, p)" and cid: "st cid = Some ch"
    and "ch_fd ch' = ch_fd ch" "ch_index ch' = ch_index ch"
  shows "poll_inv (st(cid := Some ch'), p)"
proof -
  note d = poll_invD [OF inv]
  let ?st = "st(cid := Some ch')"
  have a: "channels p fd = Some c \<Longrightarrow>
      \<exists>x. ?st c = Some x \<and> ch_fd x = fd \<and> ch_index x \<in> {KAdded, KDeleted}" for fd c
    using d(1) [of fd c] assms(2-) by (cases "c = cid") auto
  have b: "?st c = Some x \<Longrightarrow> ch_index x \<in> {KAdded, KDeleted} \<Longrightarrow> channels p (ch_fd x) = Some c"
    for c x
    using d(2) [of c] assms(2-) by (cases "c = cid") auto
  have k: "kern p fd \<noteq> None \<longleftrightarrow>
      (\<exists>c x. channels p fd = Some c \<and> ?st c = Some x \<and> ch_index x = KAdded)" for fd
    unfolding d(3) using assms(2-) by (auto split: if_splits)
  show ?thesis unfolding poll_inv_def using a b k by simp
qed

lemma poll_inv_fresh:
  assumes inv: "poll_inv (st, p)" and "st cid = None" "ch_index ch \<notin> {KAdded, KDeleted}"
  shows "poll_inv (st(cid := Some ch), p)"
proof -
  note d = poll_invD [OF inv]
  let ?st = "st(cid := Some ch)"
  have c: "channels p fd \<noteq> Some cid" for fd
    using d(1) [of fd cid] assms(2) by auto
  have a: "channels p fd = Some c \<Longrightarrow>
      \<exists>x. ?st c = Some x \<and> ch_fd x = fd \<and> ch_index x \<in> {KAdded, KDeleted}" for fd c
    using d(1) [of fd c] assms(2) by auto
  have b: "?st c = Some x \<Longrightarrow> ch_index x \<in> {KAdded, KDeleted} \<Longrightarrow> channels p (ch_fd x) = Some c"
    for c x
    using d(2) [of c] assms(2-) by (cases "c = cid") auto
  have k: "kern p fd \<noteq> None \<longleftrightarrow>
      (\<exists>c x. channels p fd = Some c \<and> ?st c = Some x \<and> ch_index x = KAdded)" for fd
  proof -
    have "channels p fd = Some c \<Longrightarrow> ?st c = st c" for c using c [of fd] by auto
    then show ?thesis unfolding d(3) by metis
  qed
  show ?thesis unfolding poll_inv_def using a b k by simp
qed

lemma poll_step_inv:
  assumes "poll_inv sp" "poll_step True epoll_set op sp = Inr sp'"
  shows "poll_inv sp'"
proof -
  obtain st p where sp: "sp = (st, p)" by (cases sp)
  note inv = assms(1) [unfolded sp] and h = assms(2) [unfolded sp]
  show ?thesis
  proof (cases op)
    case (PCtor cid fd)
    then show ?thesis using h inv poll_inv_fresh [OF inv, of cid "Channel_ctor fd"]
      by (auto simp: fresh_channel split: if_splits)
  next
    case (PEvents cid ev)
    then show ?thesis using h poll_inv_same [OF inv] by (auto split: option.splits)
  next
    case (PRevents cid ev)
    then show ?thesis using h poll_inv_same [OF inv]
      by (auto simp: setRevents_def split: option.splits)
  next
    case (PUpdate cid)
    then show ?thesis using h update_debug_inv [OF inv]
      by (auto simp: res_simps split: option.splits)
  next
    case (PRemove cid)
    then show ?thesis using h remove_debug_inv [OF inv]
      by (auto simp: res_simps split: option.splits)
  qed
qed

interpretation pollm: invariant_machine "poll_step True epoll_set" poll_inv
  by unfold_locales (rule poll_step_inv)


section \<open>The channel a constructor returns\<close>

lemma update_debug_fresh:
  "ch_index ch \<notin> {KNew, KAdded, KDeleted} \<Longrightarrow>
   EPollPoller_updateChannel True ctl cid ch p = Inl AssertFail"
  by (auto simp: EPollPoller_updateChannel_def Let_def cassert_def)

text \<open>\<open>n\<close> calls of \<open>updateChannel\<close> on one channel.\<close>

fun updates ::
    "bool \<Rightarrow> 'k epoll_ctl \<Rightarrow> nat \<Rightarrow> nat \<Rightarrow> channel \<times> 'k poller \<Rightarrow> (channel \<times> 'k poller) res" where
  "updates dbg ctl cid 0 cp = Inr cp"
| "updates dbg ctl cid (Suc n) cp =
     andThen (updates dbg ctl cid n cp) (\<lambda>(ch, p). EPollPoller_updateChannel dbg ctl cid ch p)"

lemma update_release_idle:
  assumes "isNoneEvent ch"
  shows "ch_index ch \<in> {0, KAdded} \<Longrightarrow>
      EPollPoller_updateChannel False epoll_set cid ch p =
        Inr (ch\<lparr>ch_index := KDeleted\<rparr>, p\<lparr>kern := (kern p)(ch_fd ch := None)\<rparr>)"
    and "ch_index ch = KDeleted \<Longrightarrow> kern p (ch_fd ch) = None \<Longrightarrow>
      EPollPoller_updateChannel False epoll_set cid ch p =
        Inr (ch\<lparr>ch_index := KAdded\<rparr>, p\<lparr>kern := (kern p)(ch_fd ch := Some (cid, ch_events ch))\<rparr>)"
  using assms by (auto simp: poll_ops epoll_set_simps Let_def isNoneEvent_def)

lemma updates_release:
  assumes "kern p fd = None"
  shows "updates False epoll_set cid (Suc n) ((Channel_ctor fd)\<lparr>ch_events := ev\<rparr>, p) =
    (if even n
     then Inr ((Channel_ctor fd)\<lparr>ch_events := ev, ch_index := KDeleted\<rparr>, p\<lparr>kern := (kern p)(fd := None)\<rparr>)
     else Inr ((Channel_ctor fd)\<lparr>ch_events := ev, ch_index := KAdded\<rparr>,
            p\<lparr>kern := (kern p)(fd := Some (cid, ev))\<rparr>))"
proof (induction n)
  case 0
  show ?case
    using update_release_idle(1) [of "(Channel_ctor fd)\<lparr>ch_events := ev\<rparr>" cid p]
    by (simp add: Channel_ctor_def isNoneEvent_def KNoneEvent_def)
next
  case (Suc n)
  show ?case
  proof (cases "even n")
    case True
    let ?ch = "(Channel_ctor fd)\<lparr>ch_events := ev, ch_index := KDeleted\<rparr>"
    let ?p = "p\<lparr>kern := (kern p)(fd := None)\<rparr>"
    have "EPollPoller_updateChannel False epoll_set cid ?ch ?p = Inr (?ch\<lparr>ch_index := KAdded\<rparr>,
        ?p\<lparr>kern := (kern ?p)(fd := Some (cid, ev))\<rparr>)"
      using update_release_idle(2) [of ?ch ?p cid]
      by (simp add: Channel_ctor_def isNoneEvent_def KNoneEvent_def)
    then show ?thesis using Suc True by simp
  next
    case False
    let ?ch = "(Channel_ctor fd)\<lparr>ch_events := ev, ch_index := KAdded\<rparr>"
    let ?p = "p\<lparr>kern := (kern p)(fd := Some (cid, ev))\<rparr>"
    have "EPollPoller_updateChannel False epoll_set cid ?ch ?p = Inr (?ch\<lparr>ch_index := KDeleted\<rparr>,
        ?p\<lparr>kern := (kern ?p)(fd := None)\<rparr>)"
      using update_release_idle(1) [of ?ch cid ?p]
      by (simp add: Channel_ctor_def isNoneEvent_def KNoneEvent_def)
    then show ?thesis using Suc False by simp
  qed
qed

section \<open>Filling the active list\<close>

text \<open>The active channels are those the events name.\<close>

lemma fill_events_active:
  "fill_events dbg p evs st act = Inr (st', act') \<Longrightarrow> act' = act @ map fst evs"
  by (induction dbg p evs st act arbitrary: st' act' rule: fill_events.induct)
    (auto simp: Let_def res_simps split: option.splits)

lemma poll_active:
  "EPollPoller_poll dbg (Inr evs) st act p = Inr (st', act', p') \<Longrightarrow> act' = act @ map fst evs"
  by (cases evs) (auto simp: EPollPoller_poll_def fillActiveList_def res_simps dest!: fill_events_active)

lemma fill_events_debug:
  "fill_events True p evs st act = Inr (st', act') \<Longrightarrow>
   act' = act @ map fst evs \<and> (\<forall>c. c \<notin> fst ` set evs \<longrightarrow> st' c = st c) \<and>
   (\<forall>c \<in> fst ` set evs. \<exists>ch. st c = Some ch \<and> channels p (ch_fd ch) = Some c)"
proof (induction True p evs st act arbitrary: st' act' rule: fill_events.induct)
  case (2 p channel ev evs st act)
  from "2.prems" obtain ch where ch: "st channel = Some ch" "channels p (ch_fd ch) = Some channel"
    and rest: "fill_events True p evs (st(channel := Some (setRevents ev ch))) (act @ [channel]) = Inr (st', act')"
    by (auto simp: Let_def res_simps split: option.splits)
  note IH = "2.hyps" [OF ch(1) refl rest]
  have "\<exists>ch. st c = Some ch \<and> channels p (ch_fd ch) = Some c" if "c \<in> fst ` set evs" for c
    using IH that ch by (cases "c = channel") auto
  then show ?case using IH ch by auto
qed simp

section \<open>Properties\<close>

text \<open>C10: Debug build: whatever sequence of channel constructions, event-mask changes, reported
  events, \<open>updateChannel\<close> and \<open>removeChannel\<close> calls passes its assertions, the poller's map holds
  exactly the channels whose index is added or deleted, under their descriptor, and the kernel's
  interest list exactly the added ones.\<close>

theorem poller_registration_invariant:
  assumes "poll_inv (st, p)" and "foldRes (poll_step True epoll_set) ops (st, p) = Inr (st', p')"
  shows "poll_inv (st', p')"
  using pollm.inv_run [OF assms] .

text \<open>A channel that is new, as \<open>removeChannel\<close> leaves one, and a poller without channels.\<close>

definition demo_poller :: "(int \<Rightarrow> (nat \<times> 32 word) option) poller" where
  "demo_poller = empty_poller 16 (\<lambda>_. None)"

definition demo_store :: chan_store where
  "demo_store = (\<lambda>_. None)(7 := Some ((Channel_ctor 4)\<lparr>ch_index := KNew\<rparr>))"

lemma demo_poll_inv: "poll_inv (demo_store, demo_poller)"
  by (simp add: poll_inv_def demo_store_def demo_poller_def empty_poller_def)

theorem poller_registration_invariant_witness:
  "poll_inv (demo_store(7 := Some ((Channel_ctor 4)\<lparr>ch_events := 3, ch_index := KAdded\<rparr>)),
     demo_poller\<lparr>channels := (\<lambda>_. None)(4 := Some 7), kern := (\<lambda>_. None)(4 := Some (7, 3))\<rparr>)"
proof -
  have "foldRes (poll_step True epoll_set) [PEvents 7 3, PUpdate 7] (demo_store, demo_poller) =
    Inr (demo_store(7 := Some ((Channel_ctor 4)\<lparr>ch_events := 3, ch_index := KAdded\<rparr>)),
      demo_poller\<lparr>channels := (\<lambda>_. None)(4 := Some 7), kern := (\<lambda>_. None)(4 := Some (7, 3))\<rparr>)"
    by (simp add: demo_store_def demo_poller_def empty_poller_def poll_ops epoll_set_simps
        Let_def Channel_ctor_def cassert_def)
  from poller_registration_invariant [OF demo_poll_inv this] show ?thesis .
qed

text \<open>Debug build: the first \<open>updateChannel\<close> of a channel as its constructor leaves it
  (index 0, not the poller's "new") fails an assertion, whatever the masks, the map and the
  kernel.\<close>

theorem update_constructed_debug:
  "EPollPoller_updateChannel True ctl cid ((Channel_ctor fd)\<lparr>ch_events := ev, addToLoop := a\<rparr>) p =
     Inl AssertFail"
  by (rule update_debug_fresh) (simp add: Channel_ctor_def)

text \<open>Release build: with no event reported yet, successive \<open>updateChannel\<close> calls on a
  constructed channel alternate between removing it from the kernel's interest list and adding
  it: after an odd number of calls the kernel does not watch the descriptor, and the poller's map
  never learns of the channel.\<close>

theorem update_constructed_release:
  assumes "kern p fd = None"
  shows "\<exists>ch p'. updates False epoll_set cid (Suc n) ((Channel_ctor fd)\<lparr>ch_events := ev\<rparr>, p) = Inr (ch, p') \<and>
    channels p' = channels p \<and> kern p' fd = (if even n then None else Some (cid, ev))"
  using updates_release [OF assms, of cid n ev] by (auto simp: fun_upd_idem)

theorem update_constructed_release_witness:
  "\<exists>ch p'. updates False epoll_set 7 1 ((Channel_ctor 4)\<lparr>ch_events := KReadEvent\<rparr>, demo_poller) = Inr (ch, p') \<and>
    channels p' = channels demo_poller \<and> kern p' 4 = None"
proof -
  have "kern demo_poller 4 = None" by (simp add: demo_poller_def empty_poller_def)
  from update_constructed_release [OF this, of 7 0 KReadEvent] show ?thesis by simp
qed

text \<open>Debug build: when \<open>poll\<close> returns, the active list holds the reported channels in the
  kernel's order, every one of them registered in the map, and no other channel changed.\<close>

theorem poll_reports_registered:
  assumes "EPollPoller_poll True (Inr evs) st [] p = Inr (st', act, p')"
  shows "act = map fst evs \<and> (\<forall>c. c \<notin> set act \<longrightarrow> st' c = st c) \<and>
    (\<forall>c \<in> set act. \<exists>ch. st c = Some ch \<and> channels p (ch_fd ch) = Some c)"
proof (cases evs)
  case Nil
  then show ?thesis using assms by (simp add: EPollPoller_poll_def)
next
  case (Cons e es)
  with assms have "fill_events True p evs st [] = Inr (st', act)"
    by (auto simp: EPollPoller_poll_def fillActiveList_def res_simps)
  from fill_events_debug [OF this] show ?thesis by simp
qed

theorem poll_reports_registered_witness:
  "\<exists>st'. EPollPoller_poll True (Inr [(7, 1)])
     (demo_store(7 := Some ((Channel_ctor 4)\<lparr>ch_index := KAdded\<rparr>))) []
     (demo_poller\<lparr>channels := (\<lambda>_. None)(4 := Some 7)\<rparr>) =
     Inr (st', [7], demo_poller\<lparr>channels := (\<lambda>_. None)(4 := Some 7)\<rparr>) \<and> st' 9 = None"
proof -
  let ?st = "demo_store(7 := Some ((Channel_ctor 4)\<lparr>ch_index := KAdded\<rparr>))"
  let ?p = "demo_poller\<lparr>channels := (\<lambda>_. None)(4 := Some 7)\<rparr>"
  let ?ch = "(Channel_ctor 4)\<lparr>ch_index := KAdded\<rparr>"
  have fd: "?st 7 = Some ?ch" "channels ?p (ch_fd ?ch) = Some 7"
    by (simp_all add: fresh_channel)
  then have "fill_events True ?p [(7, 1)] ?st [] = Inr (?st(7 := Some (setRevents 1 ?ch)), [7])"
    by (simp add: cassert_def Let_def)
  then have r: "EPollPoller_poll True (Inr [(7, 1)]) ?st [] ?p =
      Inr (?st(7 := Some (setRevents 1 ?ch)), [7], ?p)"
    by (simp add: EPollPoller_poll_def fillActiveList_def demo_poller_def empty_poller_def
        cassert_def del: fill_events.simps)
  have "?st 9 = None" by (simp add: demo_store_def)
  moreover have "(9::nat) \<notin> set [7]" by simp
  ultimately show ?thesis using r poll_reports_registered [OF r] by metis
qed

end
