(* ===== verification/Net_EventLoop.thy ===== *)
theory Net_EventLoop
  imports Net_Poller
begin

unbundle bit_operations_syntax

text \<open>
  The event loop (\<open>net/event_loop.h\<close>, \<open>net/event_loop.cpp\<close>) and the channel operations
  that go through it (\<open>Channel::update\<close>, \<open>remove\<close>, the enabling methods and the
  destructor).

  A loop owns a poller, the store of its channels, the queue of pending functors and the counter
  of its \<open>eventfd\<close>. The calling thread is an argument \<open>me\<close>; a call from the wrong thread
  ends in \<open>LOG_FATAL\<close>. Functors are values of a type \<open>'f\<close>; what running one does is the
  argument \<open>exec\<close>, what the handlers of a channel do the argument \<open>dispatch\<close>. The loop
  itself is a \<open>partial_function\<close>, whose value \<open>None\<close> means that it never returns.

  The lemmas show: what the loop does as it is written; what the constructor leaves behind in
  either build; and, over an interleaving of the loop thread with other threads as an inductive
  step relation, that no functor is lost, run twice or left waiting without a wakeup.
\<close>

section \<open>Data\<close>

record ('k, 'f) evloop =
  looping :: bool
  quit_flag :: bool
  loop_eventHandling :: bool
  callingPendingFunctors :: bool
  iteration :: int
  threadId :: int
  loop_poller :: "'k poller"
  chans :: chan_store
  wakeupFd :: nat
  activeChannels :: "nat list"
  currentActiveChannel :: "nat option"
  pendingFunctors :: "'f list"
  pollReturnTime :: int
  loop_context :: "nat option"

definition isInLoopThread :: "int \<Rightarrow> ('k, 'f) evloop \<Rightarrow> bool" where
  "isInLoopThread me L \<longleftrightarrow> threadId L = me"

definition assertInLoopThread :: "int \<Rightarrow> ('k, 'f) evloop \<Rightarrow> 'a res \<Rightarrow> 'a res" where
  "assertInLoopThread me L k = (if \<not> isInLoopThread me L then Inl LogFatal else k)"

section \<open>Functors and the wakeup descriptor\<close>

text \<open>Writing 1 to the \<open>eventfd\<close> adds to its counter, which saturates; reading clears it.\<close>

definition wakeup :: "('k, 'f) evloop \<Rightarrow> ('k, 'f) evloop" where
  "wakeup L = (if wakeupFd L + 1 < 2 ^ 64 - 1 then L\<lparr>wakeupFd := wakeupFd L + 1\<rparr> else L)"

definition EventLoop_handleRead :: "('k, 'f) evloop \<Rightarrow> ('k, 'f) evloop" where
  "EventLoop_handleRead L = L\<lparr>wakeupFd := 0\<rparr>"

text \<open>\<open>queueInLoop\<close> in its two steps: the push under the mutex, then the wakeup.\<close>

definition queue_push :: "'f \<Rightarrow> ('k, 'f) evloop \<Rightarrow> ('k, 'f) evloop" where
  "queue_push cb L = L\<lparr>pendingFunctors := pendingFunctors L @ [cb]\<rparr>"

definition queueInLoop :: "int \<Rightarrow> 'f \<Rightarrow> ('k, 'f) evloop \<Rightarrow> ('k, 'f) evloop" where
  "queueInLoop me cb L =
     (let L1 = queue_push cb L in
      if \<not> isInLoopThread me L1 \<or> callingPendingFunctors L1 then wakeup L1 else L1)"

definition runInLoop ::
    "('f \<Rightarrow> ('k, 'f) evloop \<Rightarrow> ('k, 'f) evloop res) \<Rightarrow> int \<Rightarrow> 'f \<Rightarrow> ('k, 'f) evloop \<Rightarrow> ('k, 'f) evloop res" where
  "runInLoop exec me cb L = (if isInLoopThread me L then exec cb L else Inr (queueInLoop me cb L))"

definition queueSize :: "('k, 'f) evloop \<Rightarrow> nat" where
  "queueSize L = length (pendingFunctors L)"

text \<open>\<open>doPendingFunctors\<close>: take the queue, then run what was in it.\<close>

definition swap_functors :: "('k, 'f) evloop \<Rightarrow> 'f list \<times> ('k, 'f) evloop" where
  "swap_functors L = (pendingFunctors L, L\<lparr>callingPendingFunctors := True, pendingFunctors := []\<rparr>)"

definition doPendingFunctors ::
    "('f \<Rightarrow> ('k, 'f) evloop \<Rightarrow> ('k, 'f) evloop res) \<Rightarrow> ('k, 'f) evloop \<Rightarrow> ('k, 'f) evloop res" where
  "doPendingFunctors exec L =
     (let (functors, L1) = swap_functors L in
      andThen (foldRes exec functors L1) (\<lambda>L2. Inr (L2\<lparr>callingPendingFunctors := False\<rparr>)))"

definition EventLoop_setContext :: "nat \<Rightarrow> ('k, 'f) evloop \<Rightarrow> ('k, 'f) evloop" where
  "EventLoop_setContext obj L = L\<lparr>loop_context := Some obj\<rparr>"

definition EventLoop_quit :: "int \<Rightarrow> ('k, 'f) evloop \<Rightarrow> ('k, 'f) evloop" where
  "EventLoop_quit me L =
     (let L1 = L\<lparr>quit_flag := True\<rparr> in if \<not> isInLoopThread me L1 then wakeup L1 else L1)"

section \<open>Channels of a loop\<close>

text \<open>A channel in the store of the loop has this loop as its owner.\<close>

definition EventLoop_updateChannel ::
    "bool \<Rightarrow> 'k epoll_ctl \<Rightarrow> int \<Rightarrow> nat \<Rightarrow> ('k, 'f) evloop \<Rightarrow> ('k, 'f) evloop res" where
  "EventLoop_updateChannel dbg ctl me cid L =
     (case chans L cid of
        None \<Rightarrow> Inl NullDeref
      | Some ch \<Rightarrow>
          assertInLoopThread me L
           (andThen (EPollPoller_updateChannel dbg ctl cid ch (loop_poller L)) (\<lambda>(ch', p').
            Inr (L\<lparr>loop_poller := p', chans := (chans L)(cid := Some ch')\<rparr>))))"

definition EventLoop_removeChannel ::
    "bool \<Rightarrow> 'k epoll_ctl \<Rightarrow> int \<Rightarrow> nat \<Rightarrow> ('k, 'f) evloop \<Rightarrow> ('k, 'f) evloop res" where
  "EventLoop_removeChannel dbg ctl me cid L =
     (case chans L cid of
        None \<Rightarrow> Inl NullDeref
      | Some ch \<Rightarrow>
          assertInLoopThread me L
           (cassert dbg (loop_eventHandling L \<longrightarrow>
               currentActiveChannel L = Some cid \<or> cid \<notin> set (activeChannels L))
            (andThen (EPollPoller_removeChannel dbg ctl cid ch (loop_poller L)) (\<lambda>(ch', p').
             Inr (L\<lparr>loop_poller := p', chans := (chans L)(cid := Some ch')\<rparr>)))))"

definition EventLoop_hasChannel :: "int \<Rightarrow> nat \<Rightarrow> ('k, 'f) evloop \<Rightarrow> bool res" where
  "EventLoop_hasChannel me cid L =
     (case chans L cid of
        None \<Rightarrow> Inl NullDeref
      | Some ch \<Rightarrow> assertInLoopThread me L (Inr (hasChannel cid ch (loop_poller L))))"

definition modify_channel ::
    "(channel \<Rightarrow> channel) \<Rightarrow> nat \<Rightarrow> ('k, 'f) evloop \<Rightarrow> ('k, 'f) evloop res" where
  "modify_channel f cid L =
     (case chans L cid of None \<Rightarrow> Inl NullDeref
      | Some ch \<Rightarrow> Inr (L\<lparr>chans := (chans L)(cid := Some (f ch))\<rparr>))"

definition Channel_update ::
    "bool \<Rightarrow> 'k epoll_ctl \<Rightarrow> int \<Rightarrow> nat \<Rightarrow> ('k, 'f) evloop \<Rightarrow> ('k, 'f) evloop res" where
  "Channel_update dbg ctl me cid L =
     andThen (modify_channel (\<lambda>ch. ch\<lparr>addToLoop := True\<rparr>) cid L)
       (EventLoop_updateChannel dbg ctl me cid)"

definition Channel_remove ::
    "bool \<Rightarrow> 'k epoll_ctl \<Rightarrow> int \<Rightarrow> nat \<Rightarrow> ('k, 'f) evloop \<Rightarrow> ('k, 'f) evloop res" where
  "Channel_remove dbg ctl me cid L =
     (case chans L cid of None \<Rightarrow> Inl NullDeref
      | Some ch \<Rightarrow>
          cassert dbg (isNoneEvent ch)
           (andThen (modify_channel (\<lambda>ch. ch\<lparr>addToLoop := False\<rparr>) cid L)
             (EventLoop_removeChannel dbg ctl me cid)))"

definition enableReading ::
    "bool \<Rightarrow> 'k epoll_ctl \<Rightarrow> int \<Rightarrow> nat \<Rightarrow> ('k, 'f) evloop \<Rightarrow> ('k, 'f) evloop res" where
  "enableReading dbg ctl me cid L =
     andThen (modify_channel set_reading cid L) (Channel_update dbg ctl me cid)"

definition disableReading ::
    "bool \<Rightarrow> 'k epoll_ctl \<Rightarrow> int \<Rightarrow> nat \<Rightarrow> ('k, 'f) evloop \<Rightarrow> ('k, 'f) evloop res" where
  "disableReading dbg ctl me cid L =
     andThen (modify_channel clear_reading cid L) (Channel_update dbg ctl me cid)"

definition enableWriting ::
    "bool \<Rightarrow> 'k epoll_ctl \<Rightarrow> int \<Rightarrow> nat \<Rightarrow> ('k, 'f) evloop \<Rightarrow> ('k, 'f) evloop res" where
  "enableWriting dbg ctl me cid L =
     andThen (modify_channel set_writing cid L) (Channel_update dbg ctl me cid)"

definition disableWriting ::
    "bool \<Rightarrow> 'k epoll_ctl \<Rightarrow> int \<Rightarrow> nat \<Rightarrow> ('k, 'f) evloop \<Rightarrow> ('k, 'f) evloop res" where
  "disableWriting dbg ctl me cid L =
     andThen (modify_channel clear_writing cid L) (Channel_update dbg ctl me cid)"

definition disAbleAll ::
    "bool \<Rightarrow> 'k epoll_ctl \<Rightarrow> int \<Rightarrow> nat \<Rightarrow> ('k, 'f) evloop \<Rightarrow> ('k, 'f) evloop res" where
  "disAbleAll dbg ctl me cid L =
     andThen (modify_channel clear_all cid L) (Channel_update dbg ctl me cid)"

definition Channel_dtor :: "bool \<Rightarrow> int \<Rightarrow> nat \<Rightarrow> ('k, 'f) evloop \<Rightarrow> ('k, 'f) evloop res" where
  "Channel_dtor dbg me cid L =
     (case chans L cid of None \<Rightarrow> Inl NullDeref
      | Some ch \<Rightarrow>
          cassert dbg (\<not> ch_eventHandling ch) (cassert dbg (\<not> addToLoop ch)
           (andThen (if isInLoopThread me L
                     then andThen (EventLoop_hasChannel me cid L) (\<lambda>h. cassert dbg (\<not> h) (Inr ()))
                     else Inr ())
             (\<lambda>_. Inr (L\<lparr>chans := (chans L)(cid := None)\<rparr>)))))"

section \<open>Construction and destruction\<close>

text \<open>
  The constructor makes the poller (\<open>Poller::newDefaultPOller\<close> has no body in the sources; an
  \<open>EPollPoller\<close> is the only poller there is), then the timer queue, whose constructor enables reading on
  its channel (address 0), then the wakeup channel (address 1). \<open>epollfd\<close>, \<open>timerfd\<close> and \<open>evtfd\<close> are what
  \<open>epoll_create1\<close>, \<open>timerfd_create\<close> and \<open>eventfd\<close> answer. \<open>this\<close> is the address of the loop,
  \<open>t_loopInThisThread\<close> the loop the thread has already, if any; the second result is its new value.
\<close>

definition createTimerfd :: "int \<Rightarrow> int res" where
  "createTimerfd timerfd = (if timerfd < 0 then Inl LogFatal else Inr timerfd)"

definition createEventfd :: "int \<Rightarrow> int res" where
  "createEventfd evtfd = (if evtfd < 0 then Inl LogFatal else Inr evtfd)"

definition EventLoop_ctor ::
    "bool \<Rightarrow> 'k epoll_ctl \<Rightarrow> nat \<Rightarrow> int \<Rightarrow> 'k \<Rightarrow> int \<Rightarrow> nat \<Rightarrow> nat option \<Rightarrow> int \<Rightarrow> int \<Rightarrow>
     (('k, 'f) evloop \<times> nat option) res" where
  "EventLoop_ctor dbg ctl KInitEventSize epollfd k me this t_loopInThisThread timerfd evtfd =
     andThen (EPollPoller_ctor KInitEventSize epollfd k) (\<lambda>poller.
     andThen (createTimerfd timerfd) (\<lambda>tfd.
     let L0 = \<lparr>looping = False, quit_flag = False, loop_eventHandling = False,
                callingPendingFunctors = False, iteration = 0, threadId = me,
                loop_poller = poller,
                chans = (\<lambda>_. None)(0 := Some ((Channel_ctor tfd)\<lparr>readCallback := True\<rparr>)),
                wakeupFd = 0, activeChannels = [], currentActiveChannel = None,
                pendingFunctors = [], pollReturnTime = 0, loop_context = None\<rparr> in
      andThen (enableReading dbg ctl me 0 L0) (\<lambda>L1.
      andThen (createEventfd evtfd) (\<lambda>efd.
      let L2 = L1\<lparr>chans := (chans L1)(1 := Some (Channel_ctor efd))\<rparr> in
      if t_loopInThisThread \<noteq> None then Inl LogFatal
      else andThen (modify_channel (\<lambda>ch. ch\<lparr>readCallback := True\<rparr>) 1 L2) (\<lambda>L3.
           andThen (enableReading dbg ctl me 1 L3) (\<lambda>L4. Inr (L4, Some this)))))))"

text \<open>The destructor, with the thread's loop afterwards.\<close>

definition EventLoop_dtor ::
    "bool \<Rightarrow> 'k epoll_ctl \<Rightarrow> int \<Rightarrow> ('k, 'f) evloop \<Rightarrow> (('k, 'f) evloop \<times> nat option) res" where
  "EventLoop_dtor dbg ctl me L =
     andThen (disAbleAll dbg ctl me 1 L) (\<lambda>L1.
     andThen (Channel_remove dbg ctl me 1 L1) (\<lambda>L2. Inr (L2, None)))"

section \<open>The loop\<close>

text \<open>The lines the loop logs at level TRACE before it calls the handlers.\<close>

definition printActiveChannels :: "('k, 'f) evloop \<Rightarrow> string list res" where
  "printActiveChannels L =
     foldRes (\<lambda>channel out. case chans L channel of None \<Rightarrow> Inl NullDeref
                            | Some ch \<Rightarrow> Inr (out @ [''{'' @ reventsToString ch @ ''}'']))
       (activeChannels L) []"

text \<open>One pass through the body: \<open>epoll_wait\<close> returns \<open>r\<close> in it, and the clock reads \<open>now\<close> then.\<close>

definition loop_body ::
    "bool \<Rightarrow> ('f \<Rightarrow> ('k, 'f) evloop \<Rightarrow> ('k, 'f) evloop res) \<Rightarrow>
     (nat \<Rightarrow> ('k, 'f) evloop \<Rightarrow> ('k, 'f) evloop res) \<Rightarrow>
     int \<times> (int + (nat \<times> 32 word) list) \<Rightarrow> ('k, 'f) evloop \<Rightarrow> ('k, 'f) evloop res" where
  "loop_body dbg exec dispatch poll L =
     (let (now, r) = poll; L1 = L\<lparr>activeChannels := []\<rparr> in
      andThen (EPollPoller_poll dbg r (chans L1) (activeChannels L1) (loop_poller L1))
       (\<lambda>(st, active, p).
      let L2 = L1\<lparr>chans := st, activeChannels := active, loop_poller := p,
                  pollReturnTime := now, iteration := iteration L1 + 1, loop_eventHandling := True\<rparr> in
      andThen (foldRes (\<lambda>channel L. dispatch channel (L\<lparr>currentActiveChannel := Some channel\<rparr>))
                 active L2) (\<lambda>L3.
      doPendingFunctors exec (L3\<lparr>currentActiveChannel := None, loop_eventHandling := False\<rparr>))))"

partial_function (option) loop_while ::
    "(('k, 'f) evloop \<Rightarrow> ('k, 'f) evloop res) \<Rightarrow> ('k, 'f) evloop \<Rightarrow> ('k, 'f) evloop res option" where
  "loop_while body L =
     (if \<not> quit_flag L
      then (case body L of Inl e \<Rightarrow> Some (Inl e) | Inr L' \<Rightarrow> loop_while body L')
      else Some (Inr L))"

text \<open>\<open>polls\<close> gives the result of \<open>epoll_wait\<close> in each iteration.\<close>

definition EventLoop_loop ::
    "bool \<Rightarrow> ('f \<Rightarrow> ('k, 'f) evloop \<Rightarrow> ('k, 'f) evloop res) \<Rightarrow>
     (nat \<Rightarrow> ('k, 'f) evloop \<Rightarrow> ('k, 'f) evloop res) \<Rightarrow>
     (int \<Rightarrow> int \<times> (int + (nat \<times> 32 word) list)) \<Rightarrow> int \<Rightarrow> ('k, 'f) evloop \<Rightarrow> ('k, 'f) evloop res option" where
  "EventLoop_loop dbg exec dispatch polls me L =
     (if dbg \<and> looping L then Some (Inl AssertFail)
      else if \<not> isInLoopThread me L then Some (Inl LogFatal)
      else map_option (\<lambda>r. andThen r (\<lambda>L'. Inr (L'\<lparr>looping := False\<rparr>)))
             (loop_while (\<lambda>L. loop_body dbg exec dispatch (polls (iteration L)) L)
               (L\<lparr>looping := False, quit_flag := True\<rparr>)))"

section \<open>Other threads\<close>

text \<open>
  The loop thread is in \<open>poll\<close>, in the handlers, or running the functors it took from the
  queue. Any number of other threads call \<open>queueInLoop\<close>; \<open>midway\<close> counts those between
  the push and the wakeup. \<open>pushed\<close> and \<open>executed\<close> record the order of events.
\<close>

datatype 'f phase = Polling | Handling | Running "'f list"

record ('k, 'f) sched =
  sloop :: "('k, 'f) evloop"
  phase :: "'f phase"
  midway :: nat
  pushed :: "'f list"
  executed :: "'f list"

definition sched_init :: "('k, 'f) evloop \<Rightarrow> ('k, 'f) sched" where
  "sched_init L = \<lparr>sloop = L\<lparr>pendingFunctors := [], callingPendingFunctors := False\<rparr>,
     phase = Polling, midway = 0, pushed = [], executed = []\<rparr>"

inductive sched_step :: "('k, 'f) sched \<Rightarrow> ('k, 'f) sched \<Rightarrow> bool" where
  foreign_push: "sched_step s (s\<lparr>sloop := queue_push f (sloop s), midway := Suc (midway s),
     pushed := pushed s @ [f]\<rparr>)"
| foreign_wake: "midway s = Suc n \<Longrightarrow> sched_step s (s\<lparr>sloop := wakeup (sloop s), midway := n\<rparr>)"
| poll_wakeup: "phase s = Polling \<Longrightarrow> 0 < wakeupFd (sloop s) \<Longrightarrow>
     sched_step s (s\<lparr>sloop := EventLoop_handleRead (sloop s), phase := Handling\<rparr>)"
| poll_other: "phase s = Polling \<Longrightarrow> sched_step s (s\<lparr>phase := Handling\<rparr>)"
| own_queue: "phase s \<noteq> Polling \<Longrightarrow>
     sched_step s (s\<lparr>sloop := queueInLoop (threadId (sloop s)) f (sloop s), pushed := pushed s @ [f]\<rparr>)"
| swap: "phase s = Handling \<Longrightarrow> swap_functors (sloop s) = (fs, L) \<Longrightarrow>
     sched_step s (s\<lparr>sloop := L, phase := Running fs\<rparr>)"
| run: "phase s = Running (f # fs) \<Longrightarrow>
     sched_step s (s\<lparr>phase := Running fs, executed := executed s @ [f]\<rparr>)"
| finish: "phase s = Running [] \<Longrightarrow>
     sched_step s (s\<lparr>sloop := (sloop s)\<lparr>callingPendingFunctors := False\<rparr>, phase := Polling\<rparr>)"

inductive sched_reach :: "('k, 'f) evloop \<Rightarrow> ('k, 'f) sched \<Rightarrow> bool" for L where
  start: "sched_reach L (sched_init L)"
| step: "sched_reach L s \<Longrightarrow> sched_step s t \<Longrightarrow> sched_reach L t"


section \<open>Lemmas\<close>

inductive_cases sched_stepE: "sched_step s t"

lemma wakeup_simps [simp]:
  "pendingFunctors (wakeup L) = pendingFunctors L"
  "callingPendingFunctors (wakeup L) = callingPendingFunctors L"
  "threadId (wakeup L) = threadId L"
  "0 < wakeupFd (wakeup L)"
  by (simp_all add: wakeup_def)

lemma queue_push_simps [simp]:
  "pendingFunctors (queue_push f L) = pendingFunctors L @ [f]"
  "callingPendingFunctors (queue_push f L) = callingPendingFunctors L"
  "threadId (queue_push f L) = threadId L"
  "wakeupFd (queue_push f L) = wakeupFd L"
  by (simp_all add: queue_push_def)

lemma queueInLoop_simps [simp]:
  "pendingFunctors (queueInLoop me f L) = pendingFunctors L @ [f]"
  "callingPendingFunctors (queueInLoop me f L) = callingPendingFunctors L"
  "threadId (queueInLoop me f L) = threadId L"
  by (simp_all add: queueInLoop_def Let_def)

lemma queueInLoop_wakes:
  "threadId L \<noteq> me \<or> callingPendingFunctors L \<Longrightarrow> 0 < wakeupFd (queueInLoop me f L)"
  by (auto simp: queueInLoop_def Let_def isInLoopThread_def)

lemma modify_channel_simps [simp]:
  "chans L cid = Some ch \<Longrightarrow> modify_channel f cid L = Inr (L\<lparr>chans := (chans L)(cid := Some (f ch))\<rparr>)"
  by (simp add: modify_channel_def)

text \<open>What is in flight: being run, or waiting in the queue.\<close>

fun in_flight :: "'f phase \<Rightarrow> 'f list" where
  "in_flight (Running fs) = fs"
| "in_flight _ = []"

definition sched_inv :: "('k, 'f) sched \<Rightarrow> bool" where
  "sched_inv s \<longleftrightarrow>
     executed s @ in_flight (phase s) @ pendingFunctors (sloop s) = pushed s \<and>
     (callingPendingFunctors (sloop s) \<longleftrightarrow> (\<exists>fs. phase s = Running fs)) \<and>
     (pendingFunctors (sloop s) \<noteq> [] \<and> phase s \<noteq> Handling \<longrightarrow>
        0 < wakeupFd (sloop s) \<or> 0 < midway s)"

lemma sched_init_inv: "sched_inv (sched_init L)"
  by (simp add: sched_inv_def sched_init_def)

lemma sched_step_inv:
  assumes "sched_step s t" "sched_inv s"
  shows "sched_inv t"
  using assms
proof (induction rule: sched_step.induct)
  case (own_queue s f)
  then obtain fs where "phase s = Handling \<or> phase s = Running fs" by (cases "phase s") auto
  then show ?case
    using own_queue queueInLoop_wakes [of "sloop s" "threadId (sloop s)" f]
    by (auto simp: sched_inv_def)
qed (auto simp: sched_inv_def EventLoop_handleRead_def swap_functors_def)

lemma sched_reach_inv: "sched_reach L s \<Longrightarrow> sched_inv s"
  by (induction rule: sched_reach.induct) (auto intro: sched_init_inv sched_step_inv)

section \<open>Properties\<close>

text \<open>In every interleaving of the loop thread with threads that call \<open>queueInLoop\<close>, a
  functor waiting while the loop is about to block in \<open>poll\<close> has its wakeup written or its
  caller is just about to write it: no wakeup is lost.\<close>

theorem no_lost_wakeup:
  assumes "sched_reach L s" and "phase s = Polling" and "pendingFunctors (sloop s) \<noteq> []"
  shows "0 < wakeupFd (sloop s) \<or> 0 < midway s"
  using sched_reach_inv [OF assms(1)] assms(2,3) by (simp add: sched_inv_def)

text \<open>A loop of thread 1 without channels, and a functor pushed into it by another thread.\<close>

definition demo_loop :: "((int \<Rightarrow> (nat \<times> 32 word) option), nat) evloop" where
  "demo_loop = \<lparr>looping = False, quit_flag = False, loop_eventHandling = False,
     callingPendingFunctors = False, iteration = 0, threadId = 1, loop_poller = demo_poller,
     chans = (\<lambda>_. None), wakeupFd = 0, activeChannels = [], currentActiveChannel = None,
     pendingFunctors = [], pollReturnTime = 0,
     loop_context = None\<rparr>"

lemma demo_push: "sched_reach demo_loop
    ((sched_init demo_loop)\<lparr>sloop := queue_push 5 (sloop (sched_init demo_loop)),
      midway := Suc (midway (sched_init demo_loop)), pushed := pushed (sched_init demo_loop) @ [5]\<rparr>)"
  by (rule sched_reach.step [OF sched_reach.start sched_step.foreign_push])

theorem no_lost_wakeup_witness:
  "\<exists>s. sched_reach demo_loop s \<and> pendingFunctors (sloop s) = [5] \<and> 0 < midway s"
proof -
  let ?s = "(sched_init demo_loop)\<lparr>sloop := queue_push 5 (sloop (sched_init demo_loop)),
      midway := Suc (midway (sched_init demo_loop)), pushed := pushed (sched_init demo_loop) @ [5]\<rparr>"
  have p: "phase ?s = Polling" "pendingFunctors (sloop ?s) \<noteq> []" "wakeupFd (sloop ?s) = 0"
    "pendingFunctors (sloop ?s) = [5]"
    by (simp_all add: sched_init_def demo_loop_def)
  from no_lost_wakeup [OF demo_push p(1,2)] p(3) have "0 < midway ?s" by simp
  with demo_push p(4) show ?thesis by blast
qed



text \<open>\<open>loop()\<close>, called from the loop's own thread, sets \<open>quit_\<close> before it tests it: it
  returns at once, without polling, handling an event or running a functor.\<close>

theorem loop_returns_at_once:
  assumes "threadId L = me" and "\<not> (dbg \<and> looping L)"
  shows "EventLoop_loop dbg exec dispatch polls me L =
    Some (Inr (L\<lparr>looping := False, quit_flag := True\<rparr>))"
  using assms by (simp add: EventLoop_loop_def isInLoopThread_def loop_while.simps)

theorem loop_returns_at_once_witness:
  "EventLoop_loop True (\<lambda>f L. Inr L) (\<lambda>c L. Inr L) (\<lambda>_. (0, Inr [(7, 1)])) 1 demo_loop =
     Some (Inr (demo_loop\<lparr>looping := False, quit_flag := True\<rparr>))"
  using loop_returns_at_once [of demo_loop 1 True "\<lambda>f L. Inr L" "\<lambda>c L. Inr L" "\<lambda>_. (0, Inr [(7, 1)])"]
  by (simp add: demo_loop_def)

text \<open>The constructor of a loop fails an assertion in a Debug build; in a Release build it
  returns the first loop of its thread, whose kernel interest list holds neither the timer's nor
  the wakeup's descriptor, and does not return in a thread that has a loop.\<close>

lemma loop_constructor:
  assumes "0 \<le> epollfd" "0 \<le> timerfd" "0 \<le> evtfd"
  shows "EventLoop_ctor True ctl n epollfd k me this t timerfd evtfd = Inl AssertFail \<and>
   (\<exists>L. EventLoop_ctor False epoll_set n epollfd (\<lambda>_. None) me this None timerfd evtfd = Inr (L, Some this) \<and>
     threadId L = me \<and> (\<forall>fd. kern (loop_poller L) fd = None \<and> channels (loop_poller L) fd = None)) \<and>
   EventLoop_ctor False epoll_set n epollfd (\<lambda>_. None) me this (Some other) timerfd evtfd = Inl LogFatal"
  using assms
  by (simp add: EventLoop_ctor_def createTimerfd_def createEventfd_def enableReading_def Channel_update_def EventLoop_updateChannel_def
      EPollPoller_updateChannel_def EPollPoller_update_def EPollPoller_ctor_def empty_poller_def epoll_set_simps
      Channel_ctor_def set_reading_def isNoneEvent_def KNoneEvent_def assertInLoopThread_def
      isInLoopThread_def cassert_def Let_def)

end
