(* ===== verification/Net_Timer.thy ===== *)
theory Net_Timer
  imports Cpp_Set Base_TimeStamp Net_EventLoop
begin

text \<open>
  Timers (\<open>net/timer.h\<close>, \<open>net/timer.cpp\<close>, \<open>net/timer_id.h\<close>, \<open>net/timer_queue.h\<close>,
  \<open>net/timer_queue.cpp\<close>) and the timer methods of the loop (\<open>net/event_loop.cpp\<close>).

  Timers are objects of a heap \<open>theap\<close>, named by their address; \<open>new\<close> takes the address from
  an allocator \<open>alloc\<close>, the parameter that stands for \<open>malloc\<close> (\<open>None\<close> is
  \<open>std::bad_alloc\<close>), and \<open>delete\<close> removes the object. The queue holds two ordered sets over
  them, by expiration and by address, of the theory \<open>Cpp_Set\<close>. \<open>timerfd_value\<close> is the last
  value given to \<open>timerfd_settime\<close>, \<open>timerfd_count\<close> the expirations the descriptor reports.

  \<open>TimerQueue::insert\<close> declares a \<open>bool\<close> result and has no \<open>return\<close>. The standard leaves
  that call undefined; the model keeps the weakest reading, that the caller gets some value, which
  is the argument \<open>junk\<close>.
\<close>

section \<open>Data\<close>

record 'f timer =
  expiration :: timestamp
  interval :: int
  repeat :: bool
  sequence :: int
  callback :: 'f

record 'f timer_queue =
  theap :: "nat \<Rightarrow> 'f timer option"
  timer_set :: "(timestamp \<times> nat) list"
  activeTimer :: "(nat \<times> int) list"
  callingExpiredTimers :: bool
  cancelingTimer :: "(nat \<times> int) list"
  s_numCreated :: int
  timerfd_value :: "(int \<times> int) option"
  timerfd_count :: nat
  read_errors :: nat

type_synonym timer_id = "nat \<times> int"
type_synonym 'f allocator = "(nat \<Rightarrow> 'f timer option) \<Rightarrow> nat option"

definition UINTPTR_MAX :: nat where
  "UINTPTR_MAX = 2 ^ 64 - 1"

definition Timer_restart :: "timestamp \<Rightarrow> 'f timer \<Rightarrow> 'f timer" where
  "Timer_restart now tm =
     (if repeat tm then tm\<lparr>expiration := add_time now (interval tm)\<rparr>
      else tm\<lparr>expiration := TimeStamp_invalid\<rparr>)"

definition TimerQueue_ctor :: "'f timer_queue" where
  "TimerQueue_ctor = \<lparr>theap = (\<lambda>_. None), timer_set = [], activeTimer = [],
     callingExpiredTimers = False, cancelingTimer = [], s_numCreated = 0,
     timerfd_value = None, timerfd_count = 0, read_errors = 0\<rparr>"

definition delete_timer :: "nat \<Rightarrow> 'f timer_queue \<Rightarrow> 'f timer_queue res" where
  "delete_timer p Q =
     (if theap Q p = None then Inl NullDeref else Inr (Q\<lparr>theap := (theap Q)(p := None)\<rparr>))"

text \<open>The destructor takes its channel (address 0) off the loop, then frees what is scheduled; its
  data members, among them the channel, are destroyed after that.\<close>

definition TimerQueue_dtor ::
    "bool \<Rightarrow> 'k epoll_ctl \<Rightarrow> int \<Rightarrow> ('k, 'g) evloop \<times> 'f timer_queue \<Rightarrow>
     (('k, 'g) evloop \<times> 'f timer_queue) res" where
  "TimerQueue_dtor dbg ctl me LQ = (case LQ of (L, Q) \<Rightarrow>
     andThen (disAbleAll dbg ctl me 0 L) (\<lambda>L1.
     andThen (Channel_remove dbg ctl me 0 L1) (\<lambda>L2.
     andThen (foldRes (\<lambda>timer. delete_timer (snd timer)) (timer_set Q) Q) (\<lambda>Q'.
     andThen (Channel_dtor dbg me 0 L2) (\<lambda>L3. Inr (L3, Q'))))))"

section \<open>The timer descriptor\<close>

definition howMuchTimeFromNow :: "timestamp \<Rightarrow> timestamp \<Rightarrow> int \<times> int" where
  "howMuchTimeFromNow now when =
     (let d = when - now; micro_second = (if d < 100 then 100 else d) in
      (micro_second sdiv k_micro_seconds_persecond,
       micro_second smod k_micro_seconds_persecond * 1000))"

definition resetTimerfd :: "timestamp \<Rightarrow> timestamp \<Rightarrow> 'f timer_queue \<Rightarrow> 'f timer_queue" where
  "resetTimerfd now when Q = Q\<lparr>timerfd_value := Some (howMuchTimeFromNow now when)\<rparr>"

text \<open>
  Reading an expired timer descriptor stores the number of expirations and yields 8, and
  yields \<open>-1\<close> when there is none; the code compares that result with the number.
\<close>

definition readTimerFd :: "'f timer_queue \<Rightarrow> 'f timer_queue" where
  "readTimerFd Q =
     (let howmany = int (timerfd_count Q); n = (if timerfd_count Q > 0 then 8 else -1) in
      Q\<lparr>timerfd_count := 0, read_errors := read_errors Q + (if n \<noteq> howmany then 1 else 0)\<rparr>)"

section \<open>The two sets\<close>

definition TimerQueue_insert ::
    "bool \<Rightarrow> bool \<Rightarrow> bool \<Rightarrow> nat \<Rightarrow> 'f timer_queue \<Rightarrow> (bool \<times> 'f timer_queue) res" where
  "TimerQueue_insert dbg junk in_loop timer Q =
     (if \<not> in_loop then Inl LogFatal else
      cassert dbg (length (timer_set Q) = length (activeTimer Q))
      (case theap Q timer of
         None \<Rightarrow> Inl NullDeref
       | Some tm \<Rightarrow>
           let (ts, new1) = set_insert (expiration tm, timer) (timer_set Q) in
           cassert dbg new1
           (let (as, new2) = set_insert (timer, sequence tm) (activeTimer Q) in
            cassert dbg new2 (Inr (junk, Q\<lparr>timer_set := ts, activeTimer := as\<rparr>)))))"

definition addTimerInLoop ::
    "bool \<Rightarrow> bool \<Rightarrow> timestamp \<Rightarrow> bool \<Rightarrow> nat \<Rightarrow> 'f timer_queue \<Rightarrow> 'f timer_queue res" where
  "addTimerInLoop dbg junk now in_loop timer Q =
     andThen (TimerQueue_insert dbg junk in_loop timer Q) (\<lambda>(earliestChanged, Q1).
       if earliestChanged
       then (case theap Q1 timer of None \<Rightarrow> Inl NullDeref
             | Some tm \<Rightarrow> Inr (resetTimerfd now (expiration tm) Q1))
       else Inr Q1)"

definition cancelInLoop :: "bool \<Rightarrow> bool \<Rightarrow> timer_id \<Rightarrow> 'f timer_queue \<Rightarrow> 'f timer_queue res" where
  "cancelInLoop dbg in_loop timerid Q =
     (if \<not> in_loop then Inl LogFatal else
      cassert dbg (length (timer_set Q) = length (activeTimer Q))
      (andThen
        (if timerid \<in> set (activeTimer Q)
         then case theap Q (fst timerid) of
                None \<Rightarrow> Inl NullDeref
              | Some tm \<Rightarrow>
                  let (ts, n) = set_erase (expiration tm, fst timerid) (timer_set Q) in
                  cassert dbg (n = 1)
                  (andThen (delete_timer (fst timerid) (Q\<lparr>timer_set := ts\<rparr>)) (\<lambda>Q1.
                   Inr (Q1\<lparr>activeTimer := fst (set_erase timerid (activeTimer Q1))\<rparr>)))
         else if callingExpiredTimers Q
         then Inr (Q\<lparr>cancelingTimer := fst (set_insert timerid (cancelingTimer Q))\<rparr>)
         else Inr Q)
        (\<lambda>Q2. cassert dbg (length (timer_set Q2) = length (activeTimer Q2)) (Inr Q2))))"

definition erase_active :: "bool \<Rightarrow> timestamp \<times> nat \<Rightarrow> 'f timer_queue \<Rightarrow> 'f timer_queue res" where
  "erase_active dbg it Q =
     (case theap Q (snd it) of
        None \<Rightarrow> Inl NullDeref
      | Some tm \<Rightarrow>
          let (as, n) = set_erase (snd it, sequence tm) (activeTimer Q) in
          cassert dbg (n = 1) (Inr (Q\<lparr>activeTimer := as\<rparr>)))"

definition getExpired ::
    "bool \<Rightarrow> timestamp \<Rightarrow> 'f timer_queue \<Rightarrow> ((timestamp \<times> nat) list \<times> 'f timer_queue) res" where
  "getExpired dbg now Q =
     cassert dbg (length (timer_set Q) = length (activeTimer Q))
     (let sentry = (now, UINTPTR_MAX); rest = set_from sentry (timer_set Q);
          expired = set_below sentry (timer_set Q) in
      cassert dbg (rest = [] \<or> now \<le> fst (hd rest))
      (andThen (foldRes (erase_active dbg) expired (Q\<lparr>timer_set := rest\<rparr>)) (\<lambda>Q1.
       cassert dbg (length (timer_set Q1) = length (activeTimer Q1)) (Inr (expired, Q1)))))"

section \<open>Expiry\<close>

text \<open>\<open>exec\<close> is the effect of a callback on the queue.\<close>

definition run_timer ::
    "('f \<Rightarrow> 'f timer_queue \<Rightarrow> 'f timer_queue res) \<Rightarrow> timestamp \<times> nat \<Rightarrow> 'f timer_queue \<Rightarrow> 'f timer_queue res" where
  "run_timer exec it Q =
     (case theap Q (snd it) of None \<Rightarrow> Inl NullDeref | Some tm \<Rightarrow> exec (callback tm) Q)"

definition TimerQueue_handleRead ::
    "bool \<Rightarrow> ('f \<Rightarrow> 'f timer_queue \<Rightarrow> 'f timer_queue res) \<Rightarrow> bool \<Rightarrow> timestamp \<Rightarrow>
     'f timer_queue \<Rightarrow> 'f timer_queue res" where
  "TimerQueue_handleRead dbg exec in_loop now Q =
     (if \<not> in_loop then Inl LogFatal else
      andThen (getExpired dbg now (readTimerFd Q)) (\<lambda>(expired, Q1).
      andThen (foldRes (run_timer exec) expired
                (Q1\<lparr>callingExpiredTimers := True, cancelingTimer := []\<rparr>)) (\<lambda>Q2.
      Inr (Q2\<lparr>callingExpiredTimers := False\<rparr>))))"

text \<open>\<open>reset\<close>, which the code declares and defines and never calls.\<close>

definition reset_timer ::
    "bool \<Rightarrow> bool \<Rightarrow> timestamp \<Rightarrow> timestamp \<times> nat \<Rightarrow> 'f timer_queue \<Rightarrow> 'f timer_queue res" where
  "reset_timer dbg in_loop now it Q =
     (case theap Q (snd it) of
        None \<Rightarrow> Inl NullDeref
      | Some tm \<Rightarrow>
          if repeat tm \<and> (snd it, sequence tm) \<notin> set (cancelingTimer Q)
          then andThen (TimerQueue_insert dbg False in_loop (snd it)
                 (Q\<lparr>theap := (theap Q)(snd it := Some (Timer_restart now tm))\<rparr>)) (\<lambda>(_, Q1). Inr Q1)
          else delete_timer (snd it) Q)"

definition TimerQueue_reset ::
    "bool \<Rightarrow> bool \<Rightarrow> (timestamp \<times> nat) list \<Rightarrow> timestamp \<Rightarrow> timestamp \<Rightarrow>
     'f timer_queue \<Rightarrow> 'f timer_queue res" where
  "TimerQueue_reset dbg in_loop expired now settime_now Q =
     andThen (foldRes (reset_timer dbg in_loop now) expired Q) (\<lambda>Q1.
       andThen
        (case timer_set Q1 of
           [] \<Rightarrow> Inr TimeStamp_invalid
         | it # _ \<Rightarrow> (case theap Q1 (snd it) of None \<Rightarrow> Inl NullDeref | Some tm \<Rightarrow> Inr (expiration tm)))
        (\<lambda>nextExpired.
          Inr (if TimeStamp_valid nextExpired then resetTimerfd settime_now nextExpired Q1 else Q1)))"

section \<open>Calls from any thread\<close>

text \<open>\<open>new Timer\<close>: the allocator's address, the next sequence number.\<close>

definition new_timer ::
    "'f allocator \<Rightarrow> 'f \<Rightarrow> timestamp \<Rightarrow> int \<Rightarrow> bool \<Rightarrow> 'f timer_queue \<Rightarrow> (nat \<times> 'f timer_queue) res" where
  "new_timer alloc cb when delta positive Q =
     (case alloc (theap Q) of
        None \<Rightarrow> Inl (LogicError ''bad_alloc'')
      | Some p \<Rightarrow>
          let seq = s_numCreated Q + 1 in
          Inr (p, Q\<lparr>s_numCreated := seq, theap := (theap Q)(p := Some
            \<lparr>expiration = when, interval = delta, repeat = positive, sequence = seq, callback = cb\<rparr>)\<rparr>))"

datatype timer_functor = AddTimerInLoop nat | CancelInLoop timer_id

fun exec_timer ::
    "bool \<Rightarrow> bool \<Rightarrow> timestamp \<Rightarrow> bool \<Rightarrow> timer_functor \<Rightarrow> 'f timer_queue \<Rightarrow> 'f timer_queue res" where
  "exec_timer dbg junk now in_loop (AddTimerInLoop p) Q = addTimerInLoop dbg junk now in_loop p Q"
| "exec_timer dbg junk now in_loop (CancelInLoop tid) Q = cancelInLoop dbg in_loop tid Q"

text \<open>\<open>loop_->runInLoop\<close> on the loop and its timer queue.\<close>

definition timer_runInLoop ::
    "bool \<Rightarrow> bool \<Rightarrow> timestamp \<Rightarrow> int \<Rightarrow> timer_functor \<Rightarrow> ('k, timer_functor) evloop \<times> 'f timer_queue \<Rightarrow>
     (('k, timer_functor) evloop \<times> 'f timer_queue) res" where
  "timer_runInLoop dbg junk now me f LQ = (case LQ of (L, Q) \<Rightarrow>
     if isInLoopThread me L then andThen (exec_timer dbg junk now True f Q) (\<lambda>Q'. Inr (L, Q'))
     else Inr (queueInLoop me f L, Q))"

definition addTimer ::
    "bool \<Rightarrow> 'f allocator \<Rightarrow> bool \<Rightarrow> timestamp \<Rightarrow> int \<Rightarrow> 'f \<Rightarrow> timestamp \<Rightarrow> int \<Rightarrow> bool \<Rightarrow>
     ('k, timer_functor) evloop \<times> 'f timer_queue \<Rightarrow>
     (timer_id \<times> ('k, timer_functor) evloop \<times> 'f timer_queue) res" where
  "addTimer dbg alloc junk now me cb when delta positive LQ = (case LQ of (L, Q) \<Rightarrow>
     andThen (new_timer alloc cb when delta positive Q) (\<lambda>(p, Q1).
     andThen (timer_runInLoop dbg junk now me (AddTimerInLoop p) (L, Q1)) (\<lambda>(L2, Q2).
     case theap Q2 p of None \<Rightarrow> Inl NullDeref
     | Some tm \<Rightarrow> Inr ((p, sequence tm), L2, Q2))))"

definition runAt where
  "runAt dbg alloc junk now me time cb = addTimer dbg alloc junk now me cb time 0 False"

text \<open>\<open>now0\<close> is the \<open>now()\<close> of the call, \<open>now\<close> the later one of \<open>howMuchTimeFromNow\<close>.\<close>

definition runAfter where
  "runAfter dbg alloc junk now0 now me delta cb =
     runAt dbg alloc junk now me (add_time now0 delta) cb"

definition runEvery where
  "runEvery dbg alloc junk now0 now me delta positive cb =
     addTimer dbg alloc junk now me cb (add_time now0 delta) delta positive"

definition TimerQueue_cancel ::
    "bool \<Rightarrow> bool \<Rightarrow> timestamp \<Rightarrow> int \<Rightarrow> timer_id \<Rightarrow> ('k, timer_functor) evloop \<times> 'f timer_queue \<Rightarrow>
     (('k, timer_functor) evloop \<times> 'f timer_queue) res" where
  "TimerQueue_cancel dbg junk now me tid LQ = timer_runInLoop dbg junk now me (CancelInLoop tid) LQ"

definition EventLoop_cancel where
  "EventLoop_cancel dbg junk now me timerid LQ = TimerQueue_cancel dbg junk now me timerid LQ"

section \<open>Lemmas\<close>

definition tm_exp :: "(nat \<Rightarrow> 'f timer option) \<Rightarrow> nat \<Rightarrow> timestamp" where
  "tm_exp h p = (case h p of Some tm \<Rightarrow> expiration tm | None \<Rightarrow> 0)"

definition tm_seq :: "(nat \<Rightarrow> 'f timer option) \<Rightarrow> nat \<Rightarrow> int" where
  "tm_seq h p = (case h p of Some tm \<Rightarrow> sequence tm | None \<Rightarrow> 0)"

lemma tm_some [simp]:
  "h p = Some tm \<Longrightarrow> tm_exp h p = expiration tm" "h p = Some tm \<Longrightarrow> tm_seq h p = sequence tm"
  by (simp_all add: tm_exp_def tm_seq_def)

interpretation byexp: keyed_set "\<lambda>p. (tm_exp h p, p)" for h :: "nat \<Rightarrow> 'f timer option"
  by unfold_locales simp

interpretation byptr: keyed_set "\<lambda>p. (p, tm_seq h p)" for h :: "nat \<Rightarrow> 'f timer option"
  by unfold_locales simp

text \<open>
  The queue schedules the timers \<open>A\<close>: both sets hold exactly their keys. The timers of \<open>g\<close>
  are live, unchanged and not scheduled.
\<close>

definition schedules :: "nat set \<Rightarrow> 'f timer_queue \<Rightarrow> bool" where
  "schedules A Q \<longleftrightarrow>
     holds (\<lambda>p. (tm_exp (theap Q) p, p)) A (timer_set Q) \<and>
     holds (\<lambda>p. (p, tm_seq (theap Q) p)) A (activeTimer Q) \<and>
     A \<subseteq> dom (theap Q) \<and> (\<forall>p \<in> dom (theap Q). p < UINTPTR_MAX)"

definition tq_inv :: "(nat \<Rightarrow> 'f timer option) \<Rightarrow> 'f timer_queue \<Rightarrow> bool" where
  "tq_inv g Q \<longleftrightarrow> (\<exists>A. schedules A Q \<and> dom g \<inter> A = {} \<and> g \<subseteq>\<^sub>m theap Q)"

lemma schedulesD:
  assumes "schedules A Q"
  shows "holds (\<lambda>p. (tm_exp (theap Q) p, p)) A (timer_set Q)"
    and "holds (\<lambda>p. (p, tm_seq (theap Q) p)) A (activeTimer Q)"
    and "p \<in> A \<Longrightarrow> \<exists>tm. theap Q p = Some tm"
    and "theap Q p = Some tm \<Longrightarrow> p < UINTPTR_MAX"
  using assms by (auto simp: schedules_def)

lemma schedules_lengths: "schedules A Q \<Longrightarrow> length (timer_set Q) = length (activeTimer Q)"
  using byexp.size byptr.size by (fastforce simp: schedules_def)

lemma schedules_active:
  "schedules A Q \<Longrightarrow> (p, s) \<in> set (activeTimer Q) \<longleftrightarrow> p \<in> A \<and> s = tm_seq (theap Q) p"
  by (auto simp: schedules_def holds_def)

text \<open>Objects outside \<open>A\<close> may come and go.\<close>

lemma schedules_heap:
  assumes "schedules A Q" "\<And>p. p \<in> A \<Longrightarrow> h p = theap Q p" "\<And>p. p \<in> dom h \<Longrightarrow> p < UINTPTR_MAX"
  shows "schedules A (Q\<lparr>theap := h\<rparr>)"
proof -
  have "holds (\<lambda>p. (tm_exp (theap Q) p, p)) A = holds (\<lambda>p. (tm_exp h p, p)) A"
    "holds (\<lambda>p. (p, tm_seq (theap Q) p)) A = holds (\<lambda>p. (p, tm_seq h p)) A"
    using assms(2) by (auto intro!: ext holds_cong simp: tm_exp_def tm_seq_def)
  then show ?thesis using assms by (auto simp: schedules_def)
qed

lemma schedules_insert:
  assumes A: "schedules A Q" and p: "theap Q p = Some tm" "p \<notin> A"
  shows "\<exists>Q'. TimerQueue_insert dbg junk True p Q = Inr (junk, Q') \<and> schedules (insert p A) Q' \<and>
    theap Q' = theap Q"
  using schedulesD [OF A] schedules_lengths [OF A] p
    byexp.insert_new [OF schedulesD(1) [OF A] p(2)] byptr.insert_new [OF schedulesD(2) [OF A] p(2)] A
  by (auto simp: TimerQueue_insert_def schedules_def)

lemma schedules_cancel_hit:
  assumes A: "schedules A Q" and p: "(p, s) \<in> set (activeTimer Q)"
  shows "\<exists>Q'. cancelInLoop dbg True (p, s) Q = Inr Q' \<and> schedules (A - {p}) Q' \<and>
    theap Q' = (theap Q)(p := None) \<and> cancelingTimer Q' = cancelingTimer Q"
proof -
  have pA: "p \<in> A" "s = tm_seq (theap Q) p" using p schedules_active [OF A] by auto
  then obtain tm where tm: "theap Q p = Some tm" using schedulesD(3) [OF A] by blast
  let ?ts = "remove1 (tm_exp (theap Q) p, p) (timer_set Q)"
  let ?as = "remove1 (p, s) (activeTimer Q)"
  have e: "set_erase (tm_exp (theap Q) p, p) (timer_set Q) = (?ts, 1)"
    "set_erase (p, s) (activeTimer Q) = (?as, 1)"
    using byexp.erase_old(1) [OF schedulesD(1) [OF A] pA(1)]
      byptr.erase_old(1) [OF schedulesD(2) [OF A] pA(1)] pA(2) by auto
  let ?Q = "Q\<lparr>timer_set := ?ts, activeTimer := ?as, theap := (theap Q)(p := None)\<rparr>"
  have "schedules (A - {p}) (Q\<lparr>timer_set := ?ts, activeTimer := ?as\<rparr>)"
    using byexp.erase_old(2) [OF schedulesD(1) [OF A] pA(1)]
      byptr.erase_old(2) [OF schedulesD(2) [OF A] pA(1)] pA(2) A
    by (auto simp: schedules_def)
  then have "schedules (A - {p}) ((Q\<lparr>timer_set := ?ts, activeTimer := ?as\<rparr>)\<lparr>theap := (theap Q)(p := None)\<rparr>)"
    by (rule schedules_heap) (use A in \<open>auto simp: schedules_def split: if_splits\<close>)
  then have Q': "schedules (A - {p}) ?Q" by simp
  have "cancelInLoop dbg True (p, s) Q = Inr ?Q"
    using p e tm schedules_lengths [OF A] schedules_lengths [OF Q']
    by (simp add: cancelInLoop_def delete_timer_def)
  with Q' show ?thesis by simp
qed

lemma schedules_cancel_miss:
  assumes A: "schedules A Q" and p: "tid \<notin> set (activeTimer Q)"
  shows "\<exists>Q'. cancelInLoop dbg True tid Q = Inr Q' \<and> schedules A Q' \<and> theap Q' = theap Q \<and>
    timer_set Q' = timer_set Q \<and> activeTimer Q' = activeTimer Q"
  using p schedules_lengths [OF A] A by (auto simp: cancelInLoop_def schedules_def)

lemma erase_active_all:
  assumes "holds (\<lambda>p. (p, tm_seq (theap Q) p)) A (activeTimer Q)"
    and "distinct (map snd xs)" "snd ` set xs \<subseteq> A" "A \<subseteq> dom (theap Q)"
  shows "\<exists>as. foldRes (erase_active dbg) xs Q = Inr (Q\<lparr>activeTimer := as\<rparr>) \<and>
    holds (\<lambda>p. (p, tm_seq (theap Q) p)) (A - snd ` set xs) as"
  using assms
proof (induction xs arbitrary: Q A)
  case Nil
  then show ?case by (auto intro: exI [of _ "activeTimer Q"])
next
  case (Cons x xs)
  let ?p = "snd x"
  from Cons.prems obtain tm where tm: "theap Q ?p = Some tm" and pA: "?p \<in> A" by auto
  let ?as = "remove1 (?p, tm_seq (theap Q) ?p) (activeTimer Q)"
  note e = byptr.erase_old [OF Cons.prems(1) pA]
  have "erase_active dbg x Q = Inr (Q\<lparr>activeTimer := ?as\<rparr>)"
    using e(1) tm by (simp add: erase_active_def)
  moreover have sub: "snd ` set xs \<subseteq> A - {?p}" "A - {?p} \<subseteq> dom (theap Q)" "distinct (map snd xs)"
    using Cons.prems(2-4) by (simp_all add: subset_Diff_insert) blast
  moreover have "\<exists>as. foldRes (erase_active dbg) xs (Q\<lparr>activeTimer := ?as\<rparr>) =
      Inr ((Q\<lparr>activeTimer := ?as\<rparr>)\<lparr>activeTimer := as\<rparr>) \<and>
      holds (\<lambda>p. (p, tm_seq (theap Q) p)) (A - {?p} - snd ` set xs) as"
    using Cons.IH [of "Q\<lparr>activeTimer := ?as\<rparr>" "A - {?p}"] Cons.prems e(2) sub by auto
  moreover have "A - snd ` set (x # xs) = A - {?p} - snd ` set xs" by auto
  ultimately show ?case by auto
qed

text \<open>What is due at \<open>now\<close>.\<close>

definition due :: "timestamp \<Rightarrow> 'f timer_queue \<Rightarrow> nat set \<Rightarrow> nat set" where
  "due now Q A = {p \<in> A. tm_exp (theap Q) p \<le> now}"

lemma below_sentry: "p < UINTPTR_MAX \<Longrightarrow> (e, p) < (now, UINTPTR_MAX) \<longleftrightarrow> e \<le> (now :: timestamp)"
  by auto

lemma expired_split:
  fixes now :: timestamp
  assumes A: "schedules A Q"
  defines "expired \<equiv> set_below (now, UINTPTR_MAX) (timer_set Q)"
    and "rest \<equiv> set_from (now, UINTPTR_MAX) (timer_set Q)"
  shows "set expired = (\<lambda>p. (tm_exp (theap Q) p, p)) ` due now Q A"
    and "holds (\<lambda>p. (tm_exp (theap Q) p, p)) (A - due now Q A) rest"
    and "sorted_wrt (<) expired" and "rest = [] \<or> now \<le> fst (hd rest)"
    and "distinct (map snd expired)"
proof -
  let ?k = "\<lambda>p. (tm_exp (theap Q) p, p)"
  have lt: "p < UINTPTR_MAX" if "p \<in> A" for p using schedulesD(3,4) [OF A] that by blast
  have split: "timer_set Q = expired @ rest" by (simp add: expired_def rest_def set_split)
  have h: "holds ?k A (expired @ rest)" using schedulesD(1) [OF A] by (simp add: split)
  then obtain B where B: "B \<subseteq> A" "set expired = ?k ` B" "holds ?k (A - B) rest"
    using byexp.erase_front [of "theap Q" A expired rest] by blast
  have s: "sorted_wrt (<) (expired @ rest)" using h by (simp add: holds_def)
  then have s': "sorted_wrt (<) (timer_set Q)" by (simp add: split)
  have "p \<in> due now Q A" if "p \<in> B" for p
  proof -
    have "?k p \<in> set expired" "p \<in> A" using that B by auto
    then show ?thesis using set_below_less [of "?k p" "(now, UINTPTR_MAX)" "timer_set Q"] lt [of p]
      by (auto simp: due_def expired_def less_imp_le)
  qed
  moreover have "p \<in> B" if "p \<in> due now Q A" for p
  proof (rule ccontr)
    assume "p \<notin> B"
    then have "?k p \<in> set rest" using that B(3) by (auto simp: due_def holds_def)
    then have "(now, UINTPTR_MAX) \<le> ?k p" using set_from_ge [OF s'] 
      by (metis rest_def)
    then show False using that lt [of p] by (auto simp: due_def)
  qed
  ultimately have "B = due now Q A" by blast
  with B show "set expired = ?k ` due now Q A" "holds ?k (A - due now Q A) rest" by simp_all
  show "sorted_wrt (<) expired" using s by (simp add: sorted_wrt_append)
  show "rest = [] \<or> now \<le> fst (hd rest)"
  proof (cases rest)
    case (Cons x xs)
    then have "(now, UINTPTR_MAX) \<le> x" using set_from_ge [OF s', of x] by (simp add: rest_def)
    then show ?thesis using Cons by (cases x) auto
  qed simp
  have "distinct expired" using s by (simp add: strict_sorted_iff)
  moreover have "inj_on snd (set expired)" using B(2) by (auto intro: inj_onI)
  ultimately show "distinct (map snd expired)" by (simp add: distinct_map)
qed

lemma schedules_getExpired:
  assumes A: "schedules A Q"
  shows "\<exists>expired Q'. getExpired dbg now Q = Inr (expired, Q') \<and> theap Q' = theap Q \<and>
    s_numCreated Q' = s_numCreated Q \<and> distinct (map snd expired) \<and>
    schedules (A - due now Q A) Q' \<and> sorted_wrt (<) expired \<and>
    set expired = (\<lambda>p. (tm_exp (theap Q) p, p)) ` due now Q A"
proof -
  let ?e = "set_below (now, UINTPTR_MAX) (timer_set Q)"
  let ?r = "set_from (now, UINTPTR_MAX) (timer_set Q)"
  note es = expired_split [OF A, of now]
  have sub: "snd ` set ?e = due now Q A" by (simp add: es(1) image_image)
  moreover have "due now Q A \<subseteq> A" by (auto simp: due_def)
  ultimately have "\<exists>as. foldRes (erase_active dbg) ?e (Q\<lparr>timer_set := ?r\<rparr>) =
      Inr ((Q\<lparr>timer_set := ?r\<rparr>)\<lparr>activeTimer := as\<rparr>) \<and>
      holds (\<lambda>p. (p, tm_seq (theap Q) p)) (A - due now Q A) as"
    using erase_active_all [of "Q\<lparr>timer_set := ?r\<rparr>" A ?e dbg] es(5) A
    by (simp add: schedules_def)
  then obtain as where as:
    "foldRes (erase_active dbg) ?e (Q\<lparr>timer_set := ?r\<rparr>) = Inr (Q\<lparr>timer_set := ?r, activeTimer := as\<rparr>)"
    "holds (\<lambda>p. (p, tm_seq (theap Q) p)) (A - due now Q A) as"
    by auto
  let ?Q = "Q\<lparr>timer_set := ?r, activeTimer := as\<rparr>"
  have Q': "schedules (A - due now Q A) ?Q"
    using as(2) es(2) A by (auto simp: schedules_def)
  have "getExpired dbg now Q = Inr (?e, ?Q)"
    using as(1) es(4) schedules_lengths [OF A] schedules_lengths [OF Q']
    by (simp add: getExpired_def Let_def)
  with Q' es show ?thesis by auto
qed

section \<open>Runs of the queue\<close>

text \<open>
  The calls a callback or a functor makes in the loop thread, and the operations of the loop:
  such a call, or the timer descriptor becoming readable. \<open>prog\<close> lists the calls of each
  callback.
\<close>

datatype 'f timer_act = TAdd 'f timestamp int bool bool timestamp | TCancel timer_id

datatype 'f tq_op = Act "'f timer_act" | Fire timestamp

fun act_step ::
    "bool \<Rightarrow> 'f allocator \<Rightarrow> 'f timer_act \<Rightarrow> 'f timer_queue \<Rightarrow> 'f timer_queue res" where
  "act_step dbg alloc (TAdd cb when delta positive junk now) Q =
     andThen (new_timer alloc cb when delta positive Q)
       (\<lambda>(p, Q1). addTimerInLoop dbg junk now True p Q1)"
| "act_step dbg alloc (TCancel tid) Q = cancelInLoop dbg True tid Q"

fun tq_step ::
    "bool \<Rightarrow> 'f allocator \<Rightarrow> ('f \<Rightarrow> 'f timer_act list) \<Rightarrow> 'f tq_op \<Rightarrow> 'f timer_queue \<Rightarrow> 'f timer_queue res" where
  "tq_step dbg alloc prog (Act a) Q = act_step dbg alloc a Q"
| "tq_step dbg alloc prog (Fire now) Q =
     TimerQueue_handleRead dbg (\<lambda>f. foldRes (act_step dbg alloc) (prog f)) True now Q"

text \<open>What the code relies on: \<open>malloc\<close> returns an unused address.\<close>

definition fresh_alloc :: "'f allocator \<Rightarrow> bool" where
  "fresh_alloc alloc \<longleftrightarrow> (\<forall>h p. alloc h = Some p \<longrightarrow> h p = None \<and> p < UINTPTR_MAX)"

lemma new_timer_schedules:
  assumes A: "schedules A Q" and al: "fresh_alloc alloc"
    and n: "new_timer alloc cb when delta positive Q = Inr (p, Q1)"
  shows "schedules A Q1 \<and> theap Q p = None \<and> p \<notin> A \<and>
    (\<exists>tm. theap Q1 = (theap Q)(p := Some tm) \<and> expiration tm = when \<and> sequence tm = s_numCreated Q + 1)"
proof -
  from n al have p: "theap Q p = None" "p < UINTPTR_MAX"
    by (auto simp: new_timer_def fresh_alloc_def Let_def split: option.splits)
  then have "p \<notin> A" using schedulesD(3) [OF A] by force
  moreover have "schedules A (Q\<lparr>theap := (theap Q)(p := Some tm)\<rparr>)" for tm
    by (rule schedules_heap [OF A]) (use \<open>p \<notin> A\<close> p A in \<open>auto simp: schedules_def split: if_splits\<close>)
  moreover obtain tm where tm: "Q1 = Q\<lparr>s_numCreated := s_numCreated Q + 1, theap := (theap Q)(p := Some tm)\<rparr>"
    "expiration tm = when" "sequence tm = s_numCreated Q + 1"
    using n by (auto simp: new_timer_def Let_def split: option.splits)
  moreover have "schedules A Q1 = schedules A (Q\<lparr>theap := (theap Q)(p := Some tm)\<rparr>)"
    by (simp add: schedules_def tm(1))
  ultimately show ?thesis using p by (intro conjI exI [of _ tm]) auto
qed

lemma addTimerInLoop_schedules:
  assumes A: "schedules A Q" and p: "theap Q p = Some tm" "p \<notin> A"
  shows "\<exists>Q'. addTimerInLoop dbg junk now True p Q = Inr Q' \<and> schedules (insert p A) Q' \<and>
    theap Q' = theap Q"
proof -
  obtain Q1 where Q1: "TimerQueue_insert dbg junk True p Q = Inr (junk, Q1)"
    "schedules (insert p A) Q1" "theap Q1 = theap Q"
    using schedules_insert [OF A p] by blast
  then show ?thesis using p(1)
    by (auto simp: addTimerInLoop_def resetTimerfd_def schedules_def)
qed

lemma act_step_inv:
  assumes al: "fresh_alloc alloc" and inv: "tq_inv g Q"
  shows "yields {LogicError ''bad_alloc''} (tq_inv g) (act_step dbg alloc a Q)"
proof -
  from inv obtain A where A: "schedules A Q" "dom g \<inter> A = {}" "g \<subseteq>\<^sub>m theap Q"
    by (auto simp: tq_inv_def)
  show ?thesis
  proof (cases a)
    case (TAdd cb w delta positive junk now)
    show ?thesis
    proof (cases "new_timer alloc cb w delta positive Q")
      case (Inl e)
      then show ?thesis using TAdd by (auto simp: new_timer_def Let_def split: option.splits)
    next
      case (Inr x)
      then obtain p Q1 where x: "new_timer alloc cb w delta positive Q = Inr (p, Q1)"
        by (cases x) auto
      from new_timer_schedules [OF A(1) al x] obtain tm where p: "schedules A Q1"
        "theap Q p = None" "p \<notin> A" "theap Q1 = (theap Q)(p := Some tm)" by blast
      then have "theap Q1 p = Some tm" by simp
      then obtain Q2 where Q2: "addTimerInLoop dbg junk now True p Q1 = Inr Q2"
        "schedules (insert p A) Q2" "theap Q2 = theap Q1"
        using addTimerInLoop_schedules [OF p(1) _ p(3)] by blast
      have "p \<notin> dom g" using A(3) p(2) by (auto simp: map_le_def dom_def)
      then have "tq_inv g Q2" unfolding tq_inv_def using Q2 A p
        by (intro exI [of _ "insert p A"]) (auto simp: map_le_def)
      then show ?thesis using TAdd x Q2 by simp
    qed
  next
    case (TCancel tid)
    show ?thesis
    proof (cases "tid \<in> set (activeTimer Q)")
      case True
      obtain p s where tid: "tid = (p, s)" by (cases tid)
      then have "p \<in> A" using True schedules_active [OF A(1)] by simp
      then have "p \<notin> dom g" using A by blast
      moreover obtain Q' where Q': "cancelInLoop dbg True (p, s) Q = Inr Q'"
        "schedules (A - {p}) Q'" "theap Q' = (theap Q)(p := None)"
        using schedules_cancel_hit [OF A(1), of p s dbg] True tid by blast
      ultimately have "tq_inv g Q'" unfolding tq_inv_def using A
        by (intro exI [of _ "A - {p}"]) (auto simp: map_le_def domIff)
      then show ?thesis using Q'(1) tid TCancel by simp
    next
      case False
      then show ?thesis using schedules_cancel_miss [OF A(1) False, of dbg] A TCancel
        by (auto simp: tq_inv_def)
    qed
  qed
qed

lemma tq_inv_mono: "tq_inv g' Q \<Longrightarrow> g \<subseteq>\<^sub>m g' \<Longrightarrow> tq_inv g Q"
  unfolding tq_inv_def by (meson disjoint_iff map_le_implies_dom_le map_le_trans subsetD)

lemma run_timer_inv:
  assumes "fresh_alloc alloc" "tq_inv g Q" "snd it \<in> dom g"
  shows "yields {LogicError ''bad_alloc''} (tq_inv g)
    (run_timer (\<lambda>f. foldRes (act_step dbg alloc) (prog f)) it Q)"
proof -
  from assms(2,3) obtain tm where "theap Q (snd it) = Some tm"
    unfolding tq_inv_def map_le_def by (metis domD)
  moreover have "yields {LogicError ''bad_alloc''} (tq_inv g) (foldRes (act_step dbg alloc) xs Q)"
    for xs
    by (rule yields_foldRes [where I = "tq_inv g"]) (rule assms(2), rule act_step_inv [OF assms(1)])
  ultimately show ?thesis by (simp add: run_timer_def)
qed

lemma handleRead_inv:
  assumes al: "fresh_alloc alloc" and A: "schedules A Q" "dom g \<inter> A = {}" "g \<subseteq>\<^sub>m theap Q"
  shows "yields {LogicError ''bad_alloc''} (tq_inv (g ++ theap Q |` due now Q A))
    (TimerQueue_handleRead dbg (\<lambda>f. foldRes (act_step dbg alloc) (prog f)) True now Q)"
proof -
  let ?R = "readTimerFd Q" and ?g = "g ++ theap Q |` due now Q A"
  have R: "schedules A ?R" "theap ?R = theap Q" "due now ?R A = due now Q A"
    using A(1) by (auto simp: readTimerFd_def Let_def schedules_def due_def)
  obtain expired Q1 where e: "getExpired dbg now ?R = Inr (expired, Q1)" "theap Q1 = theap Q"
    "schedules (A - due now Q A) Q1" "snd ` set expired = due now Q A"
    using schedules_getExpired [OF R(1), of dbg now] R(2,3) by (force simp: image_image)
  have dA: "due now Q A \<subseteq> A" by (auto simp: due_def)
  let ?Q1 = "Q1\<lparr>callingExpiredTimers := True, cancelingTimer := []\<rparr>"
  have le: "?g \<subseteq>\<^sub>m theap Q"
    by (rule map_add_le_mapI [OF A(3)]) (auto simp: map_le_def restrict_map_def split: if_splits)
  have inv: "tq_inv ?g ?Q1" unfolding tq_inv_def
    using e(2,3) A(2) le dA by (intro exI [of _ "A - due now Q A"]) (auto simp: schedules_def)
  have mem: "snd it \<in> dom ?g" if "it \<in> set expired" for it
    using that e(4) dA schedulesD(3) [OF A(1)] by force
  have "yields {LogicError ''bad_alloc''} (tq_inv ?g)
      (foldRes (run_timer (\<lambda>f. foldRes (act_step dbg alloc) (prog f))) expired ?Q1)"
    by (rule yields_foldRes [where I = "tq_inv ?g"], rule inv, rule run_timer_inv [OF al])
      (simp_all only: mem)
  then show ?thesis unfolding TimerQueue_handleRead_def using e(1)
    by (auto intro!: yields_andThen simp: tq_inv_def schedules_def)
qed

lemma tq_step_inv:
  assumes al: "fresh_alloc alloc" and inv: "tq_inv g Q"
  shows "yields {LogicError ''bad_alloc''} (tq_inv g) (tq_step dbg alloc prog op Q)"
proof (cases op)
  case (Act a)
  then show ?thesis using act_step_inv [OF al inv] by simp
next
  case (Fire now)
  from inv obtain A where A: "schedules A Q" "dom g \<inter> A = {}" "g \<subseteq>\<^sub>m theap Q"
    by (auto simp: tq_inv_def)
  have "g \<subseteq>\<^sub>m g ++ theap Q |` due now Q A"
    using A(3) by (auto simp: map_le_def map_add_def restrict_map_def split: option.splits)
  then show ?thesis
    using yields_mono [OF handleRead_inv [OF al A, of now dbg prog] tq_inv_mono] Fire by simp
qed

lemma tq_run_inv:
  assumes "fresh_alloc alloc" "tq_inv g Q"
  shows "yields {LogicError ''bad_alloc''} (tq_inv g) (foldRes (tq_step dbg alloc prog) ops Q)"
  using assms tq_step_inv by (intro yields_foldRes) auto

lemma schedules_ctor [simp]: "schedules {} TimerQueue_ctor"
  by (simp add: schedules_def TimerQueue_ctor_def)

lemma tq_inv_ctor: "tq_inv Map.empty TimerQueue_ctor"
  unfolding tq_inv_def using schedules_ctor by fastforce

section \<open>Properties\<close>


text \<open>An allocator that serves two addresses; one timer, whose callback adds the other.\<close>

definition demo_alloc :: "nat allocator" where
  "demo_alloc h = (if h 8 = None then Some 8 else if h 16 = None then Some 16 else None)"

lemma demo_fresh: "fresh_alloc demo_alloc"
  by (auto simp: fresh_alloc_def demo_alloc_def UINTPTR_MAX_def split: if_splits)


text \<open>\<open>getExpired\<close> takes from a queue exactly the timers due at \<open>now\<close>, in the order of
  their expiration, and leaves exactly the others scheduled; no assertion of it fails.\<close>

theorem getExpired_takes_due:
  assumes "schedules A Q"
  shows "\<exists>expired Q'. getExpired dbg now Q = Inr (expired, Q') \<and> theap Q' = theap Q \<and>
    schedules (A - due now Q A) Q' \<and> sorted_wrt (<) expired \<and>
    set expired = (\<lambda>p. (tm_exp (theap Q) p, p)) ` due now Q A"
  using schedules_getExpired [OF assms, of dbg now] by blast

definition demo_queue :: "nat timer_queue" where
  "demo_queue = TimerQueue_ctor\<lparr>
     theap := (\<lambda>_. None)(8 := Some \<lparr>expiration = 200, interval = 50, repeat = True, sequence = 1, callback = 5\<rparr>,
                        16 := Some \<lparr>expiration = 150, interval = 0, repeat = False, sequence = 2, callback = 6\<rparr>),
     timer_set := [(150, 16), (200, 8)], activeTimer := [(8, 1), (16, 2)], s_numCreated := 2\<rparr>"

lemma demo_schedules: "schedules {8, 16} demo_queue"
  by (auto simp: schedules_def demo_queue_def holds_def tm_exp_def tm_seq_def UINTPTR_MAX_def
      split: if_splits)

lemma demo_due: "due 300 demo_queue {8, 16} = {8, 16}"
  by (auto simp: due_def demo_queue_def tm_exp_def)

theorem getExpired_takes_due_witness:
  "\<exists>expired Q'. getExpired True 300 demo_queue = Inr (expired, Q') \<and> schedules {} Q' \<and>
    set expired = {(150, 16), (200, 8)}"
  using getExpired_takes_due [OF demo_schedules, of True 300] unfolding demo_due
  by (auto simp: demo_queue_def tm_exp_def insert_commute)

text \<open>A timer that expires, repeating or not, is neither re-armed nor freed: whatever is done
  with the queue afterwards, it stays allocated and unchanged and is never scheduled again.\<close>

theorem expired_timer_never_rearmed:
  assumes "fresh_alloc alloc" and "schedules A Q" and "p \<in> due now Q A" and "theap Q p = Some tm"
    and "foldRes (tq_step dbg alloc prog) (Fire now # ops) Q = Inr Q'"
  shows "theap Q' p = Some tm \<and> p \<notin> snd ` set (timer_set Q') \<and> p \<notin> fst ` set (activeTimer Q')"
proof -
  let ?g = "Map.empty ++ theap Q |` due now Q A"
  from assms(5) obtain Q1 where Q1: "tq_step dbg alloc prog (Fire now) Q = Inr Q1"
    "foldRes (tq_step dbg alloc prog) ops Q1 = Inr Q'"
    by (auto simp: res_simps)
  have "tq_inv ?g Q1"
    using handleRead_inv [OF assms(1,2), of Map.empty now dbg prog] Q1(1) by simp
  then have "tq_inv ?g Q'" using tq_run_inv [OF assms(1), of ?g Q1 dbg prog ops] Q1(2) by simp
  moreover have "?g p = Some tm" using assms(3,4) by simp
  ultimately obtain B where B: "schedules B Q'" "p \<notin> B" "theap Q' p = Some tm"
    unfolding tq_inv_def map_le_def by (metis disjoint_iff domI)
  then show ?thesis using schedulesD(1,2) [OF B(1)] by (auto simp: holds_def)
qed

theorem expired_timer_never_rearmed_witness:
  "\<exists>Q'. foldRes (tq_step True demo_alloc (\<lambda>f. [])) [Fire 300] demo_queue = Inr Q' \<and>
    8 \<notin> snd ` set (timer_set Q') \<and> (\<exists>tm. theap Q' 8 = Some tm \<and> repeat tm)"
proof -
  let ?tm = "\<lparr>expiration = 200, interval = 50, repeat = True, sequence = 1, callback = 5 :: nat\<rparr>"
  have tm: "theap demo_queue 8 = Some ?tm" by (simp add: demo_queue_def)
  obtain Q' where Q': "foldRes (tq_step True demo_alloc (\<lambda>f. [])) [Fire 300] demo_queue = Inr Q'"
    by (simp add: demo_queue_def TimerQueue_ctor_def TimerQueue_handleRead_def getExpired_def
        readTimerFd_def set_from_def set_below_def erase_active_def set_erase_def run_timer_def
        UINTPTR_MAX_def Let_def cassert_def)
  have "8 \<in> due 300 demo_queue {8, 16}" by (simp add: demo_due)
  from expired_timer_never_rearmed [OF demo_fresh demo_schedules this tm Q'] Q'
  show ?thesis by auto
qed

text \<open>A timer id cancels the timer it was issued for and no other: if that timer is
  scheduled, it leaves both sets and is freed; if it is not (it ran, was cancelled, or its address
  now belongs to a later timer), sets and heap stay as they are. No assertion fails.\<close>

theorem cancel_exactly_its_timer:
  assumes "schedules A Q"
  shows "\<exists>Q'. cancelInLoop dbg True (p, s) Q = Inr Q' \<and>
    (if p \<in> A \<and> s = tm_seq (theap Q) p
     then schedules (A - {p}) Q' \<and> theap Q' = (theap Q)(p := None)
     else timer_set Q' = timer_set Q \<and> activeTimer Q' = activeTimer Q \<and> theap Q' = theap Q)"
  using schedules_cancel_hit [OF assms, of p s dbg] schedules_cancel_miss [OF assms, of "(p, s)" dbg]
    schedules_active [OF assms, of p s]
  by (cases "p \<in> A \<and> s = tm_seq (theap Q) p") auto

theorem cancel_exactly_its_timer_witness:
  "\<exists>Q1 Q2. cancelInLoop True True (8, 1) demo_queue = Inr Q1 \<and> schedules {16} Q1 \<and>
    cancelInLoop True True (8, 7) demo_queue = Inr Q2 \<and> timer_set Q2 = [(150, 16), (200, 8)]"
proof -
  have seq: "tm_seq (theap demo_queue) 8 = 1" by (simp add: demo_queue_def tm_seq_def)
  have A: "{8, 16} - {8} = {16 :: nat}" by auto
  from cancel_exactly_its_timer [OF demo_schedules, of True 8 1]
  obtain Q1 where Q1: "cancelInLoop True True (8, 1) demo_queue = Inr Q1" "schedules {16} Q1"
    by (auto simp: seq A)
  from cancel_exactly_its_timer [OF demo_schedules, of True 8 7]
  obtain Q2 where "cancelInLoop True True (8, 7) demo_queue = Inr Q2"
    "timer_set Q2 = timer_set demo_queue"
    by (auto simp: seq)
  with Q1 show ?thesis by (auto simp: demo_queue_def)
qed

text \<open>The value given to \<open>timerfd_settime\<close> is a valid \<open>timespec\<close> at least 100
  microseconds ahead and never the zero that would disarm the descriptor; an expiration further
  ahead than that is hit exactly.\<close>

theorem howMuchTimeFromNow_bounds:
  "(case howMuchTimeFromNow now when of (sec, nsec) \<Rightarrow>
     0 \<le> sec \<and> 0 \<le> nsec \<and> nsec \<le> 999999000 \<and> (sec, nsec) \<noteq> (0, 0) \<and>
     sec * 1000000000 + nsec = max 100 (when - now) * 1000)"
proof -
  define d where "d = (if when - now < 100 then 100 else when - now)"
  have d: "100 \<le> d" "d = max 100 (when - now)" by (auto simp: d_def)
  have h: "howMuchTimeFromNow now when = (d div 1000000, d mod 1000000 * 1000)"
    using d(1) by (simp add: howMuchTimeFromNow_def d_def Let_def k_micro_seconds_persecond_def
        sdiv_nonneg smod_nonneg)
  have e: "d div 1000000 * 1000000 + d mod 1000000 = d" by simp
  have "d mod 1000000 * 1000 \<le> 999999000" by simp
  moreover have "\<not> (d div 1000000 = 0 \<and> d mod 1000000 = 0)" using d(1) e by fastforce
  moreover have "d div 1000000 * 1000000000 + d mod 1000000 * 1000 = d * 1000" using e by linarith
  moreover have "0 \<le> d div 1000000" "0 \<le> d mod 1000000 * 1000"
    using d(1) by (simp_all add: pos_imp_zdiv_nonneg_iff)
  ultimately show ?thesis unfolding h using d(2) by auto
qed

section \<open>The re-arming that is never called\<close>

text \<open>\<open>reset\<close> on one expired timer: a repeating, uncancelled one is scheduled again at its
  next expiration, every other one freed.\<close>

lemma reset_timer_rearms:
  assumes A: "schedules A Q" and tm: "theap Q p = Some tm" and p: "p \<notin> A"
  shows "if repeat tm \<and> (p, sequence tm) \<notin> set (cancelingTimer Q)
    then \<exists>Q'. reset_timer dbg True now (e, p) Q = Inr Q' \<and> schedules (insert p A) Q' \<and>
      tm_exp (theap Q') p = now + interval tm
    else reset_timer dbg True now (e, p) Q = Inr (Q\<lparr>theap := (theap Q)(p := None)\<rparr>)"
proof (cases "repeat tm \<and> (p, sequence tm) \<notin> set (cancelingTimer Q)")
  case True
  let ?Q = "Q\<lparr>theap := (theap Q)(p := Some (Timer_restart now tm))\<rparr>"
  have "schedules A ?Q"
    by (rule schedules_heap [OF A]) (use p tm A in \<open>auto simp: schedules_def split: if_splits\<close>)
  then obtain Q' where "TimerQueue_insert dbg False True p ?Q = Inr (False, Q')"
    "schedules (insert p A) Q'" "theap Q' = theap ?Q"
    using schedules_insert [of A ?Q p "Timer_restart now tm" dbg False] p by auto
  then show ?thesis using True tm
    by (auto simp: reset_timer_def Timer_restart_def add_time_def tm_exp_def)
next
  case False
  then show ?thesis using tm by (auto simp: reset_timer_def delete_timer_def)
qed

text \<open>A call from another thread reaches the queue only through the functor it leaves there.\<close>

lemma addTimer_other_thread:
  assumes "\<not> isInLoopThread me L" "alloc (theap Q) = Some p"
  shows "\<exists>Q'. addTimer dbg alloc junk now me cb when delta positive (L, Q) =
      Inr ((p, s_numCreated Q + 1), queueInLoop me (AddTimerInLoop p) L, Q') \<and>
    timer_set Q' = timer_set Q \<and> activeTimer Q' = activeTimer Q"
  using assms by (auto simp: addTimer_def new_timer_def timer_runInLoop_def Let_def)

section \<open>Destruction\<close>

text \<open>The destructor frees exactly the timers that are scheduled, each once; the expired ones stay.\<close>

lemma delete_scheduled:
  assumes "distinct (map snd xs)" "snd ` set xs \<subseteq> dom (theap Q)"
  shows "foldRes (\<lambda>timer. delete_timer (snd timer)) xs Q =
    Inr (Q\<lparr>theap := theap Q |` (- snd ` set xs)\<rparr>)"
  using assms
proof (induction xs arbitrary: Q)
  case (Cons x xs)
  let ?Q = "Q\<lparr>theap := (theap Q)(snd x := None)\<rparr>"
  have "snd x \<notin> snd ` set xs" using Cons.prems(1) by simp
  then have sub: "snd ` set xs \<subseteq> dom (theap ?Q)" using Cons.prems(2) by (simp add: subset_Diff_insert)
  have eq: "theap ?Q |` (- snd ` set xs) = theap Q |` (- snd ` set (x # xs))"
    by (auto simp: restrict_map_def fun_eq_iff)
  have "foldRes (\<lambda>timer. delete_timer (snd timer)) xs ?Q = Inr (?Q\<lparr>theap := theap ?Q |` (- snd ` set xs)\<rparr>)"
    using Cons.prems(1) by (intro Cons.IH sub) simp
  then have "foldRes (\<lambda>timer. delete_timer (snd timer)) xs ?Q =
      Inr (?Q\<lparr>theap := theap Q |` (- snd ` set (x # xs))\<rparr>)"
    by (simp only: eq)
  moreover have "delete_timer (snd x) Q = Inr ?Q" using Cons.prems(2) by (auto simp: delete_timer_def)
  ultimately show ?case by simp
qed (simp add: restrict_map_def)

lemma scheduled_once:
  assumes "schedules A Q"
  shows "distinct (map snd (timer_set Q))" "snd ` set (timer_set Q) \<subseteq> dom (theap Q)"
    "snd ` set (timer_set Q) = A"
proof -
  have h: "set (timer_set Q) = (\<lambda>p. (tm_exp (theap Q) p, p)) ` A" "sorted_wrt (<) (timer_set Q)"
    using schedulesD(1) [OF assms] by (simp_all add: holds_def)
  then show s: "snd ` set (timer_set Q) = A" by (simp add: image_image)
  have "inj_on snd (set (timer_set Q))" unfolding h(1) by (auto intro: inj_onI)
  then show "distinct (map snd (timer_set Q))" using h(2) by (simp add: distinct_map strict_sorted_iff)
  show "snd ` set (timer_set Q) \<subseteq> dom (theap Q)" using schedulesD(3) [OF assms] unfolding s by blast
qed

lemma TimerQueue_dtor_frees:
  assumes "schedules A Q" "TimerQueue_dtor dbg ctl me (L, Q) = Inr (L', Q')"
  shows "theap Q' = theap Q |` (- A)"
  using delete_scheduled [OF scheduled_once(1,2) [OF assms(1)]] scheduled_once(3) [OF assms(1)] assms(2)
  by (auto simp: TimerQueue_dtor_def res_simps)

end
