(* ===== verification/Net_TimerSpec.thy ===== *)
theory Net_TimerSpec
  imports Net_Timer
begin

text \<open>
  What the timer queue promises: a finite map from timer ids to deadlines and callbacks. Adding
  issues a new id, cancelling an id removes that entry, and the passing of a deadline removes every
  entry due and runs their callbacks in the order of the deadlines (entries with one deadline in any
  order). The heap, the two sets, the flag and the set of timers cancelled meanwhile, the assertions
  and the timer descriptor are not in it.

  The interpretation \<open>timers\<close> shows that the queue is a simulation of this specification.
\<close>

section \<open>The specification\<close>

record 'f timer_map =
  armed :: "timer_id \<Rightarrow> (timestamp \<times> 'f) option"
  issued :: int

inductive act_spec :: "'f timer_act \<Rightarrow> 'f timer_map \<Rightarrow> 'f timer_map \<Rightarrow> bool" where
  add: "(\<And>s. armed T (p, s) = None) \<Longrightarrow> act_spec (TAdd cb when delta positive junk now) T
     (T\<lparr>armed := (armed T)((p, issued T + 1) \<mapsto> (when, cb)), issued := issued T + 1\<rparr>)"
| cancel: "act_spec (TCancel tid) T (T\<lparr>armed := (armed T)(tid := None)\<rparr>)"

definition due_ids :: "timestamp \<Rightarrow> 'f timer_map \<Rightarrow> timer_id set" where
  "due_ids now T = {tid. \<exists>d f. armed T tid = Some (d, f) \<and> d \<le> now}"

definition deadline :: "'f timer_map \<Rightarrow> timer_id \<Rightarrow> timestamp" where
  "deadline T tid = fst (the (armed T tid))"

definition callback_of :: "'f timer_map \<Rightarrow> timer_id \<Rightarrow> 'f" where
  "callback_of T tid = snd (the (armed T tid))"

definition disarm :: "timer_id set \<Rightarrow> 'f timer_map \<Rightarrow> 'f timer_map" where
  "disarm D T = T\<lparr>armed := armed T |` (- D)\<rparr>"

inductive tq_spec :: "('f \<Rightarrow> 'f timer_act list) \<Rightarrow> 'f tq_op \<Rightarrow> 'f timer_map \<Rightarrow> 'f timer_map \<Rightarrow> bool"
  for prog where
  call: "act_spec a T T' \<Longrightarrow> tq_spec prog (Act a) T T'"
| fire: "set ids = due_ids now T \<Longrightarrow> distinct ids \<Longrightarrow>
     sorted (List.map (deadline T) ids) \<Longrightarrow>
     spec_run act_spec (concat (List.map (\<lambda>tid. prog (callback_of T tid)) ids))
       (disarm (due_ids now T) T) T' \<Longrightarrow>
     tq_spec prog (Fire now) T T'"

inductive_cases act_spec_addE: "act_spec (TAdd cb when delta positive junk now) T T'"
inductive_cases act_spec_cancelE: "act_spec (TCancel tid) T T'"
inductive_cases tq_spec_fireE: "tq_spec prog (Fire now) T T'"

section \<open>The abstraction\<close>

definition timers_of :: "'f timer_queue \<Rightarrow> 'f timer_map" where
  "timers_of Q = \<lparr>armed = (\<lambda>tid. if tid \<in> set (activeTimer Q)
       then map_option (\<lambda>tm. (expiration tm, callback tm)) (theap Q (fst tid)) else None),
     issued = s_numCreated Q\<rparr>"

lemma timers_of_simps [simp]: "issued (timers_of Q) = s_numCreated Q"
  by (simp add: timers_of_def)

lemma timers_of_ctor [simp]: "timers_of TimerQueue_ctor = \<lparr>armed = Map.empty, issued = 0\<rparr>"
  by (simp add: timers_of_def TimerQueue_ctor_def)

lemma armed_iff:
  assumes "schedules A Q"
  shows "armed (timers_of Q) (p, s) = Some (d, f) \<longleftrightarrow>
    p \<in> A \<and> (\<exists>tm. theap Q p = Some tm \<and> sequence tm = s \<and> expiration tm = d \<and> callback tm = f)"
  using schedules_active [OF assms, of p s] schedulesD(3) [OF assms, of p]
  by (auto simp: timers_of_def)

lemma armed_none: "schedules A Q \<Longrightarrow> p \<notin> A \<Longrightarrow> armed (timers_of Q) (p, s) = None"
  using armed_iff [of A Q p s] by (cases "armed (timers_of Q) (p, s)") auto

lemma option_pair_eqI: "(\<And>d f. x = Some (d, f) \<longleftrightarrow> y = Some (d, f)) \<Longrightarrow> x = y"
  by (cases x; cases y) auto

lemma armed_eqI:
  assumes "schedules A Q" "schedules A Q'" "\<And>p. p \<in> A \<Longrightarrow> theap Q' p = theap Q p"
  shows "armed (timers_of Q') = armed (timers_of Q)"
proof (rule ext, clarify)
  fix p s
  show "armed (timers_of Q') (p, s) = armed (timers_of Q) (p, s)"
    using armed_iff [OF assms(1)] armed_iff [OF assms(2)] assms(3)
    by (intro option_pair_eqI) auto
qed

lemma armed_insert:
  assumes "schedules A Q" "schedules (insert p A) Q'" "p \<notin> A" "theap Q' = (theap Q)(p := Some tm)"
  shows "armed (timers_of Q') =
    (armed (timers_of Q))((p, sequence tm) \<mapsto> (expiration tm, callback tm))"
proof (rule ext, clarify)
  fix q s
  show "armed (timers_of Q') (q, s) =
    ((armed (timers_of Q))((p, sequence tm) \<mapsto> (expiration tm, callback tm))) (q, s)"
    using armed_iff [OF assms(1)] armed_iff [OF assms(2)] assms(3,4)
    by (intro option_pair_eqI) auto
qed

lemma armed_remove:
  assumes "schedules A Q" "schedules (A - {p}) Q'" "\<And>q. q \<noteq> p \<Longrightarrow> theap Q' q = theap Q q"
    and "s = tm_seq (theap Q) p"
  shows "armed (timers_of Q') = (armed (timers_of Q))((p, s) := None)"
proof (rule ext, clarify)
  fix q r
  show "armed (timers_of Q') (q, r) = ((armed (timers_of Q))((p, s) := None)) (q, r)"
    using armed_iff [OF assms(1)] armed_iff [OF assms(2)] assms(3,4)
    by (cases "q = p"; intro option_pair_eqI) auto
qed

lemma numCreated_simps:
  "addTimerInLoop dbg junk now True p Q = Inr Q' \<Longrightarrow> s_numCreated Q' = s_numCreated Q"
  "cancelInLoop dbg True tid Q = Inr Q' \<Longrightarrow> s_numCreated Q' = s_numCreated Q"
  by (auto simp: addTimerInLoop_def TimerQueue_insert_def cancelInLoop_def delete_timer_def
      resetTimerfd_def cassert_def res_simps Let_def split: if_splits option.splits prod.splits)

section \<open>The calls\<close>

lemma add_sim:
  assumes A: "schedules A Q" and al: "fresh_alloc alloc"
  shows "yields {LogicError ''bad_alloc''}
    (act_spec (TAdd cb w delta positive junk now) (timers_of Q) \<circ> timers_of)
    (act_step dbg alloc (TAdd cb w delta positive junk now) Q)"
proof (cases "new_timer alloc cb w delta positive Q")
  case (Inl e)
  then show ?thesis by (auto simp: new_timer_def Let_def split: option.splits)
next
  case (Inr x)
  then obtain p Q1 where x: "new_timer alloc cb w delta positive Q = Inr (p, Q1)" by (cases x) auto
  from new_timer_schedules [OF A al x] have p: "schedules A Q1" "p \<notin> A" by auto
  obtain tm where tm: "theap Q1 = (theap Q)(p := Some tm)" "expiration tm = w"
    "sequence tm = s_numCreated Q + 1" "callback tm = cb" "s_numCreated Q1 = s_numCreated Q + 1"
    using x by (auto simp: new_timer_def Let_def split: option.splits)
  then obtain Q2 where Q2: "addTimerInLoop dbg junk now True p Q1 = Inr Q2"
    "schedules (insert p A) Q2" "theap Q2 = theap Q1"
    using addTimerInLoop_schedules [OF p(1) _ p(2), of tm dbg junk now] by auto
  have "timers_of Q2 = (timers_of Q)\<lparr>armed := (armed (timers_of Q))((p, s_numCreated Q + 1) \<mapsto> (w, cb)),
      issued := s_numCreated Q + 1\<rparr>"
    using armed_insert [OF A Q2(2) p(2), of tm] Q2(3) tm numCreated_simps(1) [OF Q2(1)]
    by (intro timer_map.equality) auto
  moreover have "armed (timers_of Q) (p, s) = None" for s using armed_none [OF A p(2)] .
  ultimately show ?thesis using act_spec.add [of "timers_of Q" p] x Q2(1) by simp
qed

lemma cancel_sim:
  assumes A: "schedules A Q"
  shows "yields E (act_spec (TCancel tid) (timers_of Q) \<circ> timers_of) (act_step dbg alloc (TCancel tid) Q)"
proof -
  obtain p s where tid: "tid = (p, s)" by (cases tid)
  have "\<exists>Q'. cancelInLoop dbg True tid Q = Inr Q' \<and>
    armed (timers_of Q') = (armed (timers_of Q))(tid := None)"
  proof (cases "tid \<in> set (activeTimer Q)")
    case True
    then have "s = tm_seq (theap Q) p" using schedules_active [OF A] tid by simp
    moreover obtain Q' where Q': "cancelInLoop dbg True tid Q = Inr Q'" "schedules (A - {p}) Q'"
      "theap Q' = (theap Q)(p := None)"
      using schedules_cancel_hit [OF A, of p s dbg] True tid by auto
    ultimately show ?thesis using armed_remove [OF A Q'(2), of s] tid by auto
  next
    case False
    then obtain Q' where Q': "cancelInLoop dbg True tid Q = Inr Q'" "schedules A Q'" "theap Q' = theap Q"
      using schedules_cancel_miss [OF A False, of dbg] by blast
    have "armed (timers_of Q) tid = None" using False by (simp add: timers_of_def)
    then show ?thesis using Q' armed_eqI [OF A Q'(2)] by (auto simp: fun_upd_idem)
  qed
  then obtain Q' where Q': "cancelInLoop dbg True tid Q = Inr Q'"
    "armed (timers_of Q') = (armed (timers_of Q))(tid := None)" by blast
  then have "timers_of Q' = (timers_of Q)\<lparr>armed := (armed (timers_of Q))(tid := None)\<rparr>"
    using numCreated_simps(2) [OF Q'(1)] by (intro timer_map.equality) auto
  then show ?thesis using Q'(1) act_spec.cancel [of tid "timers_of Q"] by simp
qed

lemma yields_conj: "yields E I r \<Longrightarrow> yields F J r \<Longrightarrow> yields E (\<lambda>s. I s \<and> J s) r"
  by (cases r) simp_all

interpretation acts: simulation "act_step dbg alloc" "{LogicError ''bad_alloc''}"
    "\<lambda>Q. fresh_alloc alloc \<and> tq_inv g Q" timers_of "\<lambda>_. True" act_spec
  for dbg alloc g
proof
  fix Q :: "'a timer_queue" and a :: "'a timer_act"
  assume inv: "fresh_alloc alloc \<and> tq_inv g Q"
  then obtain A where A: "schedules A Q" by (auto simp: tq_inv_def)
  have "yields {LogicError ''bad_alloc''} (act_spec a (timers_of Q) \<circ> timers_of) (act_step dbg alloc a Q)"
    using add_sim [OF A] cancel_sim [OF A] inv by (cases a) blast+
  then show "yields {LogicError ''bad_alloc''}
     (\<lambda>s'. (fresh_alloc alloc \<and> tq_inv g s') \<and> act_spec a (timers_of Q) (timers_of s')) (act_step dbg alloc a Q)"
    using yields_conj [OF act_step_inv] inv by (auto simp: comp_def)
qed

section \<open>Expiry\<close>

abbreviation run_acts where
  "run_acts dbg alloc prog \<equiv> \<lambda>f. foldRes (act_step dbg alloc) (prog f)"

lemma run_timer_sim:
  assumes "fresh_alloc alloc" "tq_inv g Q" "g (snd it) = Some tm"
  shows "yields {LogicError ''bad_alloc''}
    (\<lambda>Q'. tq_inv g Q' \<and> spec_run act_spec (prog (callback tm)) (timers_of Q) (timers_of Q'))
    (run_timer (run_acts dbg alloc prog) it Q)"
proof -
  from assms(2,3) have "theap Q (snd it) = Some tm" unfolding tq_inv_def map_le_def by (metis domI)
  then show ?thesis
    using acts.run_simulates [of alloc g Q "prog (callback tm)" dbg] assms(1,2)
    by (simp add: run_timer_def list_all_def)
qed

lemma run_timers_sim:
  assumes al: "fresh_alloc alloc" and "tq_inv g Q" "snd ` set xs \<subseteq> dom g"
  shows "yields {LogicError ''bad_alloc''}
    (\<lambda>Q'. tq_inv g Q' \<and> spec_run act_spec
       (concat (List.map (\<lambda>it. prog (callback (the (g (snd it))))) xs)) (timers_of Q) (timers_of Q'))
    (foldRes (run_timer (run_acts dbg alloc prog)) xs Q)"
  using assms(2,3)
proof (induction xs arbitrary: Q)
  case (Cons it xs)
  then obtain tm where tm: "g (snd it) = Some tm" by auto
  show ?case unfolding foldRes.simps
    by (rule yields_andThen [OF run_timer_sim [OF al Cons.prems(1) tm]], rule yields_mono [OF Cons.IH])
      (use Cons.prems(2) tm in \<open>auto simp: spec_run_append\<close>)
qed simp

text \<open>The timers that are due, in the store and in the map.\<close>

lemma armed_due:
  "schedules A Q \<Longrightarrow> p \<in> due now Q A \<Longrightarrow>
    armed (timers_of Q) (p, tm_seq (theap Q) p) = Some (tm_exp (theap Q) p, callback (the (theap Q p)))"
  using armed_iff [of A Q p] schedulesD(3) [of A Q p] by (auto simp: due_def)

lemma due_ids_of:
  assumes "schedules A Q"
  shows "due_ids now (timers_of Q) = (\<lambda>p. (p, tm_seq (theap Q) p)) ` due now Q A"
proof -
  have "(p, s) \<in> due_ids now (timers_of Q) \<longleftrightarrow> p \<in> due now Q A \<and> s = tm_seq (theap Q) p" for p s
    using armed_iff [OF assms, of p s] schedulesD(3) [OF assms, of p] by (auto simp: due_ids_def due_def)
  then show ?thesis by auto
qed

lemma timers_of_disarm:
  assumes A: "schedules A Q" and A': "schedules (A - due now Q A) Q'"
    and "theap Q' = theap Q" "s_numCreated Q' = s_numCreated Q"
  shows "timers_of Q' = disarm (due_ids now (timers_of Q)) (timers_of Q)"
proof (intro timer_map.equality ext, clarify)
  fix p s
  show "armed (timers_of Q') (p, s) = armed (disarm (due_ids now (timers_of Q)) (timers_of Q)) (p, s)"
    using armed_iff [OF A', of p s] armed_iff [OF A, of p s] assms(3) tm_some(1) [of "theap Q" p]
    by (intro option_pair_eqI) (auto simp: disarm_def restrict_map_def due_ids_def due_def split: if_splits)
qed (use assms(4) in \<open>auto simp: disarm_def\<close>)

lemma expired_ids:
  assumes A: "schedules A Q" and "set expired = (\<lambda>p. (tm_exp (theap Q) p, p)) ` due now Q A"
    and "distinct (List.map snd expired)" "sorted_wrt (<) expired"
  defines "ids \<equiv> List.map (\<lambda>it. (snd it, tm_seq (theap Q) (snd it))) expired"
  shows "set ids = due_ids now (timers_of Q)" and "distinct ids"
    and "sorted (List.map (deadline (timers_of Q)) ids)"
    and "List.map (\<lambda>it. callback (the ((theap Q |` due now Q A) (snd it)))) expired =
      List.map (callback_of (timers_of Q)) ids"
proof -
  have mem: "snd it \<in> due now Q A \<and> fst it = tm_exp (theap Q) (snd it)" if "it \<in> set expired" for it
    using that assms(2) by auto
  show "set ids = due_ids now (timers_of Q)"
    unfolding ids_def due_ids_of [OF A] set_map assms(2) by (simp add: image_image)
  have "distinct (List.map fst ids)" using assms(3) by (simp add: ids_def comp_def)
  then show "distinct ids" by (rule distinct_map [THEN iffD1, THEN conjunct1])
  have "List.map (deadline (timers_of Q)) ids = List.map fst expired"
    using mem armed_due [OF A, of _ now] by (auto simp: deadline_def ids_def)
  moreover have "sorted (List.map fst expired)" unfolding sorted_map
    by (rule sorted_wrt_mono_rel [OF _ assms(4)]) (auto simp: less_prod_def)
  ultimately show "sorted (List.map (deadline (timers_of Q)) ids)" by (simp only:)
  show "List.map (\<lambda>it. callback (the ((theap Q |` due now Q A) (snd it)))) expired =
      List.map (callback_of (timers_of Q)) ids"
    using mem armed_due [OF A, of _ now] by (auto simp: callback_of_def ids_def)
qed

lemma fire_sim:
  assumes al: "fresh_alloc alloc" and A: "schedules A Q"
  shows "yields {LogicError ''bad_alloc''} (tq_spec prog (Fire now) (timers_of Q) \<circ> timers_of)
    (TimerQueue_handleRead dbg (run_acts dbg alloc prog) True now Q)"
proof -
  let ?R = "readTimerFd Q" and ?g = "theap Q |` due now Q A"
  have R: "schedules A ?R" "theap ?R = theap Q" "due now ?R A = due now Q A"
    "s_numCreated ?R = s_numCreated Q"
    using A by (auto simp: readTimerFd_def Let_def schedules_def due_def)
  obtain expired Q1 where e: "getExpired dbg now ?R = Inr (expired, Q1)" "theap Q1 = theap Q"
    "s_numCreated Q1 = s_numCreated Q" "distinct (List.map snd expired)" "sorted_wrt (<) expired"
    "schedules (A - due now Q A) Q1"
    "set expired = (\<lambda>p. (tm_exp (theap Q) p, p)) ` due now Q A"
    using schedules_getExpired [OF R(1), of dbg now, unfolded R(2-4)] by blast
  let ?Q1 = "Q1\<lparr>callingExpiredTimers := True, cancelingTimer := []\<rparr>"
  have S1: "schedules (A - due now Q A) ?Q1" using e(6) by (simp add: schedules_def)
  have inv: "tq_inv ?g ?Q1" unfolding tq_inv_def using S1 e(2)
    by (intro exI [of _ "A - due now Q A"]) (auto simp: map_le_def restrict_map_def split: if_splits)
  note ids = expired_ids [OF A e(7,4,5)]
  have dis: "timers_of ?Q1 = disarm (due_ids now (timers_of Q)) (timers_of Q)"
    using e(2,3) by (intro timers_of_disarm [OF A S1]) simp_all
  have prog: "List.map (\<lambda>it. prog (callback (the (?g (snd it))))) expired =
      List.map (\<lambda>tid. prog (callback_of (timers_of Q) tid))
        (List.map (\<lambda>it. (snd it, tm_seq (theap Q) (snd it))) expired)"
    using arg_cong [OF ids(4), of "List.map prog"] by (simp only: List.map.compositionality comp_def)
  have "snd ` set expired \<subseteq> dom ?g"
    using e(7) schedulesD(3) [OF A] by (auto simp: due_def restrict_map_def)
  from run_timers_sim [OF al inv this, of prog dbg]
  have "yields {LogicError ''bad_alloc''} (tq_spec prog (Fire now) (timers_of Q) \<circ> timers_of)
      (foldRes (run_timer (run_acts dbg alloc prog)) expired ?Q1)"
    unfolding prog dis
    by (rule yields_mono) (use tq_spec.fire [OF ids(1-3)] in auto)
  moreover have "timers_of (S\<lparr>callingExpiredTimers := b\<rparr>) = timers_of S" for S :: "'a timer_queue" and b
    by (simp add: timers_of_def cong: if_cong)
  ultimately show ?thesis unfolding TimerQueue_handleRead_def using e(1)
    by (auto intro!: yields_andThen)
qed

interpretation timers: simulation "tq_step dbg alloc prog" "{LogicError ''bad_alloc''}"
    "\<lambda>Q. fresh_alloc alloc \<and> tq_inv g Q" timers_of "\<lambda>_. True" "tq_spec prog"
  for dbg alloc g and prog :: "'f \<Rightarrow> 'f timer_act list"
proof
  fix Q :: "'f timer_queue" and op :: "'f tq_op"
  assume inv: "fresh_alloc alloc \<and> tq_inv g Q"
  then obtain A where A: "schedules A Q" by (auto simp: tq_inv_def)
  have "yields {LogicError ''bad_alloc''} (tq_spec prog op (timers_of Q) \<circ> timers_of) (tq_step dbg alloc prog op Q)"
  proof (cases op)
    case (Act a)
    show ?thesis unfolding Act tq_step.simps comp_def
      by (rule yields_mono [OF acts.simulates [of alloc g Q a dbg]]) (use inv in \<open>auto intro: tq_spec.call\<close>)
  next
    case (Fire now)
    then show ?thesis using fire_sim [OF _ A, of alloc prog now dbg] inv by simp
  qed
  then show "yields {LogicError ''bad_alloc''}
     (\<lambda>s'. (fresh_alloc alloc \<and> tq_inv g s') \<and> tq_spec prog op (timers_of Q) (timers_of s')) (tq_step dbg alloc prog op Q)"
    using yields_conj [OF tq_step_inv] inv by (auto simp: comp_def)
qed

section \<open>Properties\<close>

text \<open>The id of a timer that was issued and is not armed any more stays unarmed.\<close>

definition spent :: "timer_id \<Rightarrow> 'f timer_map \<Rightarrow> bool" where
  "spent tid T \<longleftrightarrow> snd tid \<le> issued T \<and> armed T tid = None"

lemma act_spec_spent: "act_spec a T T' \<Longrightarrow> spent tid T \<Longrightarrow> spent tid T'"
  by (induction rule: act_spec.induct) (auto simp: spent_def)

lemma tq_spec_spent: "tq_spec prog op T T' \<Longrightarrow> spent tid T \<Longrightarrow> spent tid T'"
proof (induction rule: tq_spec.induct)
  case (fire ids now T T')
  have "spent tid (disarm (due_ids now T) T)"
    using fire.prems by (simp add: spent_def disarm_def restrict_map_def)
  then show ?case using spec_run_invariant [OF fire.hyps(4)] act_spec_spent by blast
qed (rule act_spec_spent)





end
