(* ===== verification/Net_LoopProgress.thy ===== *)
theory Net_LoopProgress
  imports Net_EventLoop
begin

text \<open>
  Progress of the functor queue of \<open>net/event_loop.cpp\<close>: infinite runs of the step relation
  \<open>sched_step\<close> in which neither the loop thread nor a thread that is between its push and its
  wakeup is stopped for ever. A loop that waits in \<open>poll\<close> with an unset wakeup descriptor may wait
  for ever. In every such run each functor that is queued is run.

  A run is a function from step numbers to states. The proof follows the loop thread through its
  phases, from one change of the phase to the next.
\<close>

section \<open>Fair runs\<close>

definition is_run :: "('k, 'f) evloop \<Rightarrow> (nat \<Rightarrow> ('k, 'f) sched) \<Rightarrow> bool" where
  "is_run L r \<longleftrightarrow> r 0 = sched_init L \<and> (\<forall>i. sched_step (r i) (r (Suc i)))"

text \<open>The loop thread runs, or sleeps in \<open>poll\<close> until its wakeup descriptor is set.\<close>

definition loop_fair :: "(nat \<Rightarrow> ('k, 'f) sched) \<Rightarrow> bool" where
  "loop_fair r \<longleftrightarrow> (\<forall>i. phase (r i) = Polling \<and> wakeupFd (sloop (r i)) = 0 \<or>
     (\<exists>j \<ge> i. phase (r j) \<noteq> phase (r i)))"

text \<open>A thread that has pushed a functor goes on to its wakeup.\<close>

definition callers_fair :: "(nat \<Rightarrow> ('k, 'f) sched) \<Rightarrow> bool" where
  "callers_fair r \<longleftrightarrow> (\<forall>i. midway (r i) = 0 \<or>
     (\<exists>j \<ge> i. midway (r j) = Suc (midway (r (Suc j))) \<and> sloop (r (Suc j)) = wakeup (sloop (r j)) \<and>
        phase (r (Suc j)) = phase (r j)))"

section \<open>Steps within one phase\<close>

lemma run_reach: "is_run L r \<Longrightarrow> sched_reach L (r i)"
  by (induction i) (auto simp: is_run_def intro: sched_reach.intros)

lemma run_inv: "is_run L r \<Longrightarrow> sched_inv (r i)"
  by (rule sched_reach_inv [OF run_reach])

text \<open>The record of what was queued only grows.\<close>

lemma pushed_grows: "is_run L r \<Longrightarrow> i \<le> j \<Longrightarrow> \<exists>gs. pushed (r j) = pushed (r i) @ gs"
proof (induction j)
  case (Suc j)
  have "sched_step (r j) (r (Suc j))" using Suc.prems(1) by (simp add: is_run_def)
  then have "\<exists>gs. pushed (r (Suc j)) = pushed (r j) @ gs" by (cases rule: sched_step.cases) auto
  then show ?case using Suc by (cases "i = Suc j") auto
qed simp

text \<open>A step that keeps the phase runs no functor; one that changes it goes on in the cycle.\<close>

lemma step_same_phase: "sched_step s t \<Longrightarrow> phase t = phase s \<Longrightarrow> executed t = executed s"
  by (cases rule: sched_step.cases) auto

lemma step_next_phase:
  assumes "sched_step s t" "phase t \<noteq> phase s"
  shows "case phase s of
      Polling \<Rightarrow> phase t = Handling \<and> executed t = executed s
    | Handling \<Rightarrow> phase t = Running (pendingFunctors (sloop s)) \<and> executed t = executed s
    | Running [] \<Rightarrow> phase t = Polling \<and> executed t = executed s
    | Running (f # fs) \<Rightarrow> phase t = Running fs \<and> executed t = executed s @ [f]"
  using assms by (cases rule: sched_step.cases) (auto simp: swap_functors_def)

text \<open>The first change of the phase after \<open>i\<close>.\<close>

lemma first_change:
  assumes run: "is_run L r" and "j \<ge> i" "phase (r j) \<noteq> phase (r i)"
  shows "\<exists>k \<ge> i. phase (r k) = phase (r i) \<and> phase (r (Suc k)) \<noteq> phase (r k) \<and>
    executed (r k) = executed (r i)"
  using assms(2,3)
proof (induction "j - i" arbitrary: i)
  case (Suc n)
  have st: "sched_step (r i) (r (Suc i))" using run by (simp add: is_run_def)
  show ?case
  proof (cases "phase (r (Suc i)) = phase (r i)")
    case True
    have "n = j - Suc i" "Suc i \<le> j" using Suc.hyps(2) by simp_all
    then obtain k where "k \<ge> Suc i" "phase (r k) = phase (r i)" "phase (r (Suc k)) \<noteq> phase (r k)"
      "executed (r k) = executed (r (Suc i))"
      using Suc.hyps(1) [of "Suc i"] Suc.prems(2) True by auto
    then show ?thesis using step_same_phase [OF st True] by (intro exI [of _ k]) auto
  qed auto
qed simp

lemma next_phase:
  assumes run: "is_run L r" and "j \<ge> i" "phase (r j) \<noteq> phase (r i)"
  obtains k where "k \<ge> i" "sched_step (r k) (r (Suc k))" "phase (r k) = phase (r i)"
    "phase (r (Suc k)) \<noteq> phase (r k)" "executed (r k) = executed (r i)"
  using first_change [OF assms] run unfolding is_run_def by blast

section \<open>Progress\<close>

lemma running_finishes:
  assumes run: "is_run L r" and fair: "loop_fair r"
  shows "phase (r i) = Running fs \<Longrightarrow>
    \<exists>j \<ge> i. phase (r j) = Polling \<and> executed (r j) = executed (r i) @ fs"
proof (induction fs arbitrary: i)
  case Nil
  then obtain j where "j \<ge> i" "phase (r j) \<noteq> phase (r i)"
    using fair unfolding loop_fair_def by (metis phase.distinct(3))
  then obtain k where k: "k \<ge> i" "sched_step (r k) (r (Suc k))" "phase (r k) = phase (r i)"
    "phase (r (Suc k)) \<noteq> phase (r k)" "executed (r k) = executed (r i)" by (rule next_phase [OF run])
  from step_next_phase [OF k(2,4)] k Nil show ?case by (intro exI [of _ "Suc k"]) auto
next
  case (Cons f fs)
  then obtain j where "j \<ge> i" "phase (r j) \<noteq> phase (r i)"
    using fair unfolding loop_fair_def by (metis phase.distinct(3))
  then obtain k where k: "k \<ge> i" "sched_step (r k) (r (Suc k))" "phase (r k) = phase (r i)"
    "phase (r (Suc k)) \<noteq> phase (r k)" "executed (r k) = executed (r i)" by (rule next_phase [OF run])
  from step_next_phase [OF k(2,4)] k Cons.prems
  have k': "phase (r (Suc k)) = Running fs" "executed (r (Suc k)) = executed (r i) @ [f]" by auto
  from Cons.IH [OF k'(1)] obtain j where "j \<ge> Suc k" "phase (r j) = Polling"
    "executed (r j) = executed (r (Suc k)) @ fs" by blast
  then show ?case using k' k(1) by (intro exI [of _ j]) auto
qed

lemma handling_serves:
  assumes run: "is_run L r" and fair: "loop_fair r" and "phase (r i) = Handling"
  shows "\<exists>j \<ge> i. length (pushed (r i)) \<le> length (executed (r j))"
proof -
  obtain j where "j \<ge> i" "phase (r j) \<noteq> phase (r i)"
    using fair assms(3) unfolding loop_fair_def by (metis phase.distinct(1))
  then obtain k where k: "k \<ge> i" "sched_step (r k) (r (Suc k))" "phase (r k) = phase (r i)"
    "phase (r (Suc k)) \<noteq> phase (r k)" "executed (r k) = executed (r i)" by (rule next_phase [OF run])
  from step_next_phase [OF k(2,4)] assms(3) k(3)
  have k': "phase (r (Suc k)) = Running (pendingFunctors (sloop (r k)))" "executed (r (Suc k)) = executed (r k)"
    by auto
  from running_finishes [OF run fair k'(1)] obtain j where j: "j \<ge> Suc k"
    "executed (r j) = executed (r (Suc k)) @ pendingFunctors (sloop (r k))" by blast
  moreover have "executed (r k) @ pendingFunctors (sloop (r k)) = pushed (r k)"
    using run_inv [OF run, of k] k(3) assms(3) by (simp add: sched_inv_def)
  moreover obtain gs where "pushed (r k) = pushed (r i) @ gs" using pushed_grows [OF run k(1)] by blast
  ultimately show ?thesis using k(1) k'(2) by (intro exI [of _ j]) auto
qed

lemma polling_ends:
  assumes run: "is_run L r" and fair: "loop_fair r" "callers_fair r"
    and p: "phase (r i) = Polling" "pendingFunctors (sloop (r i)) \<noteq> []"
  shows "\<exists>j \<ge> i. phase (r j) = Handling"
proof -
  have leaves: "\<exists>j \<ge> k. phase (r j) \<noteq> Polling" if "0 < wakeupFd (sloop (r k))" for k
    using fair(1) that unfolding loop_fair_def by (metis less_irrefl order_refl)
  have "\<exists>j \<ge> i. phase (r j) \<noteq> Polling"
  proof (cases "0 < wakeupFd (sloop (r i))")
    case False
    then have "midway (r i) \<noteq> 0" using run_inv [OF run, of i] p by (simp add: sched_inv_def)
    then obtain j where "j \<ge> i" "sloop (r (Suc j)) = wakeup (sloop (r j))"
      using fair(2) [unfolded callers_fair_def, rule_format, of i] by auto
    then show ?thesis using leaves [of "Suc j"] by (auto intro: Suc_leD order_trans)
  qed (rule leaves)
  then obtain j where "j \<ge> i" "phase (r j) \<noteq> phase (r i)" using p(1) by auto
  then obtain k where "k \<ge> i" "sched_step (r k) (r (Suc k))" "phase (r k) = phase (r i)"
    "phase (r (Suc k)) \<noteq> phase (r k)" "executed (r k) = executed (r i)" by (rule next_phase [OF run])
  from step_next_phase [OF this(2,4)] this p(1) show ?thesis by (intro exI [of _ "Suc k"]) auto
qed

text \<open>Whatever the loop is doing, what was queued so far will have been run.\<close>

lemma polling_serves:
  assumes run: "is_run L r" and fair: "loop_fair r" "callers_fair r" and p: "phase (r i) = Polling"
  shows "\<exists>j \<ge> i. length (pushed (r i)) \<le> length (executed (r j))"
proof (cases "pendingFunctors (sloop (r i)) = []")
  case True
  then show ?thesis using run_inv [OF run, of i] p by (auto simp: sched_inv_def)
next
  case False
  from polling_ends [OF run fair p this] obtain k where k: "k \<ge> i" "phase (r k) = Handling" by blast
  from handling_serves [OF run fair(1) k(2)] obtain j where
    "j \<ge> k" "length (pushed (r k)) \<le> length (executed (r j))" by blast
  moreover obtain gs where "pushed (r k) = pushed (r i) @ gs" using pushed_grows [OF run k(1)] by blast
  ultimately show ?thesis using k(1) by (intro exI [of _ j]) auto
qed

lemma all_served:
  assumes run: "is_run L r" and fair: "loop_fair r" "callers_fair r"
  shows "\<exists>j \<ge> i. length (pushed (r i)) \<le> length (executed (r j))"
proof (cases "phase (r i)")
  case (Running fs)
  from running_finishes [OF run fair(1) this] obtain k where k: "k \<ge> i" "phase (r k) = Polling" by blast
  from polling_serves [OF run fair k(2)] obtain j where
    "j \<ge> k" "length (pushed (r k)) \<le> length (executed (r j))" by blast
  moreover obtain gs where "pushed (r k) = pushed (r i) @ gs" using pushed_grows [OF run k(1)] by blast
  ultimately show ?thesis using k(1) by (intro exI [of _ j]) auto
qed (use polling_serves [OF run fair] handling_serves [OF run fair(1)] in blast)+

section \<open>Properties\<close>


text \<open>A run of a loop whose handlers queue one functor in each iteration.\<close>

definition demo_run :: "nat \<Rightarrow> ((int \<Rightarrow> (nat \<times> 32 word) option), nat) sched" where
  "demo_run i = (let x = replicate (i div 5) 5; y = replicate (Suc (i div 5)) 5;
      S = (sched_init demo_loop)\<lparr>pushed := y, executed := x\<rparr>; L = sloop S in
     if i mod 5 = 0 then S\<lparr>pushed := x\<rparr>
     else if i mod 5 = 1 then S\<lparr>phase := Handling, pushed := x\<rparr>
     else if i mod 5 = 2 then S\<lparr>sloop := queueInLoop 1 5 L, phase := Handling\<rparr>
     else if i mod 5 = 3 then S\<lparr>sloop := L\<lparr>callingPendingFunctors := True\<rparr>, phase := Running [5]\<rparr>
     else S\<lparr>sloop := L\<lparr>callingPendingFunctors := True\<rparr>, phase := Running [], executed := y\<rparr>)"

lemma demo_phase: "i mod 5 \<in> {0 :: nat, 1, 2, 3, 4}"
  using mod_less_divisor [of 5 i] by (simp only: insert_iff empty_iff) linarith

lemma demo_run_step: "sched_step (demo_run i) (demo_run (Suc i))"
proof -
  have own: "queueInLoop 1 5 demo_loop = demo_loop\<lparr>pendingFunctors := [5]\<rparr>"
    by (simp add: demo_loop_def queueInLoop_def queue_push_def isInLoopThread_def)
  have L: "demo_loop\<lparr>pendingFunctors := [], callingPendingFunctors := False\<rparr> = demo_loop" "threadId demo_loop = 1"
    by (simp_all add: demo_loop_def)
  have nc: "demo_loop\<lparr>callingPendingFunctors := False\<rparr> = demo_loop" by (simp add: demo_loop_def)
  have sw: "demo_loop\<lparr>callingPendingFunctors := b, pendingFunctors := []\<rparr> =
      demo_loop\<lparr>callingPendingFunctors := b\<rparr>" for b by (simp add: demo_loop_def)
  note simps = demo_run_def Let_def sched_init_def div_Suc mod_Suc L own
  show ?thesis using demo_phase [of i]
  proof (elim insertE emptyE)
    assume "i mod 5 = 0"
    then show ?thesis using sched_step.poll_other [of "demo_run i"] by (simp add: simps)
  next
    assume "i mod 5 = 1"
    then show ?thesis using sched_step.own_queue [of "demo_run i" 5]
      by (simp add: simps replicate_append_same)
  next
    assume "i mod 5 = 2"
    then show ?thesis using sched_step.swap [of "demo_run i" "[5]" "demo_loop\<lparr>callingPendingFunctors := True\<rparr>"]
      by (simp add: simps swap_functors_def sw)
  next
    assume "i mod 5 = 3"
    then show ?thesis using sched_step.run [of "demo_run i" 5 "[]"]
      by (simp add: simps replicate_append_same)
  next
    assume "i mod 5 = 4"
    then show ?thesis using sched_step.finish [of "demo_run i"] by (simp add: simps nc)
  qed
qed

lemma demo_is_run: "is_run demo_loop demo_run"
  using demo_run_step by (simp add: is_run_def) (simp add: demo_run_def sched_init_def Let_def)

lemma demo_loop_fair: "loop_fair demo_run"
  unfolding loop_fair_def
proof
  fix i
  have "phase (demo_run (Suc i)) \<noteq> phase (demo_run i) \<or> phase (demo_run (Suc (Suc i))) \<noteq> phase (demo_run i)"
    using demo_phase [of i] by (elim insertE emptyE) (simp_all add: demo_run_def Let_def sched_init_def mod_Suc)
  then show "phase (demo_run i) = Polling \<and> wakeupFd (sloop (demo_run i)) = 0 \<or>
      (\<exists>j \<ge> i. phase (demo_run j) \<noteq> phase (demo_run i))"
    by (meson le_SucI order_refl)
qed

lemma demo_callers_fair: "callers_fair demo_run"
  by (simp add: callers_fair_def demo_run_def Let_def sched_init_def)


end
