(* ===== verification/Net_LoopLife.thy ===== *)
theory Net_LoopLife
  imports Net_Timer
begin

text \<open>
  The life of an event loop with its timer queue (\<open>net/event_loop.h\<close>, \<open>net/event_loop.cpp\<close>,
  \<open>net/timer_queue.cpp\<close>): the whole destruction of an \<open>EventLoop\<close>, the body of the destructor and
  the data members after it, and what is left of a loop from its construction to its end.
\<close>

section \<open>Destruction\<close>

text \<open>
  The data members go in the reverse order of their declaration: the queue of functors, whose
  functors are dropped, the wakeup channel (address 1), the timer queue, the poller.
\<close>

definition EventLoop_destroy ::
    "bool \<Rightarrow> 'k epoll_ctl \<Rightarrow> int \<Rightarrow> ('k, 'g) evloop \<times> 'f timer_queue \<Rightarrow>
     (('k, 'g) evloop \<times> 'f timer_queue \<times> nat option) res" where
  "EventLoop_destroy dbg ctl me LQ = (case LQ of (L, Q) \<Rightarrow>
     andThen (EventLoop_dtor dbg ctl me L) (\<lambda>(L1, t_loopInThisThread).
     andThen (Channel_dtor dbg me 1 (L1\<lparr>pendingFunctors := []\<rparr>)) (\<lambda>L2.
     andThen (TimerQueue_dtor dbg ctl me (L2, Q)) (\<lambda>(L3, Q').
     Inr (L3, Q', t_loopInThisThread)))))"

section \<open>From construction to destruction\<close>

text \<open>The loop a Release build constructs: both channels are known to have been added and deleted.\<close>

definition new_loop :: "nat \<Rightarrow> int \<Rightarrow> int \<Rightarrow> int \<Rightarrow> (int \<Rightarrow> (nat \<times> 32 word) option, 'f) evloop" where
  "new_loop n me tfd efd =
     \<lparr>looping = False, quit_flag = False, loop_eventHandling = False, callingPendingFunctors = False,
      iteration = 0, threadId = me, loop_poller = empty_poller n (\<lambda>_. None),
      chans = (\<lambda>_. None)
       (0 := Some (set_reading ((Channel_ctor tfd)\<lparr>readCallback := True, addToLoop := True, ch_index := KDeleted\<rparr>)),
        1 := Some (set_reading ((Channel_ctor efd)\<lparr>readCallback := True, addToLoop := True, ch_index := KDeleted\<rparr>))),
      wakeupFd = 0, activeChannels = [], currentActiveChannel = None, pendingFunctors = [],
      pollReturnTime = 0, loop_context = None\<rparr>"

lemmas loop_life_defs = enableReading_def disAbleAll_def Channel_update_def Channel_remove_def
  EventLoop_updateChannel_def EventLoop_removeChannel_def EPollPoller_updateChannel_def
  EPollPoller_removeChannel_def EPollPoller_update_def empty_poller_def Channel_ctor_def
  set_reading_def clear_all_def isNoneEvent_def KNoneEvent_def assertInLoopThread_def
  isInLoopThread_def modify_channel_def cassert_def KNew_def KAdded_def KDeleted_def

lemma constructed_loop:
  assumes "0 \<le> epfd" "0 \<le> tfd" "0 \<le> efd"
  shows "EventLoop_ctor False epoll_set n epfd (\<lambda>_. None) me this None tfd efd =
    Inr (new_loop n me tfd efd, Some this)"
  using assms
  by (simp add: EventLoop_ctor_def EPollPoller_ctor_def createTimerfd_def createEventfd_def new_loop_def
    loop_life_defs epoll_set_simps Let_def fun_upd_twist)

text \<open>Taking such a channel off the loop: it is added to the kernel's list once more and deleted.\<close>

lemma take_off:
  assumes "chans L cid = Some ch" "ch_index ch = KDeleted" "threadId L = me"
    and "kern (loop_poller L) (ch_fd ch) = None" "channels (loop_poller L) (ch_fd ch) = None"
  obtains ch' where "andThen (disAbleAll False epoll_set me cid L) (Channel_remove False epoll_set me cid) =
      Inr (L\<lparr>chans := (chans L)(cid := Some ch')\<rparr>)"
proof -
  have "\<exists>ch'. andThen (disAbleAll False epoll_set me cid L) (Channel_remove False epoll_set me cid) =
      Inr (L\<lparr>chans := (chans L)(cid := Some ch')\<rparr>)"
    using assms by (simp add: loop_life_defs epoll_set_simps Let_def fun_upd_idem) (rule exI, rule refl)
  then show thesis using that by blast
qed

lemma destroyed_channel:
  "chans L cid = Some ch \<Longrightarrow> threadId L = me \<Longrightarrow>
    Channel_dtor False me cid L = Inr (L\<lparr>chans := (chans L)(cid := None)\<rparr>)"
  by (simp add: Channel_dtor_def EventLoop_hasChannel_def assertInLoopThread_def isInLoopThread_def cassert_def)

lemma destroyed_queue:
  assumes "schedules A Q" and "chans L 0 = Some ch" "ch_index ch = KDeleted" "threadId L = me"
    and "kern (loop_poller L) (ch_fd ch) = None" "channels (loop_poller L) (ch_fd ch) = None"
  shows "\<exists>Q'. TimerQueue_dtor False epoll_set me (L, Q) = Inr (L\<lparr>chans := (chans L)(0 := None)\<rparr>, Q') \<and>
    theap Q' = theap Q |` (- A)"
proof -
  obtain ch' where off: "andThen (disAbleAll False epoll_set me 0 L) (Channel_remove False epoll_set me 0) =
      Inr (L\<lparr>chans := (chans L)(0 := Some ch')\<rparr>)"
    using assms(2-6) by (rule take_off)
  let ?L = "L\<lparr>chans := (chans L)(0 := Some ch')\<rparr>"
  obtain Q' where free: "foldRes (\<lambda>timer. delete_timer (snd timer)) (timer_set Q) Q = Inr Q'"
    using delete_scheduled [OF scheduled_once(1,2) [OF assms(1)]] by blast
  have "Channel_dtor False me 0 ?L = Inr (L\<lparr>chans := (chans L)(0 := None)\<rparr>)"
    using destroyed_channel [of ?L 0 ch' me] assms(4) by simp
  then have "TimerQueue_dtor False epoll_set me (L, Q) = Inr (L\<lparr>chans := (chans L)(0 := None)\<rparr>, Q')"
    using off free by (auto simp: TimerQueue_dtor_def res_simps)
  then show ?thesis using TimerQueue_dtor_frees [OF assms(1)] by blast
qed

text \<open>C26: The life of a loop in a Release build: the constructor answers a loop, and its
  destruction, whatever was queued and scheduled by then, returns, takes both channels out of the
  kernel's list and out of the store and leaves the thread free for another loop. Functors that are
  still queued are dropped; of the timers exactly those that are scheduled are freed, so a timer that
  has expired is never freed. A Debug build does not get past the constructor.\<close>

theorem loop_life:
  fixes fs :: "'g list"
  assumes "0 \<le> epfd" "0 \<le> tfd" "0 \<le> efd" and "schedules A Q"
  shows "\<exists>L. EventLoop_ctor False epoll_set n epfd (\<lambda>_. None) me this None tfd efd = Inr (L, Some this) \<and>
    (\<exists>L' Q'. EventLoop_destroy False epoll_set me (L\<lparr>pendingFunctors := fs\<rparr>, Q) = Inr (L', Q', None) \<and>
      (\<forall>cid. chans L' cid = None) \<and> (\<forall>fd. kern (loop_poller L') fd = None) \<and>
      pendingFunctors L' = [] \<and> theap Q' = theap Q |` (- A)) \<and>
    EventLoop_ctor True epoll_set n epfd (\<lambda>_. None) me this None tfd efd =
      (Inl AssertFail :: ((int \<Rightarrow> (nat \<times> 32 word) option, 'g) evloop \<times> nat option) res)"
proof -
  let ?L = "(new_loop n me tfd efd)\<lparr>pendingFunctors := fs\<rparr>"
  have p: "chans ?L 1 \<noteq> None" "threadId ?L = me" "kern (loop_poller ?L) fd = None"
    "channels (loop_poller ?L) fd = None" for fd by (simp_all add: new_loop_def empty_poller_def)
  obtain ch where ch: "chans ?L 1 = Some ch" "ch_index ch = KDeleted"
    by (simp add: new_loop_def set_reading_def)
  obtain ch' where off: "andThen (disAbleAll False epoll_set me 1 ?L) (Channel_remove False epoll_set me 1) =
      Inr (?L\<lparr>chans := (chans ?L)(1 := Some ch')\<rparr>)"
    using ch p(2-4) by (rule take_off)
  let ?L1 = "?L\<lparr>chans := (chans ?L)(1 := Some ch')\<rparr>"
  let ?L2 = "?L1\<lparr>pendingFunctors := [], chans := (chans ?L)(1 := None)\<rparr>"
  have dtor: "EventLoop_dtor False epoll_set me ?L = Inr (?L1, None)"
    using off by (auto simp: EventLoop_dtor_def res_simps)
  have ch1: "Channel_dtor False me 1 (?L1\<lparr>pendingFunctors := []\<rparr>) = Inr ?L2"
    using destroyed_channel [of "?L1\<lparr>pendingFunctors := []\<rparr>" 1 ch' me] p(2) by simp
  obtain ch0 where ch0: "chans ?L2 0 = Some ch0" "ch_index ch0 = KDeleted"
    by (simp add: new_loop_def set_reading_def)
  obtain Q' where Q': "TimerQueue_dtor False epoll_set me (?L2, Q) =
      Inr (?L2\<lparr>chans := (chans ?L2)(0 := None)\<rparr>, Q')" "theap Q' = theap Q |` (- A)"
    using destroyed_queue [OF assms(4) ch0, of me] by (auto simp: new_loop_def empty_poller_def)
  have "EventLoop_destroy False epoll_set me (?L, Q) = Inr (?L2\<lparr>chans := (chans ?L2)(0 := None)\<rparr>, Q', None)"
    using dtor ch1 Q'(1) by (simp add: EventLoop_destroy_def)
  then have "\<exists>L' Q'. EventLoop_destroy False epoll_set me (?L, Q) = Inr (L', Q', None) \<and>
      (\<forall>cid. chans L' cid = None) \<and> (\<forall>fd. kern (loop_poller L') fd = None) \<and>
      pendingFunctors L' = [] \<and> theap Q' = theap Q |` (- A)"
    using Q'(2) by (intro exI conjI) (assumption | simp add: new_loop_def empty_poller_def)+
  moreover have "EventLoop_ctor True epoll_set n epfd (\<lambda>_. None) me this None tfd efd =
      (Inl AssertFail :: ((int \<Rightarrow> (nat \<times> 32 word) option, 'g) evloop \<times> nat option) res)"
    by (rule loop_constructor [OF assms(1-3), THEN conjunct1])
  ultimately show ?thesis using constructed_loop [OF assms(1-3), of n me this] by blast
qed

text \<open>A loop with a functor that is still queued and two timers.\<close>

theorem loop_life_witness:
  "\<exists>L L' Q'. EventLoop_ctor False epoll_set 16 3 (\<lambda>_. None) 1 5 None 4 6 = Inr (L, Some 5) \<and>
    EventLoop_destroy False epoll_set 1 (L\<lparr>pendingFunctors := [7 :: nat]\<rparr>, demo_queue) = Inr (L', Q', None) \<and>
    pendingFunctors L' = [] \<and> theap Q' 8 = None"
proof -
  have p: "(0 :: int) \<le> 3" "(0 :: int) \<le> 4" "(0 :: int) \<le> 6" by simp_all
  from loop_life [OF p demo_schedules, of 16 1 5 "[7]"] obtain L L' Q' where
    "EventLoop_ctor False epoll_set 16 3 (\<lambda>_. None) 1 5 None 4 6 = Inr (L, Some 5)"
    "EventLoop_destroy False epoll_set 1 (L\<lparr>pendingFunctors := [7 :: nat]\<rparr>, demo_queue) = Inr (L', Q', None)"
    "pendingFunctors L' = []" "theap Q' = theap demo_queue |` (- {8, 16})" by blast
  then show ?thesis by (intro exI conjI) (assumption | simp)+
qed

end
