(* ===== verification/Net_SocketOps.thy ===== *)
theory Net_SocketOps
  imports Net_Endian Base_StringPiece Cpp_Format
begin

text \<open>
  Socket calls and addresses (\<open>net/socketops.cpp\<close>, \<open>net/inetaddress.h\<close>,
  \<open>net/inetaddress.cpp\<close>, \<open>net/sockets.h\<close>, \<open>net/sockets.cpp\<close>).

  A socket address is its 28 bytes, read through the offsets of \<open>sockaddr_in\<close> and
  \<open>sockaddr_in6\<close>, because the code reads one object through both types; so is the union inside
  \<open>InetAddress\<close>. The result of a system call is an argument; \<open>inet_ntop\<close> and
  \<open>inet_pton\<close> are arguments \<open>ntop\<close> and \<open>pton\<close>. A log record of level error is the
  message it carries; \<open>LOG_SYSFATAL\<close> and \<open>LOG_FATAL\<close> end the program.
\<close>

section \<open>Socket addresses\<close>

type_synonym sockaddr = "byte list"

definition AF_INET :: "16 word" where "AF_INET = 2"

definition AF_INET6 :: "16 word" where "AF_INET6 = 10"

definition field :: "nat \<Rightarrow> nat \<Rightarrow> sockaddr \<Rightarrow> byte list" where
  "field off n a = take n (drop off a)"

definition set_field :: "nat \<Rightarrow> byte list \<Rightarrow> sockaddr \<Rightarrow> sockaddr" where
  "set_field off d a = take off a @ d @ drop (off + length d) a"

definition sa_family :: "sockaddr \<Rightarrow> 16 word" where
  "sa_family a = le_word (field 0 2 a)"

text \<open>\<open>sin_port\<close> and \<open>sin6_port\<close> lie at the same offset.\<close>

definition sin_port :: "sockaddr \<Rightarrow> 16 word" where
  "sin_port a = le_word (field 2 2 a)"

definition sin_addr :: "sockaddr \<Rightarrow> byte list" where
  "sin_addr a = field 4 4 a"

definition sin6_addr :: "sockaddr \<Rightarrow> byte list" where
  "sin6_addr a = field 8 16 a"

lemma length_set_field [simp]:
  "off + length d \<le> length a \<Longrightarrow> length (set_field off d a) = length a"
  by (simp add: set_field_def)

lemma field_set_field [simp]:
  "off + length d \<le> length a \<Longrightarrow> n = length d \<Longrightarrow> field off n (set_field off d a) = d"
  by (simp add: field_def set_field_def)

lemma field_set_field_before [simp]:
  "o2 + n \<le> off \<Longrightarrow> off + length d \<le> length a \<Longrightarrow> field o2 n (set_field off d a) = field o2 n a"
proof -
  assume "o2 + n \<le> off" "off + length d \<le> length a"
  then have "drop o2 (take off a @ r) = drop o2 (take off a) @ r" "n \<le> length (drop o2 (take off a))" for r
    by simp_all
  then have "field o2 n (set_field off d a) = take n (drop o2 (take off a))"
    by (simp add: field_def set_field_def)
  also have "\<dots> = field o2 n a" using \<open>o2 + n \<le> off\<close> by (simp add: field_def drop_take)
  finally show ?thesis .
qed

lemma field_set_field_behind [simp]:
  "off + length d \<le> o2 \<Longrightarrow> off + length d \<le> length a \<Longrightarrow>
    field o2 n (set_field off d a) = field o2 n a"
  by (simp add: field_def set_field_def drop_drop add.commute)

section \<open>Wrappers of the system calls\<close>

definition createNonblockingOrDie :: "int \<Rightarrow> int res" where
  "createNonblockingOrDie sockfd = (if sockfd < 0 then Inl LogFatal else Inr sockfd)"

definition bindOrDie :: "(int \<Rightarrow> sockaddr \<Rightarrow> nat \<Rightarrow> int) \<Rightarrow> int \<Rightarrow> sockaddr \<Rightarrow> unit res" where
  "bindOrDie bind sockfd addr = (if bind sockfd addr 28 < 0 then Inl LogFatal else Inr ())"

definition SOMAXCONN :: int where "SOMAXCONN = 4096"

definition listenOrDie :: "(int \<Rightarrow> int \<Rightarrow> int) \<Rightarrow> int \<Rightarrow> unit res" where
  "listenOrDie listen sockfd = (if listen sockfd SOMAXCONN < 0 then Inl LogFatal else Inr ())"

definition sockets_connect :: "(int \<Rightarrow> sockaddr \<Rightarrow> nat \<Rightarrow> 'r) \<Rightarrow> int \<Rightarrow> sockaddr \<Rightarrow> 'r" where
  "sockets_connect conn sockfd addr = conn sockfd addr 28"

definition sockets_close :: "int \<Rightarrow> string list" where
  "sockets_close ret = (if ret < 0 then [''sockets::close''] else [])"

definition shutdownWrite :: "int \<Rightarrow> string list" where
  "shutdownWrite ret = (if ret < 0 then [''sockets::shutdownWrite''] else [])"

text \<open>The classification of the errors of \<open>accept4\<close>, by their numbers on Linux.\<close>

definition EAGAIN :: int where "EAGAIN = 11"
definition ECONNABORTED :: int where "ECONNABORTED = 103"
definition EINTR :: int where "EINTR = 4"
definition EPROTO :: int where "EPROTO = 71"
definition EPERM :: int where "EPERM = 1"
definition EMFILE :: int where "EMFILE = 24"

lemmas errno_defs = EAGAIN_def ECONNABORTED_def EINTR_def EPROTO_def EPERM_def EMFILE_def

record accepted =
  acc_fd :: int
  acc_addr :: sockaddr
  acc_errno :: int

definition sockets_accept :: "accepted \<Rightarrow> accepted res" where
  "sockets_accept r =
     (if acc_fd r < 0
      then if acc_errno r \<in> {EAGAIN, ECONNABORTED, EINTR, EPROTO, EPERM, EMFILE}
           then Inr r else Inl LogFatal
      else Inr r)"

definition getSocketError :: "int \<Rightarrow> int \<Rightarrow> int \<Rightarrow> int" where
  "getSocketError ret optval err = (if ret < 0 then err else optval)"

text \<open>\<open>getsockname\<close> and \<open>getpeername\<close>: \<open>None\<close> is a failing call, which leaves the zeros.\<close>

definition getLocalAddr :: "sockaddr option \<Rightarrow> sockaddr" where
  "getLocalAddr r = (case r of None \<Rightarrow> replicate 28 0 | Some a \<Rightarrow> a)"

definition getPeerAddr :: "sockaddr option \<Rightarrow> sockaddr" where
  "getPeerAddr r = (case r of None \<Rightarrow> replicate 28 0 | Some a \<Rightarrow> a)"

definition isSelfConnect :: "sockaddr option \<Rightarrow> sockaddr option \<Rightarrow> bool" where
  "isSelfConnect lr pr =
     (let l = getLocalAddr lr; p = getPeerAddr pr in
      if sa_family l = AF_INET then sin_port l = sin_port p \<and> sin_addr l = sin_addr p
      else if sa_family l = AF_INET6 then sin_port l = sin_port p \<and> sin6_addr l = sin6_addr p
      else False)"

section \<open>Text of an address\<close>

definition INET_ADDRSTRLEN :: nat where "INET_ADDRSTRLEN = 16"

definition INET6_ADDRSTRLEN :: nat where "INET6_ADDRSTRLEN = 46"

text \<open>\<open>inet_ntop\<close> into \<open>cap\<close> bytes from \<open>off\<close> on: a text that does not fit is not stored.\<close>

definition store_ntop ::
    "(16 word \<Rightarrow> byte list \<Rightarrow> string) \<Rightarrow> 16 word \<Rightarrow> byte list \<Rightarrow> string \<Rightarrow> nat \<Rightarrow> nat \<Rightarrow> string res" where
  "store_ntop ntop af a mem off cap =
     (if length (ntop af a) < cap then write_at mem off (ntop af a @ [CHR 0x00]) else Inr mem)"

definition snprintf_at :: "string \<Rightarrow> nat \<Rightarrow> nat \<Rightarrow> string \<Rightarrow> string res" where
  "snprintf_at mem off cap t =
     (if cap = 0 then Inr mem else write_at mem off (take (cap - 1) t @ [CHR 0x00]))"

definition toIp ::
    "bool \<Rightarrow> (16 word \<Rightarrow> byte list \<Rightarrow> string) \<Rightarrow> string \<Rightarrow> nat \<Rightarrow> nat \<Rightarrow> sockaddr \<Rightarrow> string res" where
  "toIp dbg ntop mem off cap a =
     (if sa_family a = AF_INET
      then cassert dbg (cap \<ge> INET_ADDRSTRLEN) (store_ntop ntop AF_INET (sin_addr a) mem off cap)
      else if sa_family a = AF_INET6
      then cassert dbg (cap \<ge> INET6_ADDRSTRLEN)
             (store_ntop ntop AF_INET6 (sin6_addr a) mem off cap)
      else Inr mem)"

definition port_text :: "sockaddr \<Rightarrow> string" where
  "port_text a = dec_nat (unat (networkToHost16 (sin_port a)))"

definition toIpPort ::
    "bool \<Rightarrow> (16 word \<Rightarrow> byte list \<Rightarrow> string) \<Rightarrow> string \<Rightarrow> nat \<Rightarrow> sockaddr \<Rightarrow> string res" where
  "toIpPort dbg ntop mem cap a =
     (if sa_family a = AF_INET6
      then andThen (write_at mem 0 ''['') (\<lambda>mem.
           andThen (toIp dbg ntop mem 1 (sz_sub cap 1) a) (\<lambda>mem.
           andThen (strlen (Ptr mem 0)) (\<lambda>end'.
           cassert dbg (cap > end')
             (snprintf_at mem end' (sz_sub cap end') ('']:'' @ port_text a)))))
      else andThen (toIp dbg ntop mem 0 cap a) (\<lambda>mem.
           andThen (strlen (Ptr mem 0)) (\<lambda>end'.
           cassert dbg (cap > end')
             (snprintf_at mem end' (sz_sub cap end') ('':'' @ port_text a)))))"

text \<open>The string made from a character array: the bytes up to the first NUL.\<close>

definition string_of_array :: "string \<Rightarrow> string res" where
  "string_of_array mem = andThen (strlen (Ptr mem 0)) (ptr_read (Ptr mem 0))"

definition fromIpPort4 ::
    "(16 word \<Rightarrow> string \<Rightarrow> byte list option) \<Rightarrow> string \<Rightarrow> 16 word \<Rightarrow> sockaddr \<Rightarrow> sockaddr" where
  "fromIpPort4 pton ip port a =
     (let a = set_field 2 (le_bytes 2 (hostToNetwork16 port)) (set_field 0 (le_bytes 2 AF_INET) a) in
      case pton AF_INET ip of None \<Rightarrow> a | Some d \<Rightarrow> set_field 4 d a)"

definition fromIpPort6 ::
    "(16 word \<Rightarrow> string \<Rightarrow> byte list option) \<Rightarrow> string \<Rightarrow> 16 word \<Rightarrow> sockaddr \<Rightarrow> sockaddr" where
  "fromIpPort6 pton ip port a =
     (let a = set_field 2 (le_bytes 2 (hostToNetwork16 port)) (set_field 0 (le_bytes 2 AF_INET6) a) in
      case pton AF_INET6 ip of None \<Rightarrow> a | Some d \<Rightarrow> set_field 8 d a)"

section \<open>InetAddress\<close>

definition kInaddrAny :: "32 word" where "kInaddrAny = 0"

definition kInaddrLoopback :: "32 word" where "kInaddrLoopback = 0x7f000001"

definition in6addr_any :: "byte list" where "in6addr_any = replicate 16 0"

definition in6addr_loopback :: "byte list" where "in6addr_loopback = replicate 15 0 @ [1]"

text \<open>\<open>mem_zero(&addr_, sizeof(addr_))\<close> clears 16 bytes, \<open>mem_zero(&addr6_, ...)\<close> all 28.\<close>

definition InetAddress_port :: "16 word \<Rightarrow> bool \<Rightarrow> bool \<Rightarrow> sockaddr \<Rightarrow> sockaddr" where
  "InetAddress_port port loopbackOnly ipv6 junk =
     (if ipv6
      then set_field 2 (le_bytes 2 (hostToNetwork16 port))
             (set_field 8 (if loopbackOnly then in6addr_loopback else in6addr_any)
               (set_field 0 (le_bytes 2 AF_INET6) (set_field 0 (replicate 28 0) junk)))
      else set_field 4 (le_bytes 4 (hostToNetwork32
                         (if loopbackOnly then kInaddrLoopback else kInaddrAny)))
             (set_field 2 (le_bytes 2 (hostToNetwork16 port))
               (set_field 0 (le_bytes 2 AF_INET) (set_field 0 (replicate 16 0) junk))))"

definition InetAddress_ip ::
    "(16 word \<Rightarrow> string \<Rightarrow> byte list option) \<Rightarrow> string \<Rightarrow> 16 word \<Rightarrow> bool \<Rightarrow> sockaddr \<Rightarrow> sockaddr" where
  "InetAddress_ip pton ip port ipv6 junk =
     (if ipv6 \<or> CHR '':'' \<in> set ip
      then fromIpPort6 pton ip port (set_field 0 (replicate 28 0) junk)
      else fromIpPort4 pton ip port (set_field 0 (replicate 16 0) junk))"

definition InetAddress_toIpPort ::
    "bool \<Rightarrow> (16 word \<Rightarrow> byte list \<Rightarrow> string) \<Rightarrow> sockaddr \<Rightarrow> string res" where
  "InetAddress_toIpPort dbg ntop a =
     andThen (toIpPort dbg ntop (replicate 64 (CHR 0x00)) 64 a) string_of_array"

definition setSockAddrInet6 :: "sockaddr \<Rightarrow> sockaddr \<Rightarrow> sockaddr" where
  "setSockAddrInet6 addr6 a = addr6"

definition ipv4NetEndian :: "bool \<Rightarrow> sockaddr \<Rightarrow> byte list res" where
  "ipv4NetEndian dbg a = cassert dbg (sa_family a = AF_INET) (Inr (sin_addr a))"

text \<open>The host entry \<open>gethostbyname_r\<close> found: its family and address.\<close>

definition resolve ::
    "bool \<Rightarrow> int \<Rightarrow> (16 word \<times> byte list) option \<Rightarrow> sockaddr \<Rightarrow> (bool \<times> sockaddr) res" where
  "resolve dbg ret he out =
     (case he of
        Some (t, d) \<Rightarrow>
          if ret = 0
          then cassert dbg (t = AF_INET \<and> length d = 4) (Inr (True, set_field 4 (take 4 d) out))
          else Inr (False, out)
      | None \<Rightarrow> Inr (False, out))"

definition setScopeId :: "32 word \<Rightarrow> sockaddr \<Rightarrow> sockaddr" where
  "setScopeId scope_id a =
     (if sa_family a = AF_INET6 then set_field 24 (le_bytes 4 scope_id) a else a)"


section \<open>Text of constructed addresses\<close>

text \<open>A character array holds a C string when the string and its NUL are a prefix of it.\<close>

definition holds_cstr :: "string \<Rightarrow> string \<Rightarrow> bool" where
  "holds_cstr mem s \<longleftrightarrow> CHR 0x00 \<notin> set s \<and> (\<exists>rest. mem = s @ CHR 0x00 # rest)"

lemma strlen_holds: "holds_cstr mem s \<Longrightarrow> strlen (Ptr mem 0) = Inr (length s)"
proof -
  assume "holds_cstr mem s"
  then obtain rest where m: "mem = s @ CHR 0x00 # rest" and "CHR 0x00 \<notin> set s"
    by (auto simp: holds_cstr_def)
  then have "takeWhile (\<lambda>c. c \<noteq> CHR 0x00) mem = s" by (auto simp: takeWhile_append)
  then show ?thesis by (simp add: Let_def) (simp add: m)
qed

lemma string_of_array_holds: "holds_cstr mem s \<Longrightarrow> string_of_array mem = Inr s"
  by (auto simp: string_of_array_def strlen_holds holds_cstr_def read_at_def simp del: strlen.simps)

lemma write_behind:
  assumes "mem = pre @ old" "length t < length old" "CHR 0x00 \<notin> set (pre @ t)"
  shows "\<exists>mem'. write_at mem (length pre) (t @ [CHR 0x00]) = Inr mem' \<and>
    holds_cstr mem' (pre @ t) \<and> length mem' = length mem"
  using assms by (auto simp: write_at_def holds_cstr_def)

lemma snprintf_at_holds:
  assumes "holds_cstr mem s" "length s + length t < length mem" "CHR 0x00 \<notin> set t"
  shows "\<exists>mem'. snprintf_at mem (length s) (length mem - length s) t = Inr mem' \<and>
    holds_cstr mem' (s @ t)"
proof -
  obtain rest where m: "mem = s @ CHR 0x00 # rest" and s: "CHR 0x00 \<notin> set s"
    using assms(1) by (auto simp: holds_cstr_def)
  have "take (length mem - length s - 1) t = t" using assms(2) by simp
  then show ?thesis
    using write_behind [OF m, of t] assms(2,3) s m by (auto simp: snprintf_at_def)
qed

lemma dec_nat_no_nul: "CHR 0x00 \<notin> set (dec_nat n)"
  by (auto simp: is_digit_def dest: dec_nat_digits)

lemma length_port_text: "length (port_text a) \<le> 5"
proof -
  have "unat (networkToHost16 (sin_port a)) < 10 ^ 5"
    by (rule order_less_le_trans [OF unsigned_less]) simp
  then show ?thesis unfolding port_text_def by (intro length_dec_nat) simp_all
qed

lemma le_bytes_family: "le_word (le_bytes 2 AF_INET) = AF_INET" "le_word (le_bytes 2 AF_INET6) = AF_INET6"
  by (simp_all add: le_word_le_bytes)

lemma port_of_network: "networkToHost16 (le_word (le_bytes 2 (hostToNetwork16 p))) = p"
  by (simp add: networkToHost16_def hostToNetwork16_def le_word_le_bytes bswap_bswap)

lemma families_differ: "AF_INET \<noteq> AF_INET6"
  by (simp add: AF_INET_def AF_INET6_def)

text \<open>What the constructor leaves in the fields the printing code reads.\<close>

lemma InetAddress_ip_fields4:
  assumes "\<not> ipv6" "CHR '':'' \<notin> set ip" "length junk = 28"
    and "pton AF_INET ip = Some d" "length d = 4"
    and a_def: "a = InetAddress_ip pton ip port ipv6 junk"
  shows "sa_family a = AF_INET" "sin_addr a = d" "networkToHost16 (sin_port a) = port"
  using assms(1-5) by (simp_all add: a_def InetAddress_ip_def fromIpPort4_def Let_def sa_family_def
    sin_addr_def sin_port_def le_bytes_family port_of_network)

lemma InetAddress_ip_fields6:
  assumes "ipv6 \<or> CHR '':'' \<in> set ip" "length junk = 28"
    and "pton AF_INET6 ip = Some d" "length d = 16"
    and a_def: "a = InetAddress_ip pton ip port ipv6 junk"
  shows "sa_family a = AF_INET6" "sin6_addr a = d" "networkToHost16 (sin_port a) = port"
  using assms(1-4) by (simp_all add: a_def InetAddress_ip_def fromIpPort6_def Let_def sa_family_def
    sin6_addr_def sin_port_def le_bytes_family port_of_network)

lemma toIpPort4:
  assumes "sa_family a = AF_INET" "ntop AF_INET (sin_addr a) = ip" "length ip < 16"
    and "CHR 0x00 \<notin> set ip"
  shows "InetAddress_toIpPort dbg ntop a = Inr (ip @ '':'' @ port_text a)"
proof -
  define mem where "mem = replicate 64 (CHR 0x00)"
  obtain m1 where m1: "write_at mem 0 (ip @ [CHR 0x00]) = Inr m1" "holds_cstr m1 ip" "length m1 = 64"
    using write_behind [of mem "[]" mem ip] assms(3,4) by (auto simp: mem_def)
  have t: "CHR 0x00 \<notin> set ('':'' @ port_text a)" by (simp add: port_text_def dec_nat_no_nul)
  obtain m2 where m2: "snprintf_at m1 (length ip) (64 - length ip) ('':'' @ port_text a) = Inr m2"
    "holds_cstr m2 (ip @ '':'' @ port_text a)"
    using snprintf_at_holds [OF m1(2) _ t] length_port_text [of a] assms(3) m1(3) by auto
  have "toIp dbg ntop mem 0 64 a = Inr m1"
    using assms m1(1) by (simp add: toIp_def store_ntop_def INET_ADDRSTRLEN_def)
  then have "toIpPort dbg ntop mem 64 a = Inr m2"
    using assms(1,3) families_differ m2(1)
    by (simp add: toIpPort_def strlen_holds [OF m1(2)] sz_sub_small cassert_def del: strlen.simps)
  then show ?thesis
    by (simp add: InetAddress_toIpPort_def string_of_array_holds [OF m2(2)] flip: mem_def)
qed

lemma toIpPort6:
  assumes "sa_family a = AF_INET6" "ntop AF_INET6 (sin6_addr a) = ip" "length ip < 46"
    and "CHR 0x00 \<notin> set ip"
  shows "InetAddress_toIpPort dbg ntop a = Inr (''['' @ ip @ '']:'' @ port_text a)"
proof -
  define mem where "mem = replicate 64 (CHR 0x00)"
  define m0 where "m0 = ''['' @ replicate 63 (CHR 0x00)"
  have m0: "write_at mem 0 ''['' = Inr m0"
    by (simp add: mem_def m0_def write_at_def drop_replicate)
  obtain m1 where m1: "write_at m0 1 (ip @ [CHR 0x00]) = Inr m1" "holds_cstr m1 (''['' @ ip)"
    "length m1 = 64"
    using write_behind [of m0 "''[''" _ ip] assms(3,4) by (auto simp: m0_def)
  have t: "CHR 0x00 \<notin> set ('']:'' @ port_text a)" by (simp add: port_text_def dec_nat_no_nul)
  obtain m2 where m2: "snprintf_at m1 (Suc (length ip)) (64 - Suc (length ip)) ('']:'' @ port_text a) = Inr m2"
    "holds_cstr m2 (''['' @ ip @ '']:'' @ port_text a)"
    using snprintf_at_holds [OF m1(2) _ t] length_port_text [of a] assms(3) m1(3) by auto
  have "toIp dbg ntop m0 1 63 a = Inr m1"
    using assms m1(1) families_differ by (simp add: toIp_def store_ntop_def INET6_ADDRSTRLEN_def)
  then have "toIpPort dbg ntop mem 64 a = Inr m2"
    using assms(1,3) m2(1) m0
    by (simp add: toIpPort_def strlen_holds [OF m1(2)] sz_sub_small cassert_def del: strlen.simps)
  then show ?thesis
    by (simp add: InetAddress_toIpPort_def string_of_array_holds [OF m2(2)] flip: mem_def)
qed


text \<open>C31: Printing an address that was made from a textual IP and a port gives that text and port
  back, in brackets for IPv6, when \<open>inet_pton\<close> accepts the IP and \<open>inet_ntop\<close> prints the
  result as it was; no assertion fails and 64 bytes are enough for every address.\<close>

theorem socket_address_roundtrip:
  assumes "length junk = 28"
    and fam: "fam = (if ipv6 \<or> CHR '':'' \<in> set ip then AF_INET6 else AF_INET)"
    and "pton fam ip = Some d" and "length d = (if fam = AF_INET6 then 16 else 4)"
    and "ntop fam d = ip" and "length ip < (if fam = AF_INET6 then 46 else 16)"
    and "CHR 0x00 \<notin> set ip"
  shows "InetAddress_toIpPort dbg ntop (InetAddress_ip pton ip port ipv6 junk) =
    Inr (if fam = AF_INET6 then ''['' @ ip @ '']:'' @ dec_nat (unat port)
         else ip @ '':'' @ dec_nat (unat port))"
proof (cases "ipv6 \<or> CHR '':'' \<in> set ip")
  case True
  define a where "a = InetAddress_ip pton ip port ipv6 junk"
  have "fam = AF_INET6" using fam True by simp
  note F = InetAddress_ip_fields6 [OF True assms(1) _ _ a_def, of d]
  show ?thesis
    unfolding a_def [symmetric]
    using assms F toIpPort6 [of a ntop ip dbg] \<open>fam = AF_INET6\<close>
    by (simp add: port_text_def)
next
  case False
  define a where "a = InetAddress_ip pton ip port ipv6 junk"
  have "fam = AF_INET" using fam False by simp
  note F = InetAddress_ip_fields4 [OF _ _ assms(1) _ _ a_def, of d]
  show ?thesis
    unfolding a_def [symmetric]
    using assms F False toIpPort4 [of a ntop ip dbg] \<open>fam = AF_INET\<close> families_differ
    by (simp add: port_text_def)
qed

theorem socket_address_roundtrip_witness:
  "InetAddress_toIpPort True (\<lambda>fam d. if d = replicate 15 0 @ [1] then ''::1'' else ''?'')
      (InetAddress_ip (\<lambda>fam s. if s = ''::1'' then Some (replicate 15 0 @ [1]) else None)
         ''::1'' 8080 False (replicate 28 7)) = Inr (''['' @ ''::1'' @ '']:'' @ dec_nat 8080)"
proof -
  have "InetAddress_toIpPort True (\<lambda>fam d. if d = replicate 15 0 @ [1] then ''::1'' else ''?'')
      (InetAddress_ip (\<lambda>fam s. if s = ''::1'' then Some (replicate 15 0 @ [1]) else None)
         ''::1'' 8080 False (replicate 28 7)) =
    Inr (if AF_INET6 = AF_INET6 then ''['' @ ''::1'' @ '']:'' @ dec_nat (unat (8080 :: 16 word))
         else ''::1'' @ '':'' @ dec_nat (unat (8080 :: 16 word)))"
    by (rule socket_address_roundtrip [where d = "replicate 15 0 @ [1]"]) simp_all
  then show ?thesis by simp
qed

text \<open>A connection whose two ends cannot both be read is not taken for a self connection.\<close>

lemma zero_fields:
  "sin_port (replicate 28 0) = 0" "sa_family (replicate 28 0) \<noteq> AF_INET"
  "sa_family (replicate 28 0) \<noteq> AF_INET6"
proof -
  have "replicate 2 (0 :: byte) = [0, 0]" by (simp add: numeral_2_eq_2)
  then have "(le_word (replicate 2 0) :: 16 word) = 0" by simp
  then show "sin_port (replicate 28 0) = 0" "sa_family (replicate 28 0) \<noteq> AF_INET"
    "sa_family (replicate 28 0) \<noteq> AF_INET6"
    by (simp_all add: sin_port_def sa_family_def field_def AF_INET_def AF_INET6_def)
qed

lemma isSelfConnect_no_peer: "sin_port (getLocalAddr lr) \<noteq> 0 \<Longrightarrow> \<not> isSelfConnect lr None"
  using zero_fields by (simp add: isSelfConnect_def Let_def getPeerAddr_def)

lemma isSelfConnect_no_local: "\<not> isSelfConnect None pr"
  using zero_fields by (simp add: isSelfConnect_def Let_def getLocalAddr_def)

lemma isSelfConnect_refl:
  "sa_family a \<in> {AF_INET, AF_INET6} \<Longrightarrow> isSelfConnect (Some a) (Some a)"
  by (auto simp: isSelfConnect_def Let_def getLocalAddr_def getPeerAddr_def)

section \<open>Input and output\<close>

text \<open>The wrappers pass descriptor and arguments on and give back the kernel's answer.\<close>

definition sockets_read :: "(int \<Rightarrow> nat \<Rightarrow> 'answer) \<Rightarrow> int \<Rightarrow> nat \<Rightarrow> 'answer" where
  "sockets_read read sockfd count = read sockfd count"

definition sockets_readv :: "(int \<Rightarrow> nat list \<Rightarrow> 'answer) \<Rightarrow> int \<Rightarrow> nat list \<Rightarrow> 'answer" where
  "sockets_readv readv sockfd iov = readv sockfd iov"

definition sockets_write :: "(int \<Rightarrow> byte list \<Rightarrow> 'answer) \<Rightarrow> int \<Rightarrow> byte list \<Rightarrow> 'answer" where
  "sockets_write write sockfd buf = write sockfd buf"

text \<open>\<open>port\<close> reads the port through \<open>portNetEndian\<close>, which has no body in the sources.\<close>

definition address_port :: "(sockaddr \<Rightarrow> 16 word) \<Rightarrow> sockaddr \<Rightarrow> 16 word" where
  "address_port portNetEndian a = networkToHost16 (portNetEndian a)"

definition address_family :: "sockaddr \<Rightarrow> 16 word" where
  "address_family a = sa_family a"

section \<open>Socket\<close>

text \<open>
  A \<open>Socket\<close> is its descriptor. An option is the call it makes: descriptor, level, name and
  value, with the numbers of Linux. \<open>tcp_info\<close> is the list of the twelve counters the text shows.
\<close>

type_synonym setsockopt = "int \<times> int \<times> int \<times> int"

definition Socket_dtor :: "(int \<Rightarrow> int) \<Rightarrow> int \<Rightarrow> string list" where
  "Socket_dtor close fd = sockets_close (close fd)"

definition get_tcp_info :: "(int \<Rightarrow> int \<times> 'info) \<Rightarrow> int \<Rightarrow> bool \<times> 'info" where
  "get_tcp_info getsockopt fd = (let (r, info) = getsockopt fd in (r = 0, info))"

definition tcp_info_names :: "string list" where
  "tcp_info_names = [''unrecovered='', '' rto='', '' ato='', '' snd_mss='', '' rcv_mss='', '' lost='',
     '' retrans='', '' rtt='', '' rttvar='', '' sshthresh='', '' cwnd='', '' total_retrans='']"

definition get_tcp_info_string ::
    "(int \<Rightarrow> int \<times> nat list) \<Rightarrow> int \<Rightarrow> string \<Rightarrow> nat \<Rightarrow> (bool \<times> string) res" where
  "get_tcp_info_string getsockopt fd buf len =
     (let (ok, tcpi) = get_tcp_info getsockopt fd in
      if ok
      then andThen (snprintf_at buf 0 len (concat (map2 (\<lambda>n v. n @ dec_nat v) tcp_info_names tcpi)))
             (\<lambda>buf. Inr (True, buf))
      else Inr (False, buf))"

definition bind_addr :: "(int \<Rightarrow> sockaddr \<Rightarrow> nat \<Rightarrow> int) \<Rightarrow> int \<Rightarrow> sockaddr \<Rightarrow> unit res" where
  "bind_addr bind fd addr = bindOrDie bind fd addr"

definition Socket_listen :: "(int \<Rightarrow> int \<Rightarrow> int) \<Rightarrow> int \<Rightarrow> unit res" where
  "Socket_listen listen fd = listenOrDie listen fd"

definition Socket_accept :: "accepted \<Rightarrow> sockaddr \<Rightarrow> (int \<times> sockaddr) res" where
  "Socket_accept r peeraddr =
     andThen (sockets_accept r) (\<lambda>r.
       Inr (acc_fd r, if acc_fd r \<ge> 0 then setSockAddrInet6 (acc_addr r) peeraddr else peeraddr))"

definition shutdown_write :: "(int \<Rightarrow> int) \<Rightarrow> int \<Rightarrow> string list" where
  "shutdown_write shutdown fd = shutdownWrite (shutdown fd)"

definition set_tcp_nodelay :: "bool \<Rightarrow> int \<Rightarrow> setsockopt" where
  "set_tcp_nodelay on fd = (fd, 6, 1, if on then 1 else 0)"

definition set_reuseable_addr :: "bool \<Rightarrow> int \<Rightarrow> setsockopt" where
  "set_reuseable_addr on fd = (fd, 1, 2, if on then 1 else 0)"

definition reuseport_opt :: "bool \<Rightarrow> int \<Rightarrow> setsockopt" where
  "reuseport_opt on fd = (fd, 1, 15, if on then 1 else 0)"

definition set_reuseadble_port :: "(setsockopt \<Rightarrow> int) \<Rightarrow> bool \<Rightarrow> int \<Rightarrow> string list" where
  "set_reuseadble_port sys on fd =
     (if sys (reuseport_opt on fd) < 0 \<and> on then [''SO_REUSEPORT failed.''] else [])"

definition set_keep_alive :: "bool \<Rightarrow> int \<Rightarrow> setsockopt" where
  "set_keep_alive on fd = (fd, 1, 9, if on then 1 else 0)"

text \<open>\<open>accept\<close> returns a descriptor, or a negative number with one of the six errors that may
  pass; the peer address is stored only with a descriptor.\<close>

lemma Socket_accept_result:
  assumes "Socket_accept r peer = Inr (fd, peer')"
  shows "fd = acc_fd r" "0 \<le> fd \<Longrightarrow> peer' = acc_addr r" "fd < 0 \<Longrightarrow> peer' = peer"
    "fd < 0 \<Longrightarrow> acc_errno r \<in> {EAGAIN, ECONNABORTED, EINTR, EPROTO, EPERM, EMFILE}"
  using assms by (auto simp: Socket_accept_def res_simps sockets_accept_def setSockAddrInet6_def
    split: if_splits)

end
