(* ===== verification/Net_TcpConnection.thy ===== *)
theory Net_TcpConnection
  imports Net_Buffer Net_EventLoop Net_SocketOps
begin

unbundle bit_operations_syntax

text \<open>
  A TCP connection on its loop (\<open>net/tcp_connection.h\<close>, \<open>net/tcp_connection.cpp\<close>,
  \<open>net/callbacks.h\<close>).

  The state is the loop, the two buffers and the socket, of which \<open>sock_out\<close> are the bytes
  handed to \<open>write\<close> with success and \<open>sock_shut\<close> says whether the write side is shut down.
  The functors the connection gives to its loop are the datatype \<open>conn_functor\<close>. The
  user's callbacks are a parameter \<open>user\<close>: what each \<open>conn_call\<close> does to the state. The
  results of \<open>write\<close> (a count or \<open>-1\<close> with an errno) and of \<open>readv\<close> are arguments.
  \<open>sendInLoop(const StringPiece &)\<close> is declared and never defined, so what a functor bound to
  it does is the parameter \<open>piece\<close>.
\<close>

section \<open>Data\<close>

datatype StateE = KDisconnected | KConnecting | KConnected | KDisConnecting

datatype conn_functor =
    SendPiece "byte list"
  | ShutdownInLoop
  | ForceCloseInLoop
  | StartRead
  | StopReadInLoop
  | WriteComplete
  | WriteCompleteMember
  | HighWater nat

datatype conn_call = CbConnection | CbMessage int | CbWriteComplete | CbHighWater nat | CbClose

record 'k tcp =
  tloop :: "('k, conn_functor) evloop"
  tname :: string
  tsocket :: int
  localAddress :: sockaddr
  peerAddress :: sockaddr
  tstate :: StateE
  treading :: bool
  tchan :: nat
  hasConnectionCb :: bool
  hasMessageCb :: bool
  hasWriteCompleteCb :: bool
  hasHighWaterMarkCb :: bool
  hasCloseCb :: bool
  highWaterMark :: nat
  inputBuffer :: buffer
  outputBuffer :: buffer
  delayed_closes :: "int list"
  sock_out :: "byte list"
  sock_shut :: bool
  sock_opts :: "setsockopt list"
  tcontext :: "nat option"

type_synonym 'k user = "conn_call \<Rightarrow> 'k tcp \<Rightarrow> 'k tcp res"

definition EWOULDBLOCK :: int where "EWOULDBLOCK = 11"
definition EPIPE :: int where "EPIPE = 32"
definition ECONNRESET :: int where "ECONNRESET = 104"

text \<open>
  The constructor, with the unused address \<open>cid\<close> for the new channel; \<open>sock_opts\<close> records the
  calls of \<open>setsockopt\<close>.
\<close>

definition TcpConnection_ctor ::
    "bool \<Rightarrow> nat \<Rightarrow> string \<Rightarrow> int \<Rightarrow> sockaddr \<Rightarrow> sockaddr \<Rightarrow> ('k, conn_functor) evloop \<Rightarrow> 'k tcp res" where
  "TcpConnection_ctor dbg cid name sockfd localaddr peeraddr L =
     andThen (Buffer_ctor dbg kInittialSize) (\<lambda>inb.
     andThen (Buffer_ctor dbg kInittialSize) (\<lambda>outb.
     Inr \<lparr>tloop = L\<lparr>chans := (chans L)(cid := Some ((Channel_ctor sockfd)
            \<lparr>closeCallback := True, errorCallback := True, writeCallback := True, readCallback := True\<rparr>))\<rparr>,
          tname = name, tsocket = sockfd, localAddress = localaddr, peerAddress = peeraddr,
          tstate = KConnecting, treading = True, tchan = cid,
          hasConnectionCb = False, hasMessageCb = False, hasWriteCompleteCb = False,
          hasHighWaterMarkCb = False, hasCloseCb = False, highWaterMark = 64 * 1024 * 1024,
          inputBuffer = inb, outputBuffer = outb, delayed_closes = [],
          sock_out = [], sock_shut = False, sock_opts = [set_keep_alive True sockfd],
          tcontext = None\<rparr>))"

text \<open>
  The destructor asserts that the connection is down; then the members go in the reverse order of
  their declaration, of which the channel has a destructor with assertions and the socket closes its
  descriptor (\<open>close\<close> answers).
\<close>

definition TcpConnection_dtor ::
    "bool \<Rightarrow> (int \<Rightarrow> int) \<Rightarrow> int \<Rightarrow> 'k tcp \<Rightarrow> (('k, conn_functor) evloop \<times> string list) res" where
  "TcpConnection_dtor dbg close me S =
     cassert dbg (tstate S = KDisconnected)
      (andThen (Channel_dtor dbg me (tchan S) (tloop S)) (\<lambda>L. Inr (L, Socket_dtor close (tsocket S))))"

definition connected :: "'k tcp \<Rightarrow> bool" where
  "connected S \<longleftrightarrow> tstate S = KConnected"

definition disconnected :: "'k tcp \<Rightarrow> bool" where
  "disconnected S \<longleftrightarrow> tstate S = KDisconnected"

definition setTcpNoDelay :: "bool \<Rightarrow> 'k tcp \<Rightarrow> 'k tcp" where
  "setTcpNoDelay on S = S\<lparr>sock_opts := sock_opts S @ [set_tcp_nodelay on (tsocket S)]\<rparr>"

definition getTcpInfo :: "(int \<Rightarrow> int \<times> 'info) \<Rightarrow> 'k tcp \<Rightarrow> bool \<times> 'info" where
  "getTcpInfo getsockopt S = get_tcp_info getsockopt (tsocket S)"

text \<open>The text is what the buffer of 1024 characters holds up to its first NUL; \<open>junk\<close> is what was
  on the stack.\<close>

definition getTcpInfoString :: "(int \<Rightarrow> int \<times> nat list) \<Rightarrow> string \<Rightarrow> 'k tcp \<Rightarrow> string res" where
  "getTcpInfoString getsockopt junk S =
     andThen (get_tcp_info_string getsockopt (tsocket S) (junk[0 := CHR 0x00]) 1024) (\<lambda>(_, buf).
     string_of_array buf)"

definition sendContext :: "nat \<Rightarrow> 'k tcp \<Rightarrow> 'k tcp" where
  "sendContext obj S = S\<lparr>tcontext := Some obj\<rparr>"

text \<open>The setters of the callbacks; an empty function is \<open>False\<close>.\<close>

definition setConnectionCallback :: "bool \<Rightarrow> 'k tcp \<Rightarrow> 'k tcp" where
  "setConnectionCallback cb S = S\<lparr>hasConnectionCb := cb\<rparr>"

definition setMessageCallback :: "bool \<Rightarrow> 'k tcp \<Rightarrow> 'k tcp" where
  "setMessageCallback cb S = S\<lparr>hasMessageCb := cb\<rparr>"

definition setWriteCompleteCallback :: "bool \<Rightarrow> 'k tcp \<Rightarrow> 'k tcp" where
  "setWriteCompleteCallback cb S = S\<lparr>hasWriteCompleteCb := cb\<rparr>"

definition setHighMarkCallback :: "bool \<Rightarrow> 'k tcp \<Rightarrow> 'k tcp" where
  "setHighMarkCallback cb S = S\<lparr>hasHighWaterMarkCb := cb\<rparr>"

definition setCloseCallback :: "bool \<Rightarrow> 'k tcp \<Rightarrow> 'k tcp" where
  "setCloseCallback cb S = S\<lparr>hasCloseCb := cb\<rparr>"

definition stateTostring :: "StateE \<Rightarrow> string" where
  "stateTostring s = (case s of KDisconnected \<Rightarrow> ''kDisconnected'' | KConnecting \<Rightarrow> ''kConnecting''
     | KConnected \<Rightarrow> ''kConnected'' | KDisConnecting \<Rightarrow> ''kDisconnecting'')"

section \<open>Steps on the loop and the callbacks\<close>

definition on_loop ::
    "(('k, conn_functor) evloop \<Rightarrow> ('k, conn_functor) evloop res) \<Rightarrow> 'k tcp \<Rightarrow> 'k tcp res" where
  "on_loop f S = andThen (f (tloop S)) (\<lambda>L. Inr (S\<lparr>tloop := L\<rparr>))"

definition conn_queue :: "int \<Rightarrow> conn_functor \<Rightarrow> 'k tcp \<Rightarrow> 'k tcp" where
  "conn_queue me f S = S\<lparr>tloop := queueInLoop me f (tloop S)\<rparr>"

definition conn_in_loop :: "int \<Rightarrow> 'k tcp \<Rightarrow> 'a res \<Rightarrow> 'a res" where
  "conn_in_loop me S k = assertInLoopThread me (tloop S) k"

definition with_channel :: "'k tcp \<Rightarrow> (channel \<Rightarrow> 'a res) \<Rightarrow> 'a res" where
  "with_channel S k = (case chans (tloop S) (tchan S) of None \<Rightarrow> Inl NullDeref | Some ch \<Rightarrow> k ch)"

text \<open>Calling an empty \<open>std::function\<close> throws.\<close>

definition invoke :: "bool \<Rightarrow> conn_call \<Rightarrow> 'k user \<Rightarrow> 'k tcp \<Rightarrow> 'k tcp res" where
  "invoke isset c user S = (if isset then user c S else Inl (LogicError ''bad_function_call''))"

definition defaultMessageCallback :: "'k tcp \<Rightarrow> 'k tcp" where
  "defaultMessageCallback S = S\<lparr>inputBuffer := retriveAll (inputBuffer S)\<rparr>"

section \<open>Sending\<close>

definition sock_write :: "int \<Rightarrow> byte list \<Rightarrow> 'k tcp \<Rightarrow> 'k tcp" where
  "sock_write n d S = S\<lparr>sock_out := sock_out S @ take (nat n) d\<rparr>"

text \<open>The direct write: what it leaves over, whether the connection is broken, and the state.\<close>

definition direct_write ::
    "int \<Rightarrow> int \<Rightarrow> int \<Rightarrow> byte list \<Rightarrow> 'k tcp \<Rightarrow> nat \<times> nat \<times> bool \<times> 'k tcp" where
  "direct_write me nwrote err message S =
     (let len = length message; S0 = sock_write nwrote message S in
      if 0 \<le> nwrote
      then let remaining = sz_sub len (nat nwrote) in
        (nat nwrote, remaining, False,
         if remaining = 0 \<and> hasWriteCompleteCb S0 then conn_queue me WriteComplete S0 else S0)
      else (0, len, err \<noteq> EWOULDBLOCK \<and> (err = EPIPE \<or> err = ECONNRESET), S0))"

text \<open>The bytes left over go to the output buffer, with the high-water mark and the write interest.\<close>

definition buffer_rest ::
    "bool \<Rightarrow> 'k epoll_ctl \<Rightarrow> int \<Rightarrow> bool \<Rightarrow> byte list \<Rightarrow> 'k tcp \<Rightarrow> 'k tcp res" where
  "buffer_rest dbg ctl me writing rest S =
     (let oldLen = readableBytes (outputBuffer S); remaining = length rest;
          S1 = (if sz_add oldLen remaining \<ge> highWaterMark S \<and> oldLen < highWaterMark S \<and>
                  hasHighWaterMarkCb S
                then conn_queue me (HighWater (sz_add oldLen remaining)) S else S) in
      andThen (Buffer_append dbg rest (outputBuffer S1)) (\<lambda>b.
      let S2 = S1\<lparr>outputBuffer := b\<rparr> in
      if \<not> writing then on_loop (enableWriting dbg ctl me (tchan S2)) S2 else Inr S2))"

definition sendInLoop ::
    "bool \<Rightarrow> 'k epoll_ctl \<Rightarrow> int \<Rightarrow> int \<Rightarrow> int \<Rightarrow> byte list \<Rightarrow> 'k tcp \<Rightarrow> 'k tcp res" where
  "sendInLoop dbg ctl me wr err message S =
     conn_in_loop me S
      (if tstate S = KDisconnected then Inr S
       else with_channel S (\<lambda>ch.
        let (nwrote, remaining, faultError, S1) =
              (if \<not> isWriting ch \<and> readableBytes (outputBuffer S) = 0
               then direct_write me wr err message S
               else (0, length message, False, S)) in
        cassert dbg (remaining \<le> length message)
        (if \<not> faultError \<and> 0 < remaining
         then buffer_rest dbg ctl me (isWriting ch) (take remaining (drop nwrote message)) S1
         else Inr S1)))"

text \<open>\<open>send\<close> of a \<open>StringPiece\<close> (and of a pointer with a length) and of a buffer.\<close>

definition send_piece ::
    "(byte list \<Rightarrow> 'k tcp \<Rightarrow> 'k tcp res) \<Rightarrow> int \<Rightarrow> byte list \<Rightarrow> 'k tcp \<Rightarrow> 'k tcp res" where
  "send_piece piece me message S =
     (if tstate S = KConnected
      then if isInLoopThread me (tloop S) then piece message S
           else Inr (conn_queue me (SendPiece message) S)
      else Inr S)"

definition send_buffer ::
    "bool \<Rightarrow> 'k epoll_ctl \<Rightarrow> int \<Rightarrow> int \<Rightarrow> int \<Rightarrow> buffer \<Rightarrow> 'k tcp \<Rightarrow> ('k tcp \<times> buffer) res" where
  "send_buffer dbg ctl me wr err buf S =
     (if tstate S = KConnected
      then if isInLoopThread me (tloop S)
           then andThen (read_at (mem buf) (peek buf) (readableBytes buf)) (\<lambda>d.
                andThen (sendInLoop dbg ctl me wr err d S) (\<lambda>S1. Inr (S1, retriveAll buf)))
           else andThen (retriveAllAsString dbg buf) (\<lambda>(d, buf').
                Inr (conn_queue me (SendPiece d) S, buf'))
      else Inr (S, buf))"

section \<open>Closing\<close>

definition shutdownInLoop :: "int \<Rightarrow> 'k tcp \<Rightarrow> 'k tcp res" where
  "shutdownInLoop me S =
     conn_in_loop me S (with_channel S (\<lambda>ch. Inr (if \<not> isWriting ch then S\<lparr>sock_shut := True\<rparr> else S)))"

definition TcpConnection_shutdown :: "int \<Rightarrow> 'k tcp \<Rightarrow> 'k tcp res" where
  "TcpConnection_shutdown me S =
     (if tstate S = KConnected
      then let S1 = S\<lparr>tstate := KDisConnecting\<rparr> in
        if isInLoopThread me (tloop S1) then shutdownInLoop me S1
        else Inr (conn_queue me ShutdownInLoop S1)
      else Inr S)"

definition forceClose :: "int \<Rightarrow> 'k tcp \<Rightarrow> 'k tcp" where
  "forceClose me S =
     (if tstate S = KConnected \<or> tstate S = KDisConnecting
      then conn_queue me ForceCloseInLoop (S\<lparr>tstate := KDisConnecting\<rparr>) else S)"

definition forceCloseWithDealy :: "int \<Rightarrow> 'k tcp \<Rightarrow> 'k tcp" where
  "forceCloseWithDealy sec S =
     (if tstate S = KConnected \<or> tstate S = KDisConnecting
      then S\<lparr>tstate := KDisConnecting, delayed_closes := delayed_closes S @ [sec]\<rparr> else S)"

text \<open>In \<open>assert(state_ == KConnected || KDisConnecting)\<close> the second operand is the constant 3.\<close>

definition handleClose ::
    "bool \<Rightarrow> 'k epoll_ctl \<Rightarrow> int \<Rightarrow> 'k user \<Rightarrow> 'k tcp \<Rightarrow> 'k tcp res" where
  "handleClose dbg ctl me user S =
     conn_in_loop me S (with_channel S (\<lambda>_.
      cassert dbg (tstate S = KConnected \<or> (3 :: int) \<noteq> 0)
      (andThen (on_loop (disAbleAll dbg ctl me (tchan S)) (S\<lparr>tstate := KDisconnected\<rparr>)) (\<lambda>S1.
       andThen (invoke (hasConnectionCb S1) CbConnection user S1) (\<lambda>S2.
       invoke (hasCloseCb S2) CbClose user S2)))))"

definition forceCloseInLoop ::
    "bool \<Rightarrow> 'k epoll_ctl \<Rightarrow> int \<Rightarrow> 'k user \<Rightarrow> 'k tcp \<Rightarrow> 'k tcp res" where
  "forceCloseInLoop dbg ctl me user S =
     conn_in_loop me S
      (if tstate S = KConnected \<or> tstate S = KDisConnecting then handleClose dbg ctl me user S else Inr S)"

text \<open>\<open>handleError\<close> reads the socket error and logs it.\<close>

definition handleError :: "'k tcp \<Rightarrow> 'k tcp res" where
  "handleError S = with_channel S (\<lambda>_. Inr S)"

section \<open>Establishing and destroying\<close>

text \<open>\<open>assert(state_ = KConnecting)\<close> assigns and is true.\<close>

definition connectEstablished :: "bool \<Rightarrow> int \<Rightarrow> 'k tcp \<Rightarrow> 'k tcp res" where
  "connectEstablished dbg me S =
     conn_in_loop me S
      (let S1 = (if dbg then S\<lparr>tstate := KConnecting\<rparr> else S); S2 = S1\<lparr>tstate := KConnected\<rparr> in
       on_loop (modify_channel Channel_tie (tchan S2)) S2)"

definition connectDestory ::
    "bool \<Rightarrow> 'k epoll_ctl \<Rightarrow> int \<Rightarrow> 'k user \<Rightarrow> 'k tcp \<Rightarrow> 'k tcp res" where
  "connectDestory dbg ctl me user S =
     conn_in_loop me S
      (andThen
        (if tstate S = KConnected
         then andThen (on_loop (disAbleAll dbg ctl me (tchan S)) (S\<lparr>tstate := KDisconnected\<rparr>))
                (\<lambda>S1. invoke (hasConnectionCb S1) CbConnection user S1)
         else Inr S)
        (\<lambda>S2. on_loop (Channel_remove dbg ctl me (tchan S2)) S2))"

section \<open>Reading\<close>

text \<open>\<open>startRead\<close> binds itself: in the loop thread it calls itself for ever.\<close>

partial_function (option) startRead :: "int \<Rightarrow> 'k tcp \<Rightarrow> 'k tcp option" where
  "startRead me S =
     (if isInLoopThread me (tloop S) then startRead me S else Some (conn_queue me StartRead S))"

definition startReadInLoop :: "bool \<Rightarrow> 'k epoll_ctl \<Rightarrow> int \<Rightarrow> 'k tcp \<Rightarrow> 'k tcp res" where
  "startReadInLoop dbg ctl me S =
     conn_in_loop me S (with_channel S (\<lambda>ch.
       if \<not> treading S \<or> \<not> isReading ch
       then andThen (on_loop (enableReading dbg ctl me (tchan S)) S) (\<lambda>S1. Inr (S1\<lparr>treading := True\<rparr>))
       else Inr S))"

text \<open>\<open>reading_ - true\<close> is an expression without effect.\<close>

definition stopReadInLoop :: "bool \<Rightarrow> 'k epoll_ctl \<Rightarrow> int \<Rightarrow> 'k tcp \<Rightarrow> 'k tcp res" where
  "stopReadInLoop dbg ctl me S =
     conn_in_loop me S (with_channel S (\<lambda>ch.
       if treading S \<or> isReading ch then on_loop (disableReading dbg ctl me (tchan S)) S else Inr S))"

definition stopRead :: "bool \<Rightarrow> 'k epoll_ctl \<Rightarrow> int \<Rightarrow> 'k tcp \<Rightarrow> 'k tcp res" where
  "stopRead dbg ctl me S =
     (if isInLoopThread me (tloop S) then stopReadInLoop dbg ctl me S
      else Inr (conn_queue me StopReadInLoop S))"

section \<open>Event handlers\<close>

definition TcpConnection_handleRead ::
    "bool \<Rightarrow> 'k epoll_ctl \<Rightarrow> int \<Rightarrow> 'k user \<Rightarrow> int \<Rightarrow> int + byte list \<Rightarrow> 'k tcp \<Rightarrow> 'k tcp res" where
  "TcpConnection_handleRead dbg ctl me user rectime r S =
     conn_in_loop me S (with_channel S (\<lambda>_.
      andThen (readFd dbg r (inputBuffer S)) (\<lambda>(b, n, savedErrno).
      let S1 = S\<lparr>inputBuffer := b\<rparr> in
      if 0 < n then invoke (hasMessageCb S1) (CbMessage rectime) user S1
      else if n = 0 then handleClose dbg ctl me user S1
      else handleError S1)))"

definition handleWrite ::
    "bool \<Rightarrow> 'k epoll_ctl \<Rightarrow> int \<Rightarrow> int \<Rightarrow> 'k tcp \<Rightarrow> 'k tcp res" where
  "handleWrite dbg ctl me n S =
     conn_in_loop me S (with_channel S (\<lambda>ch.
      if isWriting ch
      then andThen (read_at (mem (outputBuffer S)) (peek (outputBuffer S)) (readableBytes (outputBuffer S))) (\<lambda>d.
        if 0 < n
        then let S0 = sock_write n d S in
          andThen (retrive dbg (nat n) (outputBuffer S0)) (\<lambda>b.
          let S1 = S0\<lparr>outputBuffer := b\<rparr> in
          if readableBytes b = 0
          then andThen (on_loop (disableWriting dbg ctl me (tchan S1)) S1) (\<lambda>S2.
            let S3 = (if hasWriteCompleteCb S2 then conn_queue me WriteCompleteMember S2 else S2) in
            if tstate S3 = KDisConnecting then shutdownInLoop me S3 else Inr S3)
          else Inr S1)
        else Inr S)
      else Inr S))"

text \<open>
  Running a functor of the queue. \<open>WriteCompleteMember\<close> is
  \<open>std::bind(&TcpConnection::writeCompleteCallback_, ...)\<close>: calling it yields the data
  member and does not call the callback stored there.
\<close>

fun exec_conn ::
    "bool \<Rightarrow> 'k epoll_ctl \<Rightarrow> int \<Rightarrow> 'k user \<Rightarrow> (byte list \<Rightarrow> 'k tcp \<Rightarrow> 'k tcp res) \<Rightarrow>
     conn_functor \<Rightarrow> 'k tcp \<Rightarrow> 'k tcp res" where
  "exec_conn dbg ctl me user piece (SendPiece d) S = piece d S"
| "exec_conn dbg ctl me user piece ShutdownInLoop S = shutdownInLoop me S"
| "exec_conn dbg ctl me user piece ForceCloseInLoop S = forceCloseInLoop dbg ctl me user S"
| "exec_conn dbg ctl me user piece StartRead S =
     (case startRead me S of None \<Rightarrow> Inl Diverges | Some S' \<Rightarrow> Inr S')"
| "exec_conn dbg ctl me user piece StopReadInLoop S = stopReadInLoop dbg ctl me S"
| "exec_conn dbg ctl me user piece WriteComplete S = user CbWriteComplete S"
| "exec_conn dbg ctl me user piece WriteCompleteMember S = Inr S"
| "exec_conn dbg ctl me user piece (HighWater n) S = user (CbHighWater n) S"

definition conn_pending ::
    "bool \<Rightarrow> 'k epoll_ctl \<Rightarrow> int \<Rightarrow> 'k user \<Rightarrow> (byte list \<Rightarrow> 'k tcp \<Rightarrow> 'k tcp res) \<Rightarrow> 'k tcp \<Rightarrow> 'k tcp res" where
  "conn_pending dbg ctl me user piece S =
     (let (functors, L) = swap_functors (tloop S) in
      andThen (foldRes (exec_conn dbg ctl me user piece) functors (S\<lparr>tloop := L\<rparr>)) (\<lambda>S1.
      Inr (S1\<lparr>tloop := (tloop S1)\<lparr>callingPendingFunctors := False\<rparr>\<rparr>)))"

text \<open>The channel's callbacks are the handlers of the connection.\<close>

fun exec_action ::
    "bool \<Rightarrow> 'k epoll_ctl \<Rightarrow> int \<Rightarrow> 'k user \<Rightarrow> int + byte list \<Rightarrow> int \<Rightarrow> chan_action \<Rightarrow> 'k tcp \<Rightarrow> 'k tcp res" where
  "exec_action dbg ctl me user r n CallClose S = handleClose dbg ctl me user S"
| "exec_action dbg ctl me user r n CallError S = handleError S"
| "exec_action dbg ctl me user r n (CallRead t) S = TcpConnection_handleRead dbg ctl me user t r S"
| "exec_action dbg ctl me user r n CallWrite S = handleWrite dbg ctl me n S"
| "exec_action dbg ctl me user r n WarnHup S = Inr S"
| "exec_action dbg ctl me user r n WarnNval S = Inr S"
| "exec_action dbg ctl me user r n (SetEventHandling b) S =
     on_loop (modify_channel (set_eventHandling b) (tchan S)) S"

definition conn_event ::
    "bool \<Rightarrow> 'k epoll_ctl \<Rightarrow> int \<Rightarrow> 'k user \<Rightarrow> 32 word \<Rightarrow> int \<Rightarrow> int + byte list \<Rightarrow> int \<Rightarrow> 'k tcp \<Rightarrow> 'k tcp res" where
  "conn_event dbg ctl me user revents t r n S =
     andThen (on_loop (modify_channel (setRevents revents) (tchan S)) S) (\<lambda>S1.
     with_channel S1 (\<lambda>ch. foldRes (exec_action dbg ctl me user r n) (handleEvent True t ch) S1))"

section \<open>Runs of a connection\<close>

datatype conn_op =
    OEstablish
  | ODestroy
  | OSend "byte list" int int
  | OShutdown
  | OForceClose
  | OForceCloseDelay int
  | OStartRead
  | OStopRead
  | OEvent "32 word" int "int + byte list" int
  | OPending

fun conn_step ::
    "bool \<Rightarrow> 'k epoll_ctl \<Rightarrow> int \<Rightarrow> 'k user \<Rightarrow> (byte list \<Rightarrow> 'k tcp \<Rightarrow> 'k tcp res) \<Rightarrow>
     conn_op \<Rightarrow> 'k tcp \<Rightarrow> 'k tcp res" where
  "conn_step dbg ctl me user piece OEstablish S = connectEstablished dbg me S"
| "conn_step dbg ctl me user piece ODestroy S = connectDestory dbg ctl me user S"
| "conn_step dbg ctl me user piece (OSend d wr err) S =
     (if tstate S = KConnected then sendInLoop dbg ctl me wr err d S else Inr S)"
| "conn_step dbg ctl me user piece OShutdown S = TcpConnection_shutdown me S"
| "conn_step dbg ctl me user piece OForceClose S = Inr (forceClose me S)"
| "conn_step dbg ctl me user piece (OForceCloseDelay t) S = Inr (forceCloseWithDealy t S)"
| "conn_step dbg ctl me user piece OStartRead S =
     (case startRead me S of None \<Rightarrow> Inl Diverges | Some S' \<Rightarrow> Inr S')"
| "conn_step dbg ctl me user piece OStopRead S = stopRead dbg ctl me S"
| "conn_step dbg ctl me user piece (OEvent revents t r n) S = conn_event dbg ctl me user revents t r n S"
| "conn_step dbg ctl me user piece OPending S = conn_pending dbg ctl me user piece S"

section \<open>Channel operations of the loop\<close>

lemma poller_update_frame:
  "EPollPoller_updateChannel dbg ctl cid ch p = Inr (ch', p') \<Longrightarrow> ch_events ch' = ch_events ch"
  by (auto simp: EPollPoller_updateChannel_def Let_def res_simps split: if_splits)

lemma poller_remove_frame:
  "EPollPoller_removeChannel dbg ctl cid ch p = Inr (ch', p') \<Longrightarrow> ch_events ch' = ch_events ch"
  by (auto simp: EPollPoller_removeChannel_def Let_def res_simps split: if_splits)

text \<open>A channel operation that leaves the read bits of the channel clear and the queue alone.\<close>

definition unread :: "nat \<Rightarrow> ('k, 'f) evloop \<Rightarrow> bool" where
  "unread cid L \<longleftrightarrow> (\<exists>ch. chans L cid = Some ch \<and> KReadEvent AND ch_events ch = 0)"

definition keeps_unread :: "nat \<Rightarrow> (('k, 'f) evloop \<Rightarrow> ('k, 'f) evloop res) \<Rightarrow> bool" where
  "keeps_unread cid f \<longleftrightarrow> (\<forall>L L'. unread cid L \<and> f L = Inr L' \<longrightarrow>
     unread cid L' \<and> pendingFunctors L' = pendingFunctors L)"

lemma keeps_unreadI:
  assumes "\<And>L L' ch. chans L cid = Some ch \<Longrightarrow> KReadEvent AND ch_events ch = 0 \<Longrightarrow> f L = Inr L' \<Longrightarrow>
    (\<exists>ch'. chans L' cid = Some ch' \<and> KReadEvent AND ch_events ch' = 0) \<and>
    pendingFunctors L' = pendingFunctors L"
  shows "keeps_unread cid f"
  using assms by (auto simp: keeps_unread_def unread_def)

lemma keeps_unreadD:
  "keeps_unread cid f \<Longrightarrow> unread cid L \<Longrightarrow> f L = Inr L' \<Longrightarrow>
   unread cid L' \<and> pendingFunctors L' = pendingFunctors L"
  by (simp add: keeps_unread_def)

lemma keeps_unread_andThen:
  assumes f: "keeps_unread cid f" and g: "keeps_unread cid g"
  shows "keeps_unread cid (\<lambda>L. andThen (f L) g)"
  unfolding keeps_unread_def
proof (intro allI impI)
  fix L L'
  assume h: "unread cid L \<and> andThen (f L) g = Inr L'"
  then obtain M where "f L = Inr M" "g M = Inr L'" by (auto simp: andThen_eq_Inr)
  with h keeps_unreadD [OF f, of L M] keeps_unreadD [OF g, of M L']
  show "unread cid L' \<and> pendingFunctors L' = pendingFunctors L" by simp
qed

lemma keeps_unread_modify:
  "(\<And>ch. KReadEvent AND ch_events ch = 0 \<Longrightarrow> KReadEvent AND ch_events (f ch) = 0) \<Longrightarrow>
   keeps_unread cid (modify_channel f cid)"
  by (rule keeps_unreadI) (auto simp: modify_channel_def)

lemma keeps_unread_update: "keeps_unread cid (Channel_update dbg ctl me cid)"
proof -
  have "keeps_unread cid (EventLoop_updateChannel dbg ctl me cid)"
    by (rule keeps_unreadI)
      (auto simp: EventLoop_updateChannel_def assertInLoopThread_def res_simps poller_update_frame
        split: if_splits)
  then show ?thesis unfolding Channel_update_def
    by (intro keeps_unread_andThen keeps_unread_modify) simp_all
qed

lemma keeps_unread_remove: "keeps_unread cid (Channel_remove dbg ctl me cid)"
  by (rule keeps_unreadI)
    (auto simp: Channel_remove_def EventLoop_removeChannel_def assertInLoopThread_def res_simps
      modify_channel_def poller_remove_frame split: if_splits option.splits)

lemma keeps_unread_ops:
  "keeps_unread cid (enableWriting dbg ctl me cid)" "keeps_unread cid (disableWriting dbg ctl me cid)"
  "keeps_unread cid (disableReading dbg ctl me cid)" "keeps_unread cid (disAbleAll dbg ctl me cid)"
  "keeps_unread cid (modify_channel Channel_tie cid)"
  "keeps_unread cid (modify_channel (setRevents ev) cid)"
  "keeps_unread cid (modify_channel (set_eventHandling b) cid)"
  unfolding enableWriting_def disableWriting_def disableReading_def disAbleAll_def
  by (intro keeps_unread_andThen keeps_unread_update keeps_unread_modify;
      simp add: chan_defs mask_simps KNoneEvent_def)+

section \<open>What stays when reading is never enabled\<close>

definition no_piece :: "'k tcp \<Rightarrow> bool" where
  "no_piece S \<longleftrightarrow> (\<forall>d. SendPiece d \<notin> set (pendingFunctors (tloop S)))"

definition frozen :: "buffer \<Rightarrow> byte list \<Rightarrow> 'k tcp \<Rightarrow> bool" where
  "frozen b out S \<longleftrightarrow> unread (tchan S) (tloop S) \<and> no_piece S \<and> outputBuffer S = b \<and> sock_out S = out"

text \<open>User callbacks that do not send on the connection and leave its channel alone.\<close>

definition quiet_user :: "'k user \<Rightarrow> bool" where
  "quiet_user user \<longleftrightarrow> (\<forall>c b out S. frozen b out S \<longrightarrow> yields UNIV (frozen b out) (user c S))"

lemma frozen_simps [simp]:
  "frozen b out (S\<lparr>tstate := st\<rparr>) = frozen b out S"
  "frozen b out (S\<lparr>inputBuffer := ib\<rparr>) = frozen b out S"
  "frozen b out (S\<lparr>treading := rd\<rparr>) = frozen b out S"
  "frozen b out (S\<lparr>sock_shut := sh\<rparr>) = frozen b out S"
  "frozen b out (S\<lparr>delayed_closes := dc\<rparr>) = frozen b out S"
  by (simp_all add: frozen_def no_piece_def)

lemma frozen_queue:
  "frozen b out S \<Longrightarrow> (\<And>d. f \<noteq> SendPiece d) \<Longrightarrow> frozen b out (conn_queue me f S)"
  by (auto simp: frozen_def no_piece_def conn_queue_def unread_def queueInLoop_def queue_push_def
      wakeup_def Let_def)

lemma frozen_on_loop:
  "frozen b out S \<Longrightarrow> keeps_unread (tchan S) f \<Longrightarrow> yields UNIV (frozen b out) (on_loop f S)"
  by (cases "f (tloop S)") (auto simp: on_loop_def frozen_def keeps_unread_def no_piece_def)

lemma frozen_channel:
  "frozen b out S \<Longrightarrow> \<exists>ch. chans (tloop S) (tchan S) = Some ch \<and> \<not> isWriting ch"
  by (auto simp: frozen_def unread_def isWriting_def)

lemma frozen_invoke:
  "quiet_user user \<Longrightarrow> frozen b out S \<Longrightarrow> yields UNIV (frozen b out) (invoke isset c user S)"
  by (auto simp: invoke_def quiet_user_def)

lemma frozen_in_loop:
  "yields UNIV I k \<Longrightarrow> yields UNIV I (conn_in_loop me S k)"
  by (simp add: conn_in_loop_def assertInLoopThread_def)

lemma frozen_with_channel:
  "(\<And>ch. yields UNIV I (k ch)) \<Longrightarrow> yields UNIV I (with_channel S k)"
  by (simp add: with_channel_def split: option.splits)

lemma yields_cassert: "yields UNIV I k \<Longrightarrow> yields UNIV I (cassert dbg P k)"
  by (simp add: cassert_def)

lemma yields_UNIV_Inl [simp]: "yields UNIV I (Inl e)"
  by simp

lemmas frozen_intros = frozen_in_loop frozen_with_channel yields_cassert frozen_invoke
  frozen_on_loop keeps_unread_ops keeps_unread_remove frozen_queue

lemma frozen_handleClose:
  "quiet_user user \<Longrightarrow> frozen b out S \<Longrightarrow> yields UNIV (frozen b out) (handleClose dbg ctl me user S)"
  unfolding handleClose_def
  by (auto intro!: frozen_intros yields_andThen [where J = "frozen b out"])

lemma frozen_handleRead:
  "quiet_user user \<Longrightarrow> frozen b out S \<Longrightarrow>
   yields UNIV (frozen b out) (TcpConnection_handleRead dbg ctl me user t r S)"
  unfolding TcpConnection_handleRead_def
  by (cases "readFd dbg r (inputBuffer S)")
    (auto intro!: frozen_intros frozen_handleClose simp: handleError_def Let_def)

lemma frozen_handleWrite:
  "frozen b out S \<Longrightarrow> yields UNIV (frozen b out) (handleWrite dbg ctl me n S)"
  using frozen_channel [of b out S]
  by (auto simp: handleWrite_def with_channel_def intro!: frozen_in_loop)

lemma startRead_in_loop: "isInLoopThread me (tloop S) \<Longrightarrow> startRead me S = None"
proof (rule ccontr)
  assume in_loop: "isInLoopThread me (tloop S)" and "startRead me S \<noteq> None"
  then obtain y where y: "startRead me S = Some y" by blast
  have "\<not> isInLoopThread me (tloop S)"
    by (rule startRead.raw_induct [where P = "\<lambda>me S y. \<not> isInLoopThread me (tloop S)", OF _ y])
      (auto split: if_splits)
  with in_loop show False by blast
qed

lemma startRead_outcome:
  "startRead me S = (if isInLoopThread me (tloop S) then None else Some (conn_queue me StartRead S))"
  by (cases "isInLoopThread me (tloop S)") (simp add: startRead_in_loop, subst startRead.simps, simp)

lemma frozen_exec:
  assumes "quiet_user user" "frozen b out S" "\<And>d. f \<noteq> SendPiece d"
  shows "yields UNIV (frozen b out) (exec_conn dbg ctl me user piece f S)"
proof -
  have u: "yields UNIV (frozen b out) (user c S)" for c
    using assms(1,2) by (auto simp: quiet_user_def)
  have "yields UNIV (frozen b out) (case startRead me S of None \<Rightarrow> Inl Diverges | Some S' \<Rightarrow> Inr S')"
    using assms(2) by (simp add: startRead_outcome frozen_queue)
  then show ?thesis using assms u
    by (cases f) (auto simp: shutdownInLoop_def forceCloseInLoop_def stopReadInLoop_def
        intro!: frozen_intros frozen_handleClose)
qed

lemma frozen_event:
  assumes u: "quiet_user user" and fz: "frozen b out S"
  shows "yields UNIV (frozen b out) (conn_event dbg ctl me user ev t r n S)"
proof -
  have "yields UNIV (frozen b out) (exec_action dbg ctl me user r n a S')" if "frozen b out S'" for a S'
    using frozen_handleClose [OF u that] frozen_handleRead [OF u that] frozen_handleWrite [OF that] that
    by (cases a) (auto simp: handleError_def intro!: frozen_with_channel frozen_on_loop keeps_unread_ops)
  then have "yields UNIV (frozen b out) (foldRes (exec_action dbg ctl me user r n) acts S')"
    if "frozen b out S'" for acts S'
    using that by (intro yields_foldRes [where I = "frozen b out"]) auto
  then show ?thesis unfolding conn_event_def
    by (intro yields_andThen [where J = "frozen b out"] frozen_on_loop [OF fz] keeps_unread_ops
        frozen_with_channel)
qed

lemma frozen_pending:
  assumes u: "quiet_user user" and fz: "frozen b out S"
  shows "yields UNIV (frozen b out) (conn_pending dbg ctl me user piece S)"
proof -
  let ?L = "(tloop S)\<lparr>callingPendingFunctors := True, pendingFunctors := []\<rparr>"
  have fz': "frozen b out (S\<lparr>tloop := ?L\<rparr>)"
    using fz by (simp add: frozen_def no_piece_def unread_def)
  have "f \<noteq> SendPiece d" if "f \<in> set (pendingFunctors (tloop S))" for f d
    using fz that by (auto simp: frozen_def no_piece_def)
  then have "yields UNIV (frozen b out)
      (foldRes (exec_conn dbg ctl me user piece) (pendingFunctors (tloop S)) (S\<lparr>tloop := ?L\<rparr>))"
    by (intro yields_foldRes [where I = "frozen b out", OF fz'] frozen_exec [OF u])
  then show ?thesis unfolding conn_pending_def swap_functors_def
    by (auto intro!: yields_andThen simp: frozen_def no_piece_def unread_def)
qed

section \<open>Pending output in a Release build\<close>

lemma sz_sub_sz_add:
  assumes "r \<le> 2 ^ 64"
  shows "sz_sub (sz_add w n) r = sz_add (sz_sub w r) n"
proof -
  obtain k where k: "(2 :: nat) ^ 64 = r + k" using assms le_Suc_ex by blast
  have "x + 2 ^ 64 - r = x + k" for x :: nat using k by simp
  then have "sz_sub (sz_add w n) r = ((w + n) mod 2 ^ 64 + k) mod 2 ^ 64"
    "sz_add (sz_sub w r) n = ((w + k) mod 2 ^ 64 + n) mod 2 ^ 64"
    unfolding sz_sub_def sz_add_def by simp_all
  moreover have "((w + n) mod 2 ^ 64 + k) mod 2 ^ 64 = ((w + k) mod 2 ^ 64 + n) mod (2 ^ 64 :: nat)"
    by (simp only: mod_add_left_eq) (simp add: ac_simps)
  ultimately show ?thesis by simp
qed

lemma append_release_readable:
  assumes r: "readIndex b \<le> 2 ^ 64" and h: "Buffer_append False d b = Inr b'"
  shows "readableBytes b' = sz_add (readableBytes b) (length d) \<and> readIndex b' \<le> 2 ^ 64"
proof -
  from h obtain b1 m where b1: "ensureWriteableBytes False (length d) b = Inr b1"
    and b': "b' = b1\<lparr>mem := m, writeIndex := sz_add (writeIndex b1) (length d)\<rparr>"
    by (auto simp: Buffer_append_def hasWritten_def res_simps)
  have "readableBytes b1 = readableBytes b \<and> readIndex b1 \<le> 2 ^ 64"
  proof (cases "b1 = b")
    case False
    then have ms: "makeSpace False (length d) b = Inr b1"
      using b1 by (auto simp: ensureWriteableBytes_def split: if_splits)
    have "readableBytes b < 2 ^ 64" by (simp add: readableBytes_def sz_sub_def)
    then have "sz_sub (sz_add 8 (readableBytes b)) 8 = readableBytes b"
      by (simp add: sz_sub_sz_add) (simp add: sz_add_def)
    then show ?thesis using ms r
      by (auto simp: makeSpace_def vector_reserve_def readableBytes_def kCheapPrepend_def Let_def
          res_simps split: if_splits)
  qed (use r in simp)
  then show ?thesis by (simp add: b' readableBytes_def sz_sub_sz_add)
qed

text \<open>The connection never asks for read events; \<open>waiting n out\<close>: at most \<open>n\<close> bytes wait.\<close>

definition conn_idle :: "'k tcp \<Rightarrow> bool" where
  "conn_idle S \<longleftrightarrow> frozen (outputBuffer S) (sock_out S) S \<and> readIndex (outputBuffer S) \<le> 2 ^ 64"

definition waiting :: "nat \<Rightarrow> byte list \<Rightarrow> 'k tcp \<Rightarrow> bool" where
  "waiting n out S \<longleftrightarrow> conn_idle S \<and> sock_out S = out \<and> 0 < readableBytes (outputBuffer S) \<and>
     readableBytes (outputBuffer S) \<le> n"

lemma frozen_idle:
  "frozen b out S \<Longrightarrow> readIndex b \<le> 2 ^ 64 \<Longrightarrow> conn_idle S \<and> outputBuffer S = b \<and> sock_out S = out"
  by (simp add: conn_idle_def frozen_def)

lemma idle_frozen: "conn_idle S \<Longrightarrow> frozen (outputBuffer S) (sock_out S) S"
  by (simp add: conn_idle_def)

lemma buffered_send:
  assumes fz: "frozen b out S" and r: "readIndex b \<le> 2 ^ 64"
    and h: "Buffer_append False d b = Inr b'"
  shows "yields UNIV (\<lambda>S'. conn_idle S' \<and> sock_out S' = out \<and>
      readableBytes (outputBuffer S') = sz_add (readableBytes b) (length d))
    (if w then on_loop (enableWriting False ctl me (tchan S)) (S\<lparr>outputBuffer := b'\<rparr>)
     else Inr (S\<lparr>outputBuffer := b'\<rparr>))"
proof -
  note a = append_release_readable [OF r h]
  have fz': "frozen b' out (S\<lparr>outputBuffer := b'\<rparr>)" using fz by (simp add: frozen_def no_piece_def)
  have "yields UNIV (frozen b' out)
      (if w then on_loop (enableWriting False ctl me (tchan S)) (S\<lparr>outputBuffer := b'\<rparr>)
       else Inr (S\<lparr>outputBuffer := b'\<rparr>))"
    using frozen_on_loop [OF fz', of "enableWriting False ctl me (tchan S)"] fz'
    by (simp add: keeps_unread_ops)
  then show ?thesis by (rule yields_mono) (use a frozen_idle in auto)
qed

lemma frozen_highwater:
  "frozen b out S \<Longrightarrow> frozen b out (if P then conn_queue me (HighWater n) S else S)"
  by (simp add: frozen_queue)

lemma buffer_rest_idle:
  assumes fz: "frozen b out S" and r: "readIndex b \<le> 2 ^ 64"
  shows "yields UNIV (\<lambda>S'. conn_idle S' \<and> sock_out S' = out \<and>
      readableBytes (outputBuffer S') = sz_add (readableBytes b) (length rest))
    (buffer_rest False ctl me w rest S)"
proof -
  have b: "outputBuffer S = b" using fz by (simp add: frozen_def)
  define S1 where "S1 = (if sz_add (readableBytes b) (length rest) \<ge> highWaterMark S \<and>
      readableBytes b < highWaterMark S \<and> hasHighWaterMarkCb S
    then conn_queue me (HighWater (sz_add (readableBytes b) (length rest))) S else S)"
  have S1: "frozen b out S1" unfolding S1_def by (rule frozen_highwater [OF fz])
  then have b1: "outputBuffer S1 = b" by (simp add: frozen_def)
  have eq: "buffer_rest False ctl me w rest S = andThen (Buffer_append False rest b) (\<lambda>b'.
      if \<not> w then on_loop (enableWriting False ctl me (tchan S1)) (S1\<lparr>outputBuffer := b'\<rparr>)
      else Inr (S1\<lparr>outputBuffer := b'\<rparr>))"
    unfolding buffer_rest_def b Let_def S1_def [symmetric] b1
    by (cases w) simp_all
  show ?thesis
  proof (cases "Buffer_append False rest b")
    case (Inr b')
    then show ?thesis using buffered_send [OF S1 r Inr, of "\<not> w" ctl me] by (simp add: eq)
  qed (simp add: eq)
qed

lemma sendInLoop_waiting:
  assumes w: "waiting n out S" and len: "n + length d < 2 ^ 64"
  shows "yields UNIV (waiting (n + length d) out) (sendInLoop False ctl me wr err d S)"
proof -
  let ?b = "outputBuffer S"
  have fz: "frozen ?b out S" and r: "readIndex ?b \<le> 2 ^ 64"
    and pos: "0 < readableBytes ?b" "readableBytes ?b \<le> n"
    using w by (auto simp: waiting_def conn_idle_def)
  have keep: "waiting (n + length d) out S" using w by (simp add: waiting_def)
  have "sz_add (readableBytes ?b) (length d) = readableBytes ?b + length d"
    using pos(2) len by (intro sz_add_small) linarith
  then have "yields UNIV (waiting (n + length d) out) (buffer_rest False ctl me wt d S)" for wt
    using yields_mono [OF buffer_rest_idle [OF fz r, of d ctl me wt]] pos by (simp add: waiting_def)
  then show ?thesis
    using pos(1) keep w
    by (simp add: sendInLoop_def Let_def frozen_in_loop frozen_with_channel)
qed

lemma idle_direct_write:
  assumes "frozen b out S"
  shows "\<exists>k m flt S1. direct_write me wr err d S = (k, m, flt, S1) \<and>
    frozen b (out @ take (nat wr) d) S1"
proof -
  have fz: "frozen b (out @ take (nat wr) d) (sock_write wr d S)"
    using assms by (simp add: sock_write_def frozen_def no_piece_def)
  then show ?thesis by (auto simp: direct_write_def Let_def frozen_queue)
qed

lemma sendInLoop_idle:
  assumes idle: "conn_idle S"
  shows "yields UNIV conn_idle (sendInLoop False ctl me wr err d S)"
proof -
  let ?b = "outputBuffer S"
  have fz: "frozen ?b (sock_out S) S" and r: "readIndex ?b \<le> 2 ^ 64"
    using idle by (simp_all add: conn_idle_def)
  have rest: "yields UNIV conn_idle (buffer_rest False ctl me w x S1)" if "frozen ?b out S1" for out S1 w x
    using yields_mono [OF buffer_rest_idle [OF that r, of x ctl me w]] by simp
  obtain k m flt S1 where dw: "direct_write me wr err d S = (k, m, flt, S1)"
    and S1: "frozen ?b (sock_out S @ take (nat wr) d) S1"
    using idle_direct_write [OF fz] by blast
  have "conn_idle S1" using frozen_idle [OF S1 r] by simp
  then show ?thesis
    using idle dw rest [OF fz] rest [OF S1]
    by (simp add: sendInLoop_def Let_def frozen_in_loop frozen_with_channel)
qed

lemma conn_step_frozen:
  assumes u: "quiet_user user" and fz: "frozen b out S" and op: "\<And>d wr err. op \<noteq> OSend d wr err"
  shows "yields UNIV (frozen b out) (conn_step False ctl me user piece op S)"
proof (cases op)
  case OEstablish
  then show ?thesis using fz
    by (auto simp: connectEstablished_def Let_def intro!: frozen_intros)
next
  case ODestroy
  then show ?thesis using fz u
    by (auto simp: connectDestory_def intro!: frozen_intros yields_andThen [where J = "frozen b out"])
next
  case (OEvent ev t r n)
  then show ?thesis using frozen_event [OF u fz] by simp
next
  case OPending
  then show ?thesis using frozen_pending [OF u fz] by simp
qed (use fz op in \<open>auto simp: TcpConnection_shutdown_def shutdownInLoop_def forceClose_def
    forceCloseWithDealy_def startRead_outcome stopRead_def stopReadInLoop_def Let_def intro!: frozen_intros\<close>)

lemma conn_step_idle:
  assumes u: "quiet_user user" and idle: "conn_idle S"
  shows "yields UNIV conn_idle (conn_step False ctl me user piece op S)"
proof (cases "\<exists>d wr err. op = OSend d wr err")
  case True
  then show ?thesis using sendInLoop_idle [OF idle] idle by auto
next
  case False
  moreover have "conn_idle s" if "frozen (outputBuffer S) (sock_out S) s" for s
    using frozen_idle [OF that] idle unfolding conn_idle_def by blast
  ultimately show ?thesis
    by (intro yields_mono [OF conn_step_frozen [OF u idle_frozen [OF idle]]]) auto
qed

fun op_bytes :: "conn_op \<Rightarrow> nat" where
  "op_bytes (OSend d wr err) = length d"
| "op_bytes _ = 0"

lemma conn_step_waiting:
  assumes u: "quiet_user user" and w: "waiting n out S" and len: "n + op_bytes op < 2 ^ 64"
  shows "yields UNIV (waiting (n + op_bytes op) out) (conn_step False ctl me user piece op S)"
proof (cases "\<exists>d wr err. op = OSend d wr err")
  case True
  then show ?thesis using sendInLoop_waiting [OF w] w len by (auto simp: waiting_def)
next
  case False
  then have "op_bytes op = 0" by (cases op) auto
  moreover have "frozen (outputBuffer S) out S" "readIndex (outputBuffer S) \<le> 2 ^ 64"
    using w by (auto simp: waiting_def conn_idle_def)
  moreover have "waiting n out s" if "frozen (outputBuffer S) out s" "readIndex (outputBuffer S) \<le> 2 ^ 64" for s
    using w frozen_idle [OF that] by (simp add: waiting_def)
  ultimately show ?thesis using False
    by (intro yields_mono [OF conn_step_frozen [OF u, of "outputBuffer S" out S]]) auto
qed

lemma conn_run_waiting:
  assumes u: "quiet_user user"
  shows "waiting n out S \<Longrightarrow> n + sum_list (map op_bytes ops) < 2 ^ 64 \<Longrightarrow>
    yields UNIV (waiting (n + sum_list (map op_bytes ops)) out)
      (foldRes (conn_step False ctl me user piece) ops S)"
proof (induction ops arbitrary: n S)
  case (Cons op ops)
  have "yields UNIV (waiting (n + op_bytes op) out) (conn_step False ctl me user piece op S)"
    using conn_step_waiting [OF u Cons.prems(1)] Cons.prems(2) by simp
  then show ?case using Cons.IH [of "n + op_bytes op"] Cons.prems(2)
    by (auto intro!: yields_andThen simp: add.assoc)
qed simp

section \<open>States and the first send\<close>

fun state_rank :: "StateE \<Rightarrow> nat" where
  "state_rank KConnecting = 0"
| "state_rank KConnected = 1"
| "state_rank KDisConnecting = 2"
| "state_rank KDisconnected = 3"

definition past :: "nat \<Rightarrow> 'k tcp \<Rightarrow> bool" where
  "past n S \<longleftrightarrow> n \<le> state_rank (tstate S)"

lemma past_simps [simp]:
  "past n (S\<lparr>tloop := L\<rparr>) = past n S" "past n (S\<lparr>inputBuffer := b\<rparr>) = past n S"
  "past n (S\<lparr>outputBuffer := b\<rparr>) = past n S" "past n (S\<lparr>treading := r\<rparr>) = past n S"
  "past n (S\<lparr>sock_shut := sh\<rparr>) = past n S" "past n (S\<lparr>sock_out := o'\<rparr>) = past n S"
  "past n (S\<lparr>delayed_closes := dc\<rparr>) = past n S" "past n (conn_queue me f S) = past n S"
  "past n (sock_write k d S) = past n S"
  by (simp_all add: past_def conn_queue_def sock_write_def)

lemma past_state:
  "past n (S\<lparr>tstate := KDisconnected\<rparr>) \<longleftrightarrow> n \<le> 3"
  "past n (S\<lparr>tstate := KDisConnecting\<rparr>) \<longleftrightarrow> n \<le> 2"
  by (simp_all add: past_def)

lemma past_bound: "past n S \<Longrightarrow> n \<le> 3"
  by (cases "tstate S") (simp_all add: past_def)

text \<open>Callbacks that never lead a connection back to an earlier state.\<close>

definition forward_user :: "'k user \<Rightarrow> bool" where
  "forward_user user \<longleftrightarrow> (\<forall>c n S. past n S \<longrightarrow> yields UNIV (past n) (user c S))"

lemma past_on_loop: "past n S \<Longrightarrow> yields UNIV (past n) (on_loop f S)"
  by (cases "f (tloop S)") (simp_all add: on_loop_def)

lemma past_invoke: "forward_user user \<Longrightarrow> past n S \<Longrightarrow> yields UNIV (past n) (invoke isset c user S)"
  by (auto simp: invoke_def forward_user_def)

lemmas past_intros = frozen_in_loop frozen_with_channel yields_cassert past_on_loop past_invoke

lemma past_handleClose:
  "forward_user user \<Longrightarrow> past n S \<Longrightarrow> yields UNIV (past n) (handleClose dbg ctl me user S)"
  unfolding handleClose_def using past_bound [of n S]
  by (auto intro!: past_intros yields_andThen [where J = "past n"] simp: past_state)

lemma past_handleRead:
  "forward_user user \<Longrightarrow> past n S \<Longrightarrow>
   yields UNIV (past n) (TcpConnection_handleRead dbg ctl me user t r S)"
  unfolding TcpConnection_handleRead_def
  by (cases "readFd dbg r (inputBuffer S)")
    (auto intro!: past_intros past_handleClose simp: handleError_def Let_def)

lemma past_shutdownInLoop: "past n S \<Longrightarrow> yields UNIV (past n) (shutdownInLoop me S)"
  unfolding shutdownInLoop_def by (auto intro!: past_intros)

lemma past_on_loop_then:
  "past n S \<Longrightarrow> (\<And>S'. past n S' \<Longrightarrow> yields UNIV (past n) (k S')) \<Longrightarrow>
   yields UNIV (past n) (andThen (on_loop f S) k)"
  by (rule yields_andThen [OF past_on_loop])

lemma yields_any: "(\<And>s. yields UNIV I (k s)) \<Longrightarrow> yields UNIV I (andThen m k)"
  by (cases m) simp_all

lemmas buffer_steps = yields_any [where m = "read_at a b c" for a b c]
  yields_any [where m = "retrive dbg k b" for dbg k b]
  yields_any [where m = "Buffer_append dbg d b" for dbg d b]

lemma past_handleWrite: "past n S \<Longrightarrow> yields UNIV (past n) (handleWrite dbg ctl me k S)"
  unfolding handleWrite_def
  by (auto intro!: past_intros past_shutdownInLoop past_on_loop_then buffer_steps simp: Let_def)

lemma past_buffer_rest: "past n S \<Longrightarrow> yields UNIV (past n) (buffer_rest dbg ctl me w x S)"
  unfolding buffer_rest_def Let_def
  by (auto intro!: past_intros buffer_steps)

lemma past_sendInLoop: "past n S \<Longrightarrow> yields UNIV (past n) (sendInLoop dbg ctl me wr err d S)"
  unfolding sendInLoop_def
  by (auto intro!: past_intros past_buffer_rest simp: direct_write_def Let_def split: prod.splits if_splits)

lemma past_exec:
  assumes "forward_user user" "\<And>d n S. past n S \<Longrightarrow> yields UNIV (past n) (piece d S)" "past n S"
  shows "yields UNIV (past n) (exec_conn dbg ctl me user piece f S)"
proof -
  have "yields UNIV (past n) (case startRead me S of None \<Rightarrow> Inl Diverges | Some S' \<Rightarrow> Inr S')"
    using assms(3) by (simp add: startRead_outcome)
  then show ?thesis using assms
    by (cases f) (auto simp: forceCloseInLoop_def stopReadInLoop_def forward_user_def
        intro!: past_intros past_handleClose past_shutdownInLoop)
qed

lemma conn_step_past:
  assumes u: "forward_user user" and p: "\<And>d n S. past n S \<Longrightarrow> yields UNIV (past n) (piece d S)"
    and op: "op \<noteq> OEstablish" and S: "past n S"
  shows "yields UNIV (past n) (conn_step dbg ctl me user piece op S)"
proof (cases op)
  case ODestroy
  then show ?thesis using S u past_bound [OF S]
    by (auto simp: connectDestory_def past_state
        intro!: past_intros yields_andThen [where J = "past n"])
next
  case (OSend d wr err)
  then show ?thesis using S past_sendInLoop [OF S] by auto
next
  case (OEvent ev t r k)
  have "yields UNIV (past n) (exec_action dbg ctl me user r k a S')" if "past n S'" for a S'
    using past_handleClose [OF u that] past_handleRead [OF u that] past_handleWrite [OF that] that
    by (cases a) (auto simp: handleError_def intro!: frozen_with_channel past_intros)
  then have "yields UNIV (past n) (foldRes (exec_action dbg ctl me user r k) acts S')"
    if "past n S'" for acts S'
    using that by (intro yields_foldRes [where I = "past n"]) auto
  then show ?thesis using OEvent S by (auto simp: conn_event_def intro!: past_on_loop_then past_intros)
next
  case OPending
  have "yields UNIV (past n) (foldRes (exec_conn dbg ctl me user piece) fs (S\<lparr>tloop := L\<rparr>))" for fs L
    using S by (intro yields_foldRes [where I = "past n"] past_exec [OF u p]) auto
  then show ?thesis using OPending
    by (auto simp: conn_pending_def swap_functors_def intro!: yields_andThen [where J = "past n"])
next
  case OShutdown
  have "past n (S\<lparr>tstate := KDisConnecting\<rparr>)" if "tstate S = KConnected"
    using S that by (simp add: past_def)
  then show ?thesis using S OShutdown
    by (auto simp: TcpConnection_shutdown_def Let_def simp del: past_simps(1) intro!: past_shutdownInLoop)
next
  case OForceClose
  then show ?thesis using S by (auto simp: forceClose_def) (auto simp: past_def)
next
  case (OForceCloseDelay t)
  then show ?thesis using S by (auto simp: forceCloseWithDealy_def past_def)
next
  case OStartRead
  then show ?thesis using S by (simp add: startRead_outcome)
next
  case OStopRead
  then show ?thesis using S by (auto simp: stopRead_def stopReadInLoop_def intro!: past_intros)
qed (use op in simp)

text \<open>A kernel call that succeeds lets a Release build enable writing.\<close>

lemma enableWriting_release:
  assumes "chans L cid = Some ch" "threadId L = me" "\<And>k op fd p e. fst (ctl k op fd p e)"
  shows "\<exists>L'. enableWriting False ctl me cid L = Inr L' \<and> pendingFunctors L' = pendingFunctors L"
proof -
  have ok: "\<exists>k'. ctl k op fd p e = (True, k')" for k op fd p e
    using assms(3) [of k op fd p e] by (cases "ctl k op fd p e") auto
  have "\<exists>ch' p'. EPollPoller_updateChannel False ctl cid c p = Inr (ch', p')" for c p
  proof -
    have "\<exists>p'. EPollPoller_update ctl op cid c p = Inr p'" for op c p
      using ok [of "kern p" op "ch_fd c" cid "ch_events c"] by (auto simp: EPollPoller_update_def)
    then have "\<exists>y. andThen (EPollPoller_update ctl op cid c p) (\<lambda>p'. Inr (c, p')) = Inr y" for op c p
      by (metis andThen.simps(2))
    then show ?thesis by (auto simp: EPollPoller_updateChannel_def Let_def)
  qed
  then obtain ch' p' where u: "EPollPoller_updateChannel False ctl cid
      ((set_writing ch)\<lparr>addToLoop := True\<rparr>) (loop_poller L) = Inr (ch', p')" by blast
  show ?thesis using assms(1,2) u
    by (simp add: enableWriting_def Channel_update_def EventLoop_updateChannel_def
        assertInLoopThread_def isInLoopThread_def modify_channel_def)
qed

section \<open>Properties\<close>

text \<open>C2: Release build: once a connection has bytes waiting in its output buffer, no byte ever
  reaches the socket again, whatever events, sends, timers and pending functors follow (unless
  \<open>2 ^ 64\<close> bytes are sent or a callback itself sends): \<open>handleWrite\<close> asks \<open>isWriting\<close>, which
  tests the read bits, and nothing ever sets those.\<close>

theorem connection_stalls_after_partial_write:
  assumes "quiet_user user" and "conn_idle S0"
    and "foldRes (conn_step False ctl me user piece) ops1 S0 = Inr S"
    and "0 < readableBytes (outputBuffer S)"
    and "readableBytes (outputBuffer S) + sum_list (map op_bytes ops2) < 2 ^ 64"
    and "foldRes (conn_step False ctl me user piece) ops2 S = Inr S'"
  shows "sock_out S' = sock_out S \<and> 0 < readableBytes (outputBuffer S')"
proof -
  have "yields UNIV conn_idle (foldRes (conn_step False ctl me user piece) ops1 S0)"
    using assms(2) conn_step_idle [OF assms(1)] by (intro yields_foldRes [where I = conn_idle])
  then have "waiting (readableBytes (outputBuffer S)) (sock_out S) S"
    using assms(3,4) by (simp add: waiting_def)
  from conn_run_waiting [OF assms(1) this assms(5), of ctl me piece] assms(6)
  show ?thesis by (simp add: waiting_def)
qed

text \<open>A connected connection on a loop of thread 1, with a user whose callbacks do nothing.\<close>

definition idle_user :: "'k user" where
  "idle_user c S = Inr S"

definition always_ok :: "unit epoll_ctl" where
  "always_ok k op fd p e = (True, k)"

definition demo_conn :: "unit tcp" where
  "demo_conn = \<lparr>tloop = \<lparr>looping = True, quit_flag = False, loop_eventHandling = False,
       callingPendingFunctors = False, iteration = 0, threadId = 1,
       loop_poller = empty_poller 16 (), chans = (\<lambda>_. None)(5 := Some ((Channel_ctor 9)\<lparr>writeCallback := True\<rparr>)),
       wakeupFd = 0, activeChannels = [], currentActiveChannel = None, pendingFunctors = [], pollReturnTime = 0,
     loop_context = None\<rparr>,
     tname = ''c'', tsocket = 9, localAddress = [], peerAddress = [], tstate = KConnected, treading = True, tchan = 5, hasConnectionCb = True, hasMessageCb = True,
     hasWriteCompleteCb = True, hasHighWaterMarkCb = True, hasCloseCb = True, highWaterMark = 3,
     inputBuffer = demo_buf, outputBuffer = demo_buf, delayed_closes = [], sock_out = [],
     sock_shut = False, sock_opts = [], tcontext = None\<rparr>"

lemma demo_idle: "conn_idle (demo_conn\<lparr>outputBuffer := b\<rparr>) \<longleftrightarrow> readIndex b \<le> 2 ^ 64"
  by (simp add: conn_idle_def frozen_def no_piece_def unread_def demo_conn_def Channel_ctor_def)

theorem connection_stalls_after_partial_write_witness:
  "\<exists>S'. foldRes (conn_step False always_ok 1 idle_user (\<lambda>d S. Inr S)) [OEvent 4 7 (Inl 11) 2]
     (demo_conn\<lparr>outputBuffer := demo_buf\<lparr>writeIndex := 10\<rparr>\<rparr>) = Inr S' \<and> sock_out S' = []"
proof -
  let ?S = "demo_conn\<lparr>outputBuffer := demo_buf\<lparr>writeIndex := 10\<rparr>\<rparr>"
  let ?run = "foldRes (conn_step False always_ok 1 idle_user (\<lambda>d S. Inr S)) [OEvent 4 7 (Inl 11) 2] ?S"
  have i: "conn_idle ?S" unfolding demo_idle by (simp add: demo_buf_def)
  have r: "readableBytes (outputBuffer ?S) = 2"
    by (simp add: readableBytes_def demo_buf_def sz_sub_def)
  have q: "quiet_user idle_user" by (simp add: quiet_user_def idle_user_def)
  have "?run \<noteq> Inl e" for e
    by (simp add: conn_event_def on_loop_def modify_channel_def demo_conn_def with_channel_def
        handleEvent_def handleEventWithGuard_def set_eventHandling_def Channel_ctor_def setRevents_def poll_bits Let_def
        handleWrite_def conn_in_loop_def assertInLoopThread_def isInLoopThread_def isWriting_def)
  then obtain S' where S': "?run = Inr S'" by (cases ?run) auto
  have p: "foldRes (conn_step False always_ok 1 idle_user (\<lambda>d S. Inr S)) [] ?S = Inr ?S"
    "0 < readableBytes (outputBuffer ?S)"
    "readableBytes (outputBuffer ?S) + sum_list (map op_bytes [OEvent 4 7 (Inl 11) 2]) < 2 ^ 64"
    using r by simp_all
  from q i p S' have "sock_out S' = sock_out ?S \<and> 0 < readableBytes (outputBuffer S')"
    by (rule connection_stalls_after_partial_write)
  then have "sock_out S' = []" by (simp add: demo_conn_def)
  with S' show ?thesis by (intro exI conjI)
qed

lemma buffer_rest_first:
  assumes "threadId (tloop S) = me" and "chans (tloop S) (tchan S) = Some ch"
    and "buf_ok (outputBuffer S)" and "content (outputBuffer S) = []"
    and "length d \<le> storage_room (outputBuffer S)" and "length d < 2 ^ 64"
    and "\<And>k op fd p e. fst (ctl k op fd p e)" and "d \<noteq> []"
  obtains S' where "buffer_rest False ctl me False d S = Inr S'" "sock_out S' = sock_out S"
    "content (outputBuffer S') = d"
    "set (pendingFunctors (tloop S')) = set (pendingFunctors (tloop S)) \<union>
      (if highWaterMark S \<le> length d \<and> 0 < highWaterMark S \<and> hasHighWaterMarkCb S
       then {HighWater (length d)} else {})"
proof -
  let ?b = "outputBuffer S"
  define S1 where "S1 = (if length d \<ge> highWaterMark S \<and> 0 < highWaterMark S \<and> hasHighWaterMarkCb S
    then conn_queue me (HighWater (length d)) S else S)"
  have r0: "readableBytes ?b = 0" using assms(3,4) length_content by fastforce
  have big: "sz_add 0 (length d) = length d" using assms(6) by (simp add: sz_add_def)
  have S1: "outputBuffer S1 = ?b" "tchan S1 = tchan S" "sock_out S1 = sock_out S"
    "chans (tloop S1) = chans (tloop S)" "threadId (tloop S1) = me"
    using assms(1) by (auto simp: S1_def conn_queue_def queueInLoop_def queue_push_def wakeup_def Let_def)
  obtain b' where b': "Buffer_append False d ?b = Inr b'" "content b' = d"
    using append_spec [OF assms(3), of d False] assms(4,5) by auto
  obtain L' where L': "enableWriting False ctl me (tchan S) (tloop S1) = Inr L'"
    "pendingFunctors L' = pendingFunctors (tloop S1)"
    using enableWriting_release [of "tloop S1" "tchan S" ch me ctl] S1 assms(2,7) by auto
  have "buffer_rest False ctl me False d S = Inr (S1\<lparr>outputBuffer := b', tloop := L'\<rparr>)"
    unfolding buffer_rest_def Let_def r0 big S1_def [symmetric] S1(1)
    using b'(1) L'(1) S1(2) assms(8) by (simp add: on_loop_def)
  then show thesis
    by (rule that) (use b'(2) L'(2) S1(3) in \<open>auto simp: S1_def conn_queue_def\<close>)
qed



text \<open>C22: Either build: apart from \<open>connectEstablished\<close>, no call, event or functor leads a
  connection back to an earlier state; a disconnected connection stays disconnected.\<close>

theorem connection_state_moves_forward:
  fixes S :: "'k tcp"
  assumes "forward_user user" and "\<And>d n S. past n S \<Longrightarrow> yields UNIV (past n) (piece d S)"
    and "OEstablish \<notin> set ops" and "foldRes (conn_step dbg ctl me user piece) ops S = Inr S'"
  shows "state_rank (tstate S) \<le> state_rank (tstate S') \<and>
    (tstate S = KDisconnected \<longrightarrow> tstate S' = KDisconnected)"
proof -
  have "yields UNIV (past (state_rank (tstate S))) (foldRes (conn_step dbg ctl me user piece) ops S)"
  proof (rule yields_foldRes [where I = "past (state_rank (tstate S))"])
    fix op and T :: "'k tcp"
    assume "op \<in> set ops" and T: "past (state_rank (tstate S)) T"
    then have "op \<noteq> OEstablish" using assms(3) by auto
    then show "yields UNIV (past (state_rank (tstate S))) (conn_step dbg ctl me user piece op T)"
      by (intro conn_step_past assms(1) assms(2) T) assumption+
  qed (simp add: past_def)
  with assms(4) have "state_rank (tstate S) \<le> state_rank (tstate S')" by (simp add: past_def)
  then show ?thesis by (cases "tstate S'") auto
qed

theorem connection_state_moves_forward_witness:
  "\<exists>S'. foldRes (conn_step True always_ok 1 idle_user (\<lambda>d S. Inr S)) [OShutdown, OForceClose] demo_conn =
     Inr S' \<and> 1 \<le> state_rank (tstate S') \<and> tstate S' = KDisConnecting"
proof -
  let ?S = "conn_queue 1 ForceCloseInLoop (demo_conn\<lparr>tstate := KDisConnecting, sock_shut := True\<rparr>)"
  have run: "foldRes (conn_step True always_ok 1 idle_user (\<lambda>d S. Inr S)) [OShutdown, OForceClose] demo_conn = Inr ?S"
    by (simp add: demo_conn_def TcpConnection_shutdown_def shutdownInLoop_def conn_in_loop_def
        assertInLoopThread_def isInLoopThread_def with_channel_def chan_defs forceClose_def)
  have u: "forward_user idle_user" by (simp add: forward_user_def idle_user_def)
  have p: "past n S \<Longrightarrow> yields UNIV (past n) (Inr S)" for n and S :: "unit tcp" by simp
  have "state_rank (tstate demo_conn) \<le> state_rank (tstate ?S) \<and>
      (tstate demo_conn = KDisconnected \<longrightarrow> tstate ?S = KDisconnected)"
    by (rule connection_state_moves_forward [OF u p _ run]) simp_all
  then have "1 \<le> state_rank (tstate ?S)" by (simp add: demo_conn_def)
  moreover have "tstate ?S = KDisConnecting" by (simp add: conn_queue_def)
  ultimately show ?thesis using run by blast
qed

text \<open>\<open>startRead\<close> called in the loop thread never returns; from another thread it only
  queues a functor that does not return either.\<close>

theorem startRead_never_returns:
  "startRead me S = (if isInLoopThread me (tloop S) then None else Some (conn_queue me StartRead S)) \<and>
   (isInLoopThread you (tloop S) \<longrightarrow> exec_conn dbg ctl you user piece StartRead S = Inl Diverges)"
  by (simp add: startRead_outcome)

theorem startRead_never_returns_witness:
  "exec_conn True always_ok 1 idle_user (\<lambda>d S. Inr S) StartRead demo_conn = Inl Diverges"
  using startRead_never_returns [of 1 demo_conn 1 True always_ok idle_user "\<lambda>d S. Inr S"]
  by (simp add: isInLoopThread_def demo_conn_def)

end
