(* ===== verification/Net_ConnectionLoop.thy ===== *)
theory Net_ConnectionLoop
  imports Net_TcpConnection
begin

unbundle bit_operations_syntax

text \<open>
  The interface between a connection and its loop. Everything a connection asks of its loop is one
  of the requests below or a change of the queue of functors; so what these keep, every run of the
  connection keeps (the locale \<open>loop_invariant\<close>). Its interpretation shows what the kernel is ever
  asked to report for the socket of a connection.
\<close>

datatype loop_req = ReqWriting | ReqNoWriting | ReqNoReading | ReqNothing | ReqRemove | ReqTie | ReqRevents "32 word" | ReqHandling bool

fun do_req ::
    "bool \<Rightarrow> 'k epoll_ctl \<Rightarrow> int \<Rightarrow> nat \<Rightarrow> loop_req \<Rightarrow> ('k, 'f) evloop \<Rightarrow> ('k, 'f) evloop res" where
  "do_req dbg ctl me cid ReqWriting = enableWriting dbg ctl me cid"
| "do_req dbg ctl me cid ReqNoWriting = disableWriting dbg ctl me cid"
| "do_req dbg ctl me cid ReqNoReading = disableReading dbg ctl me cid"
| "do_req dbg ctl me cid ReqNothing = disAbleAll dbg ctl me cid"
| "do_req dbg ctl me cid ReqRemove = Channel_remove dbg ctl me cid"
| "do_req dbg ctl me cid ReqTie = modify_channel Channel_tie cid"
| "do_req dbg ctl me cid (ReqRevents ev) = modify_channel (setRevents ev) cid"
| "do_req dbg ctl me cid (ReqHandling b) = modify_channel (set_eventHandling b) cid"

definition conn_on :: "(('k, conn_functor) evloop \<Rightarrow> bool) \<Rightarrow> nat \<Rightarrow> 'k tcp \<Rightarrow> bool" where
  "conn_on J cid S \<longleftrightarrow> tchan S = cid \<and> J (tloop S)"

text \<open>Code of the user that keeps \<open>J\<close>, and code bound to the undefined \<open>sendInLoop\<close>.\<close>

definition user_keeps ::
    "(('k, conn_functor) evloop \<Rightarrow> bool) \<Rightarrow> nat \<Rightarrow> 'k user \<Rightarrow> (byte list \<Rightarrow> 'k tcp \<Rightarrow> 'k tcp res) \<Rightarrow> bool" where
  "user_keeps J cid user piece \<longleftrightarrow>
     (\<forall>c S. conn_on J cid S \<longrightarrow> yields UNIV (conn_on J cid) (user c S)) \<and>
     (\<forall>d S. conn_on J cid S \<longrightarrow> yields UNIV (conn_on J cid) (piece d S))"

lemma conn_on_simps [simp]:
  "conn_on J cid (S\<lparr>tstate := st\<rparr>) = conn_on J cid S"
  "conn_on J cid (S\<lparr>inputBuffer := ib\<rparr>) = conn_on J cid S"
  "conn_on J cid (S\<lparr>outputBuffer := ob\<rparr>) = conn_on J cid S"
  "conn_on J cid (S\<lparr>treading := rd\<rparr>) = conn_on J cid S"
  "conn_on J cid (S\<lparr>sock_shut := sh\<rparr>) = conn_on J cid S"
  "conn_on J cid (S\<lparr>sock_out := so\<rparr>) = conn_on J cid S"
  "conn_on J cid (S\<lparr>delayed_closes := dc\<rparr>) = conn_on J cid S"
  by (simp_all add: conn_on_def)

lemmas yields_steps = frozen_in_loop frozen_with_channel yields_cassert

locale loop_invariant =
  fixes J :: "('k, conn_functor) evloop \<Rightarrow> bool"
    and dbg :: bool and ctl :: "'k epoll_ctl" and me :: int and cid :: nat
  assumes req: "J L \<Longrightarrow> do_req dbg ctl me cid q L = Inr L' \<Longrightarrow> J L'"
    and queue: "J L \<Longrightarrow> J (L\<lparr>pendingFunctors := fs\<rparr>)"
    and wake: "J L \<Longrightarrow> J (L\<lparr>wakeupFd := n\<rparr>)"
    and calling: "J L \<Longrightarrow> J (L\<lparr>callingPendingFunctors := b\<rparr>)"
begin

lemma on_loop_keeps:
  assumes "conn_on J cid S" "c = tchan S" "f = do_req dbg ctl me c q"
  shows "yields UNIV (conn_on J cid) (on_loop f S)"
  using assms req [of "tloop S" q] by (cases "f (tloop S)") (auto simp: on_loop_def conn_on_def)

lemma conn_queue_keeps: "conn_on J cid S \<Longrightarrow> conn_on J cid (conn_queue me' f S)"
proof -
  assume S: "conn_on J cid S"
  have "J (queue_push f (tloop S))" using S by (simp add: conn_on_def queue_push_def queue)
  then show ?thesis using S wake by (simp add: conn_on_def conn_queue_def queueInLoop_def wakeup_def Let_def)
qed

lemmas requests = on_loop_keeps [OF _ _ do_req.simps(1) [symmetric]] on_loop_keeps [OF _ _ do_req.simps(2) [symmetric]]
  on_loop_keeps [OF _ _ do_req.simps(3) [symmetric]] on_loop_keeps [OF _ _ do_req.simps(4) [symmetric]]
  on_loop_keeps [OF _ _ do_req.simps(5) [symmetric]] on_loop_keeps [OF _ _ do_req.simps(6) [symmetric]]
  on_loop_keeps [OF _ _ do_req.simps(7) [symmetric]] on_loop_keeps [OF _ _ do_req.simps(8) [symmetric]]

lemma invoke_keeps:
  "user_keeps J cid user piece \<Longrightarrow> conn_on J cid S \<Longrightarrow> yields UNIV (conn_on J cid) (invoke isset c user S)"
  by (auto simp: invoke_def user_keeps_def)

lemma handleClose_keeps:
  "user_keeps J cid user piece \<Longrightarrow> conn_on J cid S \<Longrightarrow>
    yields UNIV (conn_on J cid) (handleClose dbg ctl me user S)"
  unfolding handleClose_def
  by (auto intro!: yields_steps requests invoke_keeps yields_andThen [where J = "conn_on J cid"])

lemma handleRead_keeps:
  "user_keeps J cid user piece \<Longrightarrow> conn_on J cid S \<Longrightarrow>
    yields UNIV (conn_on J cid) (TcpConnection_handleRead dbg ctl me user t r S)"
  unfolding TcpConnection_handleRead_def
  by (cases "readFd dbg r (inputBuffer S)")
    (auto intro!: yields_steps invoke_keeps handleClose_keeps simp: handleError_def Let_def)

lemma shutdownInLoop_keeps: "conn_on J cid S \<Longrightarrow> yields UNIV (conn_on J cid) (shutdownInLoop me' S)"
  by (auto simp: shutdownInLoop_def intro!: yields_steps)

lemma handleWrite_keeps:
  assumes "conn_on J cid S"
  shows "yields UNIV (conn_on J cid) (handleWrite dbg ctl me n S)"
proof -
  define tail where "tail U = andThen (on_loop (disableWriting dbg ctl me (tchan U)) U) (\<lambda>S2.
        let S3 = (if hasWriteCompleteCb S2 then conn_queue me WriteCompleteMember S2 else S2) in
        if tstate S3 = KDisConnecting then shutdownInLoop me S3 else Inr S3)" for U
  have tail: "yields UNIV (conn_on J cid) (tail U)" if "conn_on J cid U" for U
    unfolding tail_def using requests(2) [OF that refl]
    by (rule yields_andThen) (simp add: Let_def conn_queue_keeps shutdownInLoop_keeps)
  have w: "conn_on J cid (sock_write n d S)" for d using assms by (simp add: sock_write_def)
  have "yields UNIV (conn_on J cid)
      (andThen (retrive dbg (nat n) (outputBuffer (sock_write n d S))) (\<lambda>b.
        let S1 = (sock_write n d S)\<lparr>outputBuffer := b\<rparr> in
        if readableBytes b = 0 then tail S1 else Inr S1))" for d
    using w [of d] tail
    by (cases "retrive dbg (nat n) (outputBuffer (sock_write n d S))") (simp_all add: Let_def)
  then show ?thesis unfolding handleWrite_def tail_def [symmetric]
    using assms by (cases "read_at (mem (outputBuffer S)) (peek (outputBuffer S)) (readableBytes (outputBuffer S))")
      (auto simp: Let_def intro!: yields_steps)
qed

lemma buffer_rest_keeps:
  assumes "conn_on J cid S"
  shows "yields UNIV (conn_on J cid) (buffer_rest dbg ctl me w rest S)"
proof -
  define S1 where "S1 = (if sz_add (readableBytes (outputBuffer S)) (length rest) \<ge> highWaterMark S \<and>
      readableBytes (outputBuffer S) < highWaterMark S \<and> hasHighWaterMarkCb S
    then conn_queue me (HighWater (sz_add (readableBytes (outputBuffer S)) (length rest))) S else S)"
  have S1: "conn_on J cid S1" unfolding S1_def using assms by (simp add: conn_queue_keeps)
  show ?thesis
    unfolding buffer_rest_def Let_def S1_def [symmetric]
    using S1 by (cases "Buffer_append dbg rest (outputBuffer S1)") (auto intro!: requests)
qed

lemma sendInLoop_keeps:
  assumes "conn_on J cid S"
  shows "yields UNIV (conn_on J cid) (sendInLoop dbg ctl me wr err d S)"
proof -
  obtain k m flt S1 where dw: "direct_write me wr err d S = (k, m, flt, S1)" and S1: "conn_on J cid S1"
    using assms by (cases "direct_write me wr err d S")
      (auto simp: direct_write_def sock_write_def Let_def conn_queue_keeps split: if_splits)
  show ?thesis
    using assms S1 unfolding sendInLoop_def
    by (auto simp: dw Let_def intro!: yields_steps buffer_rest_keeps)
qed

lemma exec_conn_keeps:
  assumes "user_keeps J cid user piece" "conn_on J cid S"
  shows "yields UNIV (conn_on J cid) (exec_conn dbg ctl me user piece f S)"
  using assms
  by (cases f) (auto simp: forceCloseInLoop_def stopReadInLoop_def user_keeps_def startRead_outcome
    intro!: yields_steps requests handleClose_keeps shutdownInLoop_keeps conn_queue_keeps)

lemma conn_pending_keeps:
  assumes "user_keeps J cid user piece" "conn_on J cid S"
  shows "yields UNIV (conn_on J cid) (conn_pending dbg ctl me user piece S)"
proof -
  have "conn_on J cid (S\<lparr>tloop := snd (swap_functors (tloop S))\<rparr>)"
    using assms(2) queue [OF calling] by (simp add: conn_on_def swap_functors_def)
  then have "yields UNIV (conn_on J cid) (foldRes (exec_conn dbg ctl me user piece) fs
      (S\<lparr>tloop := snd (swap_functors (tloop S))\<rparr>))" for fs
    by (intro yields_foldRes [where I = "conn_on J cid"] exec_conn_keeps [OF assms(1)])
  then show ?thesis unfolding conn_pending_def
    by (auto intro!: yields_andThen [where J = "conn_on J cid"] simp: conn_on_def calling case_prod_beta)
qed

lemma conn_event_keeps:
  assumes "user_keeps J cid user piece" "conn_on J cid S"
  shows "yields UNIV (conn_on J cid) (conn_event dbg ctl me user ev t r n S)"
proof -
  have "yields UNIV (conn_on J cid) (exec_action dbg ctl me user r n a S')" if "conn_on J cid S'" for a S'
    using handleClose_keeps [OF assms(1) that] handleRead_keeps [OF assms(1) that] handleWrite_keeps [OF that] that
    by (cases a) (auto simp: handleError_def intro!: yields_steps requests)
  then have "yields UNIV (conn_on J cid) (foldRes (exec_action dbg ctl me user r n) acts S')"
    if "conn_on J cid S'" for acts S'
    using that by (intro yields_foldRes [where I = "conn_on J cid"]) auto
  then show ?thesis unfolding conn_event_def
    by (intro yields_andThen [where J = "conn_on J cid"] requests(7) [OF assms(2) refl] frozen_with_channel)
qed

lemma conn_step_keeps:
  assumes "user_keeps J cid user piece" "conn_on J cid S"
  shows "yields UNIV (conn_on J cid) (conn_step dbg ctl me user piece op S)"
proof (cases op)
  case OEstablish
  then show ?thesis using assms(2)
    by (auto simp: connectEstablished_def Let_def intro!: yields_steps requests(6))
next
  case ODestroy
  then show ?thesis using assms
    by (auto simp: connectDestory_def intro!: yields_steps requests invoke_keeps [OF assms(1)]
      yields_andThen [where J = "conn_on J cid"])
qed (use assms conn_event_keeps conn_pending_keeps sendInLoop_keeps in
  \<open>auto simp: TcpConnection_shutdown_def forceClose_def forceCloseWithDealy_def stopRead_def
    startRead_outcome stopReadInLoop_def Let_def intro!: yields_steps requests conn_queue_keeps shutdownInLoop_keeps\<close>)

lemma conn_run_keeps:
  "user_keeps J cid user piece \<Longrightarrow> conn_on J cid S \<Longrightarrow>
    yields UNIV (conn_on J cid) (foldRes (conn_step dbg ctl me user piece) ops S)"
  by (intro yields_foldRes [where I = "conn_on J cid"] conn_step_keeps)

end

section \<open>What the kernel is asked to report\<close>

text \<open>The channel \<open>ch\<close> of descriptor \<open>fd\<close> and the interest list of a poller have no read bit.\<close>

definition deaf_at :: "int \<Rightarrow> channel \<Rightarrow> (int \<Rightarrow> (nat \<times> 32 word) option) poller \<Rightarrow> bool" where
  "deaf_at fd ch p \<longleftrightarrow> ch_fd ch = fd \<and> KReadEvent AND ch_events ch = 0 \<and>
     (\<forall>ptr ev. kern p fd = Some (ptr, ev) \<longrightarrow> KReadEvent AND ev = 0)"

definition deaf :: "int \<Rightarrow> nat \<Rightarrow> (int \<Rightarrow> (nat \<times> 32 word) option, conn_functor) evloop \<Rightarrow> bool" where
  "deaf fd cid L \<longleftrightarrow> (\<exists>ch. chans L cid = Some ch \<and> deaf_at fd ch (loop_poller L))"

lemma deaf_at_frame [simp]:
  "deaf_at fd (ch\<lparr>ch_index := i\<rparr>) p = deaf_at fd ch p" "deaf_at fd ch (p\<lparr>channels := m\<rparr>) = deaf_at fd ch p"
  by (simp_all add: deaf_at_def)

lemma deaf_at_poller_update:
  "EPollPoller_update epoll_set q cid ch p = Inr p' \<Longrightarrow> deaf_at fd ch p \<Longrightarrow> deaf_at fd ch p'"
  by (cases q) (auto simp: EPollPoller_update_def epoll_set_simps deaf_at_def Let_def split: if_splits)

lemma poller_update_deaf:
  assumes "EPollPoller_updateChannel dbg epoll_set cid ch p = Inr (ch', p')" "deaf_at fd ch p"
  shows "deaf_at fd ch' p'"
proof -
  have step: "deaf_at fd c p2" if "EPollPoller_update epoll_set q cid c p1 = Inr p2" "deaf_at fd c p1" for q c p1 p2
    using deaf_at_poller_update [OF that] .
  show ?thesis
    using assms by (auto simp: EPollPoller_updateChannel_def Let_def res_simps split: if_splits dest!: step)
qed

lemma poller_remove_deaf:
  assumes "EPollPoller_removeChannel dbg epoll_set cid ch p = Inr (ch', p')" "deaf_at fd ch p"
  shows "deaf_at fd ch' p'"
  using assms by (auto simp: EPollPoller_removeChannel_def Let_def res_simps split: if_splits
    dest!: deaf_at_poller_update)

lemma deaf_modify:
  assumes "deaf fd cid L" "modify_channel f cid L = Inr L'"
    and "\<And>ch. ch_fd (f ch) = ch_fd ch"
    and "\<And>ch. KReadEvent AND ch_events ch = 0 \<Longrightarrow> KReadEvent AND ch_events (f ch) = 0"
  shows "deaf fd cid L'"
  using assms by (auto simp: deaf_def deaf_at_def modify_channel_def)

lemma deaf_update:
  assumes "deaf fd cid L" "Channel_update dbg epoll_set me cid L = Inr L'"
  shows "deaf fd cid L'"
proof -
  obtain L1 where L1: "modify_channel (\<lambda>ch. ch\<lparr>addToLoop := True\<rparr>) cid L = Inr L1"
    "EventLoop_updateChannel dbg epoll_set me cid L1 = Inr L'"
    using assms(2) by (auto simp: Channel_update_def res_simps)
  have "deaf fd cid L1" by (rule deaf_modify [OF assms(1) L1(1)]) simp_all
  then obtain ch where ch: "chans L1 cid = Some ch" "deaf_at fd ch (loop_poller L1)"
    by (auto simp: deaf_def)
  obtain ch' p' where p: "EPollPoller_updateChannel dbg epoll_set cid ch (loop_poller L1) = Inr (ch', p')"
    "L' = L1\<lparr>loop_poller := p', chans := (chans L1)(cid := Some ch')\<rparr>"
    using L1(2) ch(1) by (auto simp: EventLoop_updateChannel_def assertInLoopThread_def res_simps split: if_splits)
  show ?thesis using poller_update_deaf [OF p(1) ch(2)] by (simp add: deaf_def p(2))
qed

lemma deaf_remove:
  assumes "deaf fd cid L" "Channel_remove dbg epoll_set me cid L = Inr L'"
  shows "deaf fd cid L'"
proof -
  obtain L1 where L1: "modify_channel (\<lambda>ch. ch\<lparr>addToLoop := False\<rparr>) cid L = Inr L1"
    "EventLoop_removeChannel dbg epoll_set me cid L1 = Inr L'"
    using assms(2) by (auto simp: Channel_remove_def res_simps split: option.splits)
  have "deaf fd cid L1" by (rule deaf_modify [OF assms(1) L1(1)]) simp_all
  then obtain ch where ch: "chans L1 cid = Some ch" "deaf_at fd ch (loop_poller L1)"
    by (auto simp: deaf_def)
  obtain ch' p' where p: "EPollPoller_removeChannel dbg epoll_set cid ch (loop_poller L1) = Inr (ch', p')"
    "L' = L1\<lparr>loop_poller := p', chans := (chans L1)(cid := Some ch')\<rparr>"
    using L1(2) ch(1) by (auto simp: EventLoop_removeChannel_def assertInLoopThread_def res_simps split: if_splits)
  show ?thesis using poller_remove_deaf [OF p(1) ch(2)] by (simp add: deaf_def p(2))
qed

lemma deaf_enabling:
  assumes "deaf fd cid L" "andThen (modify_channel f cid L) (Channel_update dbg epoll_set me cid) = Inr L'"
    and "\<And>ch. ch_fd (f ch) = ch_fd ch"
    and "\<And>ch. KReadEvent AND ch_events ch = 0 \<Longrightarrow> KReadEvent AND ch_events (f ch) = 0"
  shows "deaf fd cid L'"
  using assms(2) deaf_modify [OF assms(1) _ assms(3,4)] deaf_update by (auto simp: res_simps)

lemma deaf_req:
  assumes "deaf fd cid L" "do_req dbg epoll_set me cid q L = Inr L'"
  shows "deaf fd cid L'"
proof (cases q)
  case ReqRemove
  then show ?thesis using assms deaf_remove by simp
next
  case ReqTie
  then show ?thesis using assms by (auto elim!: deaf_modify simp: chan_defs)
next
  case (ReqRevents ev)
  then show ?thesis using assms by (auto elim!: deaf_modify simp: chan_defs)
next
  case (ReqHandling b)
  then show ?thesis using assms by (auto elim!: deaf_modify simp: chan_defs)
qed (use assms in \<open>auto simp: enableWriting_def disableWriting_def disableReading_def disAbleAll_def
    chan_defs mask_simps KNoneEvent_def elim!: deaf_enabling\<close>)

interpretation deafc: loop_invariant "deaf fd cid" dbg epoll_set me cid for fd cid dbg me
proof (unfold_locales, goal_cases)
  case (1 L q L')
  then show ?case by (rule deaf_req)
qed (simp_all add: deaf_def)

interpretation idlec: loop_invariant "unread cid" dbg ctl me cid for cid dbg me and ctl :: "'k epoll_ctl"
proof (unfold_locales, goal_cases)
  case (1 L q L')
  have "keeps_unread cid (do_req dbg ctl me cid q)"
    by (cases q) (simp_all add: keeps_unread_ops keeps_unread_remove)
  from keeps_unreadD [OF this 1] show ?case ..
qed (simp_all add: unread_def)

text \<open>C5: In both builds: whatever is called on a connection, whatever events and functors run, the
  kernel is never asked to report that the socket is readable: neither \<open>connectEstablished\<close> nor
  anything else enables reading, and \<open>startRead\<close> does not get to it. Assumed is that the user's
  callbacks do not change the channel's mask themselves.\<close>

theorem connection_never_watched_for_reading:
  assumes "TcpConnection_ctor dbg cid name sockfd la pa L = Inr S0" and "kern (loop_poller L) sockfd = None"
    and "user_keeps (deaf sockfd cid) cid user piece"
    and "foldRes (conn_step dbg epoll_set me user piece) ops S0 = Inr S"
    and "kern (loop_poller (tloop S)) sockfd = Some (ptr, ev)"
  shows "KReadEvent AND ev = 0"
proof -
  have "conn_on (deaf sockfd cid) cid S0"
    using assms(1,2) by (auto simp: TcpConnection_ctor_def res_simps conn_on_def deaf_def deaf_at_def Channel_ctor_def)
  from deafc.conn_run_keeps [OF assms(3) this, of dbg me ops] assms(4)
  have "conn_on (deaf sockfd cid) cid S" by simp
  then show ?thesis using assms(5) by (auto simp: conn_on_def deaf_def deaf_at_def)
qed

definition plain_loop :: "(int \<Rightarrow> (nat \<times> 32 word) option, conn_functor) evloop" where
  "plain_loop = \<lparr>looping = True, quit_flag = False, loop_eventHandling = False,
     callingPendingFunctors = False, iteration = 0, threadId = 1,
     loop_poller = empty_poller 16 (\<lambda>_. None), chans = (\<lambda>_. None), wakeupFd = 0,
     activeChannels = [], currentActiveChannel = None, pendingFunctors = [], pollReturnTime = 0,
     loop_context = None\<rparr>"

theorem connection_never_watched_for_reading_witness:
  "\<exists>S0 S ev. TcpConnection_ctor False 5 ''c'' 9 [] [] plain_loop = Inr S0 \<and>
    foldRes (conn_step False epoll_set 1 idle_user (\<lambda>d S. Inr S)) [OEstablish, OStopRead, OStopRead] S0 = Inr S \<and>
    kern (loop_poller (tloop S)) 9 = Some (5, ev) \<and> KReadEvent AND ev = 0"
proof -
  obtain b where b: "Buffer_ctor False kInittialSize = Inr b"
    by (simp add: Buffer_ctor_def kInittialSize_def kCheapPrepend_def sz_add_def max_vector_size_def Let_def)
  obtain S0 where S0: "TcpConnection_ctor False 5 ''c'' 9 [] [] plain_loop = Inr S0"
    by (simp add: TcpConnection_ctor_def b)
  have "\<exists>S ev. foldRes (conn_step False epoll_set 1 idle_user (\<lambda>d S. Inr S)) [OEstablish, OStopRead, OStopRead] S0 = Inr S \<and>
      kern (loop_poller (tloop S)) 9 = Some (5, ev)"
    using S0
    by (auto simp: TcpConnection_ctor_def b plain_loop_def connectEstablished_def conn_in_loop_def
      assertInLoopThread_def isInLoopThread_def on_loop_def modify_channel_def stopRead_def
      stopReadInLoop_def with_channel_def disableReading_def Channel_update_def EventLoop_updateChannel_def
      EPollPoller_updateChannel_def EPollPoller_update_def epoll_set_simps Channel_ctor_def
      empty_poller_def chan_defs KNew_def KAdded_def KDeleted_def KNoneEvent_def Let_def)
  then obtain S ev where S: "foldRes (conn_step False epoll_set 1 idle_user (\<lambda>d S. Inr S)) [OEstablish, OStopRead, OStopRead] S0 = Inr S"
    and k: "kern (loop_poller (tloop S)) 9 = Some (5, ev)" by blast
  have "kern (loop_poller plain_loop) 9 = None" by (simp add: plain_loop_def empty_poller_def)
  moreover have "user_keeps (deaf 9 5) 5 idle_user (\<lambda>d S. Inr S)"
    by (simp add: user_keeps_def idle_user_def)
  ultimately have "KReadEvent AND ev = 0"
    using connection_never_watched_for_reading [OF S0 _ _ S k] by blast
  then show ?thesis using S0 S k by blast
qed

end
