(* ===== verification/Net_Acceptor.thy ===== *)
theory Net_Acceptor
  imports Net_EventLoop Net_SocketOps "HOL-Library.Multiset"
begin

text \<open>
  The acceptor (\<open>net/acceptor.h\<close>, \<open>net/acceptor.cpp\<close>): a listening socket with its channel,
  which accepts one connection per event and keeps a spare descriptor for the moment the process
  runs out of them.

  The state holds the loop, the descriptors, the address of the channel in the loop's store, and
  what the outside sees: the connections handed to the callback and the descriptors closed. The
  results of the system calls are arguments. \<open>setNewConnectionCallback\<close> has no body in the
  sources; whether a callback is set is part of the state. The lemmas show that no descriptor is lost, and what
  \<open>listen\<close> registers with the kernel.
\<close>

record ('k, 'f) acceptor =
  ac_loop :: "('k, 'f) evloop"
  ac_sock :: int
  ac_opts :: "setsockopt list"
  ac_chan :: nat
  ac_hasCb :: bool
  ac_listening :: bool
  ac_idleFd :: int
  ac_new :: "(int \<times> sockaddr) list"
  ac_closed :: "int list"

definition ac_close :: "int \<Rightarrow> ('k, 'f) acceptor \<Rightarrow> ('k, 'f) acceptor" where
  "ac_close fd A = A\<lparr>ac_closed := ac_closed A @ [fd]\<rparr>"

definition ac_on_loop ::
    "(('k, 'f) evloop \<Rightarrow> ('k, 'f) evloop res) \<Rightarrow> ('k, 'f) acceptor \<Rightarrow> ('k, 'f) acceptor res" where
  "ac_on_loop f A = andThen (f (ac_loop A)) (\<lambda>L. Inr (A\<lparr>ac_loop := L\<rparr>))"

text \<open>The constructor, with the results of \<open>socket\<close> and \<open>open\<close> and a fresh address for the
  channel; \<open>ac_opts\<close> are the calls of \<open>setsockopt\<close>, whose failure is logged at most.\<close>

definition Acceptor_ctor ::
    "bool \<Rightarrow> (int \<Rightarrow> sockaddr \<Rightarrow> nat \<Rightarrow> int) \<Rightarrow> int \<Rightarrow> int \<Rightarrow> nat \<Rightarrow> sockaddr \<Rightarrow> bool \<Rightarrow>
     ('k, 'f) evloop \<Rightarrow> ('k, 'f) acceptor res" where
  "Acceptor_ctor dbg bind sockfd idle cid listenAddr reuseport L =
     andThen (createNonblockingOrDie sockfd) (\<lambda>fd.
      let A = \<lparr>ac_loop = L\<lparr>chans := (chans L)(cid := Some (Channel_ctor fd))\<rparr>, ac_sock = fd,
               ac_opts = [set_reuseable_addr True fd, reuseport_opt reuseport fd], ac_chan = cid, ac_hasCb = False, ac_listening = False, ac_idleFd = idle,
               ac_new = [], ac_closed = []\<rparr> in
      cassert dbg (idle \<ge> 0)
       (andThen (bind_addr bind fd listenAddr) (\<lambda>_.
        ac_on_loop (modify_channel (\<lambda>ch. ch\<lparr>readCallback := True\<rparr>) cid) A)))"

definition Acceptor_dtor ::
    "bool \<Rightarrow> 'k epoll_ctl \<Rightarrow> int \<Rightarrow> ('k, 'f) acceptor \<Rightarrow> ('k, 'f) acceptor res" where
  "Acceptor_dtor dbg ctl me A =
     andThen (ac_on_loop (disAbleAll dbg ctl me (ac_chan A)) A) (\<lambda>A1.
     andThen (ac_on_loop (Channel_remove dbg ctl me (ac_chan A1)) A1) (\<lambda>A2.
     andThen (ac_on_loop (Channel_dtor dbg me (ac_chan A2)) (ac_close (ac_idleFd A2) A2)) (\<lambda>A3.
     Inr (ac_close (ac_sock A3) A3))))"

definition Acceptor_listen ::
    "bool \<Rightarrow> 'k epoll_ctl \<Rightarrow> (int \<Rightarrow> int \<Rightarrow> int) \<Rightarrow> int \<Rightarrow> ('k, 'f) acceptor \<Rightarrow> ('k, 'f) acceptor res" where
  "Acceptor_listen dbg ctl listen me A =
     assertInLoopThread me (ac_loop A)
      (let A1 = A\<lparr>ac_listening := True\<rparr> in
       andThen (Socket_listen listen (ac_sock A1)) (\<lambda>_.
       ac_on_loop (enableReading dbg ctl me (ac_chan A1)) A1))"

text \<open>
  What one read event meets: the result of \<open>accept4\<close>, \<open>errno\<close> as the test reads it after the
  log record, and the results of the second \<open>accept\<close> and of \<open>open\<close>.
\<close>

record read_event =
  re_accept :: accepted
  re_errno :: int
  re_accept2 :: int
  re_open :: int

definition Acceptor_handleRead ::
    "int \<Rightarrow> read_event \<Rightarrow> ('k, 'f) acceptor \<Rightarrow> ('k, 'f) acceptor res" where
  "Acceptor_handleRead me e A =
     assertInLoopThread me (ac_loop A)
      (andThen (Socket_accept (re_accept e) (InetAddress_port 0 False False (replicate 28 0)))
       (\<lambda>(connfd, peerAddr).
        if connfd \<ge> 0
        then if ac_hasCb A then Inr (A\<lparr>ac_new := ac_new A @ [(connfd, peerAddr)]\<rparr>)
             else Inr (ac_close connfd A)
        else if re_errno e = EMFILE
        then let A1 = ac_close (ac_idleFd A) A; A2 = A1\<lparr>ac_idleFd := re_accept2 e\<rparr>;
                 A3 = ac_close (ac_idleFd A2) A2 in
             Inr (A3\<lparr>ac_idleFd := re_open e\<rparr>)
        else Inr A))"

section \<open>No descriptor is lost\<close>

definition opened_by :: "read_event \<Rightarrow> int list" where
  "opened_by e =
     (if acc_fd (re_accept e) \<ge> 0 then [acc_fd (re_accept e)]
      else if re_errno e = EMFILE then [re_accept2 e, re_open e] else [])"

text \<open>The descriptors the acceptor accounts for: closed, handed over, or kept as the spare one.\<close>

definition accounted :: "('k, 'f) acceptor \<Rightarrow> int multiset" where
  "accounted A = mset (ac_closed A) + mset (map fst (ac_new A)) + {#ac_idleFd A#}"

lemma handleRead_cases:
  assumes "Acceptor_handleRead me e A = Inr A'"
  obtains p where "A' =
    (if acc_fd (re_accept e) \<ge> 0
     then if ac_hasCb A then A\<lparr>ac_new := ac_new A @ [(acc_fd (re_accept e), p)]\<rparr>
          else ac_close (acc_fd (re_accept e)) A
     else if re_errno e = EMFILE
     then A\<lparr>ac_closed := ac_closed A @ [ac_idleFd A, re_accept2 e], ac_idleFd := re_open e\<rparr>
     else A)"
proof -
  obtain fd p where p: "Socket_accept (re_accept e) (InetAddress_port 0 False False (replicate 28 0)) = Inr (fd, p)"
    and t: "isInLoopThread me (ac_loop A)"
    using assms by (auto simp: Acceptor_handleRead_def assertInLoopThread_def res_simps split: if_splits)
  have "fd = acc_fd (re_accept e)" by (rule Socket_accept_result(1) [OF p])
  then show ?thesis
    using that [of p] assms t
    by (simp add: Acceptor_handleRead_def assertInLoopThread_def p ac_close_def Let_def split: if_splits)
qed

lemma handleRead_accounts:
  assumes "Acceptor_handleRead me e A = Inr A'"
  shows "accounted A' = accounted A + mset (opened_by e)" "ac_hasCb A' = ac_hasCb A"
    "ac_hasCb A \<Longrightarrow> re_errno e \<noteq> EMFILE \<Longrightarrow> ac_closed A' = ac_closed A"
  by (rule handleRead_cases [OF assms], simp add: accounted_def opened_by_def ac_close_def)+


section \<open>Listening\<close>

text \<open>\<open>listen\<close> never makes a server reachable. In a Debug build enabling the channel of a new
  acceptor fails an assertion; in a Release build the call returns and the acceptor says it is
  listening, but the kernel is not asked to watch the socket, so that no read event can follow.\<close>

theorem listen_watches_nothing:
  assumes "isInLoopThread me (ac_loop A)" and "0 \<le> listen (ac_sock A) SOMAXCONN"
    and "chans (ac_loop A) (ac_chan A) = Some ((Channel_ctor (ac_sock A))\<lparr>readCallback := True\<rparr>)"
    and "kern (loop_poller (ac_loop A)) (ac_sock A) = None"
  shows "Acceptor_listen True epoll_set listen me A = Inl AssertFail \<and>
    (\<exists>A'. Acceptor_listen False epoll_set listen me A = Inr A' \<and> ac_listening A' \<and>
      kern (loop_poller (ac_loop A')) = kern (loop_poller (ac_loop A)))"
proof -
  have s: "Socket_listen listen (ac_sock A) = Inr ()"
    using assms(2) by (simp add: Socket_listen_def listenOrDie_def)
  show ?thesis
    using assms
    by (simp add: Acceptor_listen_def assertInLoopThread_def s ac_on_loop_def enableReading_def
      modify_channel_def Channel_update_def EventLoop_updateChannel_def EPollPoller_updateChannel_def
      EPollPoller_update_def epoll_set_simps Channel_ctor_def set_reading_def isNoneEvent_def
      KNoneEvent_def isInLoopThread_def cassert_def fun_upd_idem Let_def)
qed

lemma listen_keeps_channel:
  "Acceptor_listen dbg ctl listen me A = Inr A' \<Longrightarrow> ac_chan A' = ac_chan A"
  by (auto simp: Acceptor_listen_def assertInLoopThread_def ac_on_loop_def res_simps Let_def split: if_splits)

text \<open>Destruction of an acceptor whose channel the poller has never seen. A Debug build aborts;
  a Release build takes the channel out and closes the spare descriptor and the socket, each once.\<close>

lemma acceptor_destroyed:
  assumes "isInLoopThread me (ac_loop A)"
    and "chans (ac_loop A) (ac_chan A) = Some ((Channel_ctor (ac_sock A))\<lparr>readCallback := True\<rparr>)"
    and "kern (loop_poller (ac_loop A)) (ac_sock A) = None" "channels (loop_poller (ac_loop A)) (ac_sock A) = None"
  shows "Acceptor_dtor True epoll_set me A = Inl AssertFail"
    and "\<exists>A'. Acceptor_dtor False epoll_set me A = Inr A' \<and> ac_closed A' = ac_closed A @ [ac_idleFd A, ac_sock A] \<and>
      chans (ac_loop A') (ac_chan A) = None \<and> kern (loop_poller (ac_loop A')) (ac_sock A) = None"
  using assms
  by (simp_all add: Acceptor_dtor_def ac_on_loop_def ac_close_def disAbleAll_def Channel_remove_def Channel_dtor_def
    EventLoop_hasChannel_def EventLoop_removeChannel_def EPollPoller_removeChannel_def assertInLoopThread_def
    modify_channel_def Channel_update_def EventLoop_updateChannel_def EPollPoller_updateChannel_def
    EPollPoller_update_def epoll_set_simps Channel_ctor_def clear_all_def isNoneEvent_def KNoneEvent_def
    isInLoopThread_def cassert_def KNew_def KAdded_def KDeleted_def Let_def)

section \<open>Witnesses\<close>

definition demo_acceptor :: "(int \<Rightarrow> (nat \<times> 32 word) option, unit) acceptor" where
  "demo_acceptor =
     \<lparr>ac_loop = \<lparr>looping = True, quit_flag = False, loop_eventHandling = False,
        callingPendingFunctors = False, iteration = 0, threadId = 1,
        loop_poller = empty_poller 16 (\<lambda>_. None),
        chans = (\<lambda>_. None)(5 := Some ((Channel_ctor 3)\<lparr>readCallback := True\<rparr>)), wakeupFd = 0,
        activeChannels = [], currentActiveChannel = None, pendingFunctors = [], pollReturnTime = 0,
     loop_context = None\<rparr>,
      ac_sock = 3, ac_opts = [], ac_chan = 5, ac_hasCb = True, ac_listening = False, ac_idleFd = 4, ac_new = [],
      ac_closed = []\<rparr>"

definition demo_events :: "read_event list" where
  "demo_events =
     [\<lparr>re_accept = \<lparr>acc_fd = 7, acc_addr = [], acc_errno = 0\<rparr>, re_errno = 0, re_accept2 = 0, re_open = 0\<rparr>,
      \<lparr>re_accept = \<lparr>acc_fd = - 1, acc_addr = [], acc_errno = 24\<rparr>, re_errno = 24, re_accept2 = 4, re_open = 4\<rparr>]"


theorem listen_watches_nothing_witness:
  "Acceptor_listen True epoll_set (\<lambda>fd n. 0) 1 demo_acceptor = Inl AssertFail"
  using listen_watches_nothing [of 1 demo_acceptor "\<lambda>fd n. 0"]
  by (simp add: demo_acceptor_def isInLoopThread_def empty_poller_def)

end
