(* ===== verification/Net_ThreadPool.thy ===== *)
theory Net_ThreadPool
  imports Cpp_Format
begin

text \<open>
  The pool of loop threads (\<open>net/eventloop_threadpool.h\<close>, \<open>net/eventloop_threadpool.cpp\<close>).

  Loops are values of a type \<open>'l\<close>. What starting a loop thread yields is the argument
  \<open>startLoop\<close>, which takes the thread's name; the initial callback on the base loop is
  \<open>initCb\<close>. The lemmas show the order in which \<open>getNextLoop\<close> hands out the loops.
\<close>

record 'l pool =
  tp_base :: 'l
  tp_thread :: int
  tp_name :: string
  tp_started :: bool
  tp_numThreads :: int
  tp_next :: nat
  tp_loops :: "'l list"

definition EventLoopThreadPool_ctor :: "'l \<Rightarrow> int \<Rightarrow> string \<Rightarrow> 'l pool" where
  "EventLoopThreadPool_ctor base thread nameArg =
     \<lparr>tp_base = base, tp_thread = thread, tp_name = nameArg, tp_started = False, tp_numThreads = 0,
      tp_next = 0, tp_loops = []\<rparr>"

definition pool_setThreadNum :: "int \<Rightarrow> 'l pool \<Rightarrow> 'l pool" where
  "pool_setThreadNum n P = P\<lparr>tp_numThreads := n\<rparr>"

definition pool_in_loop :: "int \<Rightarrow> 'l pool \<Rightarrow> 'a res \<Rightarrow> 'a res" where
  "pool_in_loop me P k = (if tp_thread P \<noteq> me then Inl LogFatal else k)"

text \<open>The name of thread \<open>i\<close>, printed into \<open>name_.size() + 32\<close> bytes.\<close>

definition thread_name :: "string \<Rightarrow> nat \<Rightarrow> string" where
  "thread_name name i = take (length name + 31) (name @ dec_nat i)"

definition pool_start ::
    "bool \<Rightarrow> (string \<Rightarrow> 'l res) \<Rightarrow> ('l \<Rightarrow> unit res) option \<Rightarrow> int \<Rightarrow> 'l pool \<Rightarrow> 'l pool res" where
  "pool_start dbg startLoop initCb me P =
     cassert dbg (\<not> tp_started P)
      (pool_in_loop me P
        (andThen (foldRes (\<lambda>i P. andThen (startLoop (thread_name (tp_name P) i))
                                  (\<lambda>l. Inr (P\<lparr>tp_loops := tp_loops P @ [l]\<rparr>)))
                   [0..<nat (tp_numThreads P)] (P\<lparr>tp_started := True\<rparr>)) (\<lambda>P1.
         if tp_numThreads P1 = 0
         then (case initCb of None \<Rightarrow> Inr P1 | Some cb \<Rightarrow> andThen (cb (tp_base P1)) (\<lambda>_. Inr P1))
         else Inr P1)))"

definition getNextLoop :: "bool \<Rightarrow> int \<Rightarrow> 'l pool \<Rightarrow> ('l \<times> 'l pool) res" where
  "getNextLoop dbg me P =
     pool_in_loop me P
      (cassert dbg (tp_started P)
        (if tp_loops P \<noteq> []
         then if tp_next P < length (tp_loops P)
              then let l = tp_loops P ! tp_next P; n = tp_next P + 1 in
                   Inr (l, P\<lparr>tp_next := (if n = length (tp_loops P) then 0 else n)\<rparr>)
              else Inl OutOfBounds
         else Inr (tp_base P, P)))"

definition getLoopForHash :: "bool \<Rightarrow> int \<Rightarrow> nat \<Rightarrow> 'l pool \<Rightarrow> 'l option res" where
  "getLoopForHash dbg me hashCode P =
     pool_in_loop me P
      (cassert dbg (tp_started P)
        (if tp_loops P \<noteq> [] then Inr (Some (tp_loops P ! (hashCode mod length (tp_loops P))))
         else Inr None))"

definition getAllLoops :: "bool \<Rightarrow> int \<Rightarrow> 'l pool \<Rightarrow> 'l list res" where
  "getAllLoops dbg me P =
     pool_in_loop me P
      (cassert dbg (tp_started P) (Inr (if tp_loops P = [] then [tp_base P] else tp_loops P)))"

section \<open>Starting\<close>

lemma thread_name_full: "i < 10 ^ 31 \<Longrightarrow> thread_name name i = name @ dec_nat i"
  using length_dec_nat [of 31 i] by (simp add: thread_name_def)

lemma pool_threads:
  assumes "\<And>i. i \<in> set is \<Longrightarrow> startLoop (thread_name (tp_name P) i) = Inr (f i)"
  shows "foldRes (\<lambda>i P. andThen (startLoop (thread_name (tp_name P) i))
      (\<lambda>l. Inr (P\<lparr>tp_loops := tp_loops P @ [l]\<rparr>))) is P = Inr (P\<lparr>tp_loops := tp_loops P @ map f is\<rparr>)"
  using assms by (induction "is" arbitrary: P) simp_all

text \<open>Starting yields one loop per thread, in the order of their names.\<close>

lemma pool_start_loops:
  assumes "tp_thread P = me" "\<not> tp_started P" "tp_loops P = []" "0 < tp_numThreads P"
    and "\<And>i. i < nat (tp_numThreads P) \<Longrightarrow> startLoop (thread_name (tp_name P) i) = Inr (f i)"
  shows "pool_start dbg startLoop initCb me P =
    Inr (P\<lparr>tp_started := True, tp_loops := map f [0..<nat (tp_numThreads P)]\<rparr>)"
  using assms pool_threads [of "[0..<nat (tp_numThreads P)]" startLoop "P\<lparr>tp_started := True\<rparr>" f]
  by (simp add: pool_start_def pool_in_loop_def)

section \<open>Handing out loops\<close>

definition pool_inv :: "'l pool \<Rightarrow> bool" where
  "pool_inv P \<longleftrightarrow> tp_next P < max 1 (length (tp_loops P))"

fun take_loops :: "bool \<Rightarrow> int \<Rightarrow> nat \<Rightarrow> 'l pool \<Rightarrow> ('l list \<times> 'l pool) res" where
  "take_loops dbg me 0 P = Inr ([], P)"
| "take_loops dbg me (Suc n) P =
     andThen (getNextLoop dbg me P) (\<lambda>(l, P1).
     andThen (take_loops dbg me n P1) (\<lambda>(ls, P2). Inr (l # ls, P2)))"

lemma getNextLoop_step:
  assumes "tp_started P" "tp_thread P = me" "tp_loops P \<noteq> []" "tp_next P = i mod length (tp_loops P)"
  shows "getNextLoop dbg me P =
    Inr (tp_loops P ! (i mod length (tp_loops P)), P\<lparr>tp_next := Suc i mod length (tp_loops P)\<rparr>)"
  using assms by (simp add: getNextLoop_def pool_in_loop_def Let_def mod_Suc)

text \<open>Connections are spread over the loops in turn: the \<open>i\<close>-th call of \<open>getNextLoop\<close> after
  the start returns loop \<open>i mod k\<close> of the \<open>k\<close> loops, and the index into the vector stays inside
  it; with no loop thread every call returns the base loop.\<close>

theorem loops_in_turn:
  assumes "tp_started P" and "tp_thread P = me" and "tp_next P = s" and "s < max 1 (length (tp_loops P))"
  shows "\<exists>P'. take_loops dbg me n P = Inr
      (if tp_loops P = [] then replicate n (tp_base P)
       else map (\<lambda>i. tp_loops P ! ((s + i) mod length (tp_loops P))) [0..<n], P') \<and> pool_inv P'"
proof (cases "tp_loops P = []")
  case True
  have "take_loops dbg me n P = Inr (replicate n (tp_base P), P)"
    using assms(1,2) True by (induction n) (simp_all add: getNextLoop_def pool_in_loop_def)
  then show ?thesis using True assms(3,4) by (simp add: pool_inv_def)
next
  case False
  define k where "k = length (tp_loops P)"
  have k: "0 < k" using False by (simp add: k_def)
  have "take_loops dbg me n (P\<lparr>tp_next := j mod k\<rparr>) = Inr
      (map (\<lambda>i. tp_loops P ! ((j + i) mod k)) [0..<n], P\<lparr>tp_next := (j + n) mod k\<rparr>)" for j
  proof (induction n arbitrary: j)
    case (Suc n)
    have up: "[0..<Suc n] = 0 # map Suc [0..<n]" by (simp add: map_Suc_upt upt_conv_Cons del: upt_Suc)
    have "getNextLoop dbg me (P\<lparr>tp_next := j mod k\<rparr>) =
        Inr (tp_loops P ! (j mod k), P\<lparr>tp_next := Suc j mod k\<rparr>)"
      using getNextLoop_step [of "P\<lparr>tp_next := j mod k\<rparr>" me j dbg] assms(1,2) False by (simp add: k_def)
    then show ?case using Suc.IH [of "Suc j"] by (simp add: up o_def del: upt_Suc)
  qed simp
  from this [of s] have "take_loops dbg me n P = Inr
      (map (\<lambda>i. tp_loops P ! ((s + i) mod k)) [0..<n], P\<lparr>tp_next := (s + n) mod k\<rparr>)"
  proof -
    have "s mod k = s" using assms(4) k unfolding k_def by (simp add: max_def split: if_splits)
    moreover have "P\<lparr>tp_next := s\<rparr> = P" using assms(3) by (cases P) simp
    ultimately show ?thesis using \<open>take_loops dbg me n (P\<lparr>tp_next := s mod k\<rparr>) = _\<close> by simp
  qed
  moreover have "pool_inv (P\<lparr>tp_next := (s + n) mod k\<rparr>)"
    using k by (simp add: pool_inv_def less_max_iff_disj flip: k_def)
  ultimately show ?thesis using False by (simp add: k_def)
qed

theorem loops_in_turn_witness:
  "\<exists>P'. take_loops True 1 5 \<lparr>tp_base = ''main'', tp_thread = 1, tp_name = ''srv'', tp_started = True,
      tp_numThreads = 2, tp_next = 1, tp_loops = [''a'', ''b'']\<rparr> =
    Inr ([''b'', ''a'', ''b'', ''a'', ''b''], P') \<and> pool_inv P'"
  using loops_in_turn [of "\<lparr>tp_base = ''main'', tp_thread = 1, tp_name = ''srv'', tp_started = True,
      tp_numThreads = 2, tp_next = 1, tp_loops = [''a'', ''b'']\<rparr>" 1 1 True 5]
  by (simp add: upt_rec mod_Suc)

text \<open>The same hash always selects the same loop, which is one of the pool.\<close>

lemma getLoopForHash_member:
  "getLoopForHash dbg me h P = Inr (Some l) \<Longrightarrow> l \<in> set (tp_loops P)"
  by (auto simp: getLoopForHash_def pool_in_loop_def res_simps split: if_splits)

end
