(* ===== verification/Net_TcpServer.thy ===== *)
theory Net_TcpServer
  imports Net_Acceptor Net_ThreadPool Cpp_Map
begin

text \<open>
  The server (\<open>net/tcp_server.h\<close>, \<open>net/tcp_server.cpp\<close>): an acceptor, a pool of loops and
  the map of live connections by name.

  Loops are values of a type \<open>'l\<close>. A connection is its position in \<open>sv_all\<close>, the list of
  all connections made so far, whose entries keep what the constructor is given. What the server
  asks of a loop is recorded in \<open>sv_posted\<close>, in order: \<open>RunIn\<close> for \<open>runInLoop\<close>,
  \<open>QueueIn\<close> for \<open>queueInLoop\<close>. The lemmas follow every connection from its creation to its
  destruction.
\<close>

datatype sv_fun = SvListen | SvEstablished nat | SvDestroy nat | SvRemove nat

datatype 'l post = RunIn 'l sv_fun | QueueIn 'l sv_fun

record 'l conn_info =
  ci_loop :: 'l
  ci_name :: string
  ci_sock :: int
  ci_local :: sockaddr
  ci_peer :: sockaddr
  ci_connectionCb :: bool
  ci_messageCb :: bool
  ci_writeCompleteCb :: bool
  ci_closeCb :: bool

datatype server_option = KNoReusePort | KReusePort

record ('k, 'l) server =
  sv_loop :: 'l
  sv_thread :: int
  sv_ipPort :: string
  sv_name :: string
  sv_acceptor :: "('k, unit) acceptor"
  sv_pool :: "'l pool"
  sv_connectionCb :: bool
  sv_messageCb :: bool
  sv_threadInitCb :: "('l \<Rightarrow> unit res) option"
  sv_writeCompleteCb :: bool
  sv_started :: "32 word"
  sv_nextConnId :: int
  sv_conns :: "(string \<times> nat) list"
  sv_all :: "'l conn_info list"
  sv_posted :: "'l post list"

definition sv_post :: "'l post \<Rightarrow> ('k, 'l) server \<Rightarrow> ('k, 'l) server" where
  "sv_post p S = S\<lparr>sv_posted := sv_posted S @ [p]\<rparr>"

definition sv_in_loop :: "int \<Rightarrow> ('k, 'l) server \<Rightarrow> 'a res \<Rightarrow> 'a res" where
  "sv_in_loop me S k = (if sv_thread S \<noteq> me then Inl LogFatal else k)"

text \<open>The constructor; \<open>acc\<close> is the acceptor it makes, given whether ports are reused, \<open>setCb\<close> stands for
  \<open>Acceptor::setNewConnectionCallback\<close>, which has no body in the sources.\<close>

definition TcpServer_ctor ::
    "bool \<Rightarrow> (16 word \<Rightarrow> byte list \<Rightarrow> string) \<Rightarrow> (('k, unit) acceptor \<Rightarrow> ('k, unit) acceptor) \<Rightarrow>
     (sockaddr \<Rightarrow> bool \<Rightarrow> ('k, unit) acceptor res) \<Rightarrow> 'l option \<Rightarrow> int \<Rightarrow> sockaddr \<Rightarrow> string \<Rightarrow>
     server_option \<Rightarrow> ('k, 'l) server res" where
  "TcpServer_ctor dbg ntop setCb acc loop thread listenAddr nameArg option =
     (case loop of
        None \<Rightarrow> Inl LogFatal
      | Some l \<Rightarrow>
          andThen (InetAddress_toIpPort dbg ntop listenAddr) (\<lambda>ipPort.
          andThen (acc listenAddr (option = KReusePort)) (\<lambda>A.
          Inr \<lparr>sv_loop = l, sv_thread = thread, sv_ipPort = ipPort, sv_name = nameArg,
               sv_acceptor = setCb A, sv_pool = EventLoopThreadPool_ctor l thread nameArg,
               sv_connectionCb = True, sv_messageCb = True, sv_threadInitCb = None,
               sv_writeCompleteCb = False, sv_started = 0, sv_nextConnId = 1, sv_conns = [], sv_all = [], sv_posted = []\<rparr>)))"

text \<open>The destructor asks the loop of every connection, in the order of the names, to destroy it.\<close>

definition TcpServer_dtor :: "int \<Rightarrow> ('k, 'l) server \<Rightarrow> ('k, 'l) server res" where
  "TcpServer_dtor me S =
     sv_in_loop me S
      (foldRes (\<lambda>(name, c) S. if c < length (sv_all S)
                             then Inr (sv_post (RunIn (ci_loop (sv_all S ! c)) (SvDestroy c)) S)
                             else Inl NullDeref)
        (sv_conns S) S)"

text \<open>
  The whole destruction: the body above, then the data members, of which the acceptor has a
  destructor that does something here; the pool is shared with whoever has asked for it.
\<close>

definition TcpServer_destroy ::
    "bool \<Rightarrow> 'k epoll_ctl \<Rightarrow> int \<Rightarrow> ('k, 'l) server \<Rightarrow> ('k, 'l) server res" where
  "TcpServer_destroy dbg ctl me S =
     andThen (TcpServer_dtor me S) (\<lambda>S1.
     andThen (Acceptor_dtor dbg ctl me (sv_acceptor S1)) (\<lambda>A.
     Inr (S1\<lparr>sv_conns := [], sv_acceptor := A\<rparr>)))"

text \<open>What a server tells about itself.\<close>

definition inPort :: "('k, 'l) server \<Rightarrow> string" where
  "inPort S = sv_ipPort S"

definition server_name :: "('k, 'l) server \<Rightarrow> string" where
  "server_name S = sv_name S"

definition server_getLoop :: "('k, 'l) server \<Rightarrow> 'l" where
  "server_getLoop S = sv_loop S"

definition server_threadPool :: "('k, 'l) server \<Rightarrow> 'l pool" where
  "server_threadPool S = sv_pool S"

text \<open>The setters of the callbacks that each new connection gets; an empty function is \<open>False\<close>.\<close>

definition server_setConnectionCallback :: "bool \<Rightarrow> ('k, 'l) server \<Rightarrow> ('k, 'l) server" where
  "server_setConnectionCallback cb S = S\<lparr>sv_connectionCb := cb\<rparr>"

definition server_setMessageCallback :: "bool \<Rightarrow> ('k, 'l) server \<Rightarrow> ('k, 'l) server" where
  "server_setMessageCallback cb S = S\<lparr>sv_messageCb := cb\<rparr>"

definition server_setWriteCompleteCallback :: "bool \<Rightarrow> ('k, 'l) server \<Rightarrow> ('k, 'l) server" where
  "server_setWriteCompleteCallback cb S = S\<lparr>sv_writeCompleteCb := cb\<rparr>"

definition server_setThreadInitCallback :: "('l \<Rightarrow> unit res) option \<Rightarrow> ('k, 'l) server \<Rightarrow> ('k, 'l) server" where
  "server_setThreadInitCallback cb S = S\<lparr>sv_threadInitCb := cb\<rparr>"

definition server_setThreadNum :: "bool \<Rightarrow> int \<Rightarrow> ('k, 'l) server \<Rightarrow> ('k, 'l) server res" where
  "server_setThreadNum dbg numThread S =
     cassert dbg (numThread \<ge> 0) (Inr (S\<lparr>sv_pool := pool_setThreadNum numThread (sv_pool S)\<rparr>))"

definition server_start ::
    "bool \<Rightarrow> (string \<Rightarrow> 'l res) \<Rightarrow> int \<Rightarrow> ('k, 'l) server \<Rightarrow> ('k, 'l) server res" where
  "server_start dbg startLoop me S =
     (let old = sv_started S; S1 = S\<lparr>sv_started := 1\<rparr> in
      if old = 0
      then andThen (pool_start dbg startLoop (sv_threadInitCb S1) me (sv_pool S1)) (\<lambda>P.
           cassert dbg (\<not> ac_listening (sv_acceptor S1))
            (Inr (sv_post (RunIn (sv_loop S1) SvListen) (S1\<lparr>sv_pool := P\<rparr>))))
      else Inr S1)"

text \<open>The name of connection \<open>i\<close>: the part behind the server's name goes through \<open>char buf[64]\<close>.\<close>

definition conn_name :: "('k, 'l) server \<Rightarrow> int \<Rightarrow> string" where
  "conn_name S i = sv_name S @ take 63 (''-'' @ sv_ipPort S @ ''#'' @ dec_int i)"

definition newConnection ::
    "bool \<Rightarrow> int \<Rightarrow> int \<Rightarrow> sockaddr option \<Rightarrow> sockaddr \<Rightarrow> ('k, 'l) server \<Rightarrow> ('k, 'l) server res" where
  "newConnection dbg me sockfd localAddr addr S =
     sv_in_loop me S
      (andThen (getNextLoop dbg me (sv_pool S)) (\<lambda>(ioloop, P).
       let S1 = S\<lparr>sv_pool := P\<rparr>; conname = conn_name S1 (sv_nextConnId S1);
           S2 = S1\<lparr>sv_nextConnId := sv_nextConnId S1 + 1\<rparr>;
           c = length (sv_all S2);
           conn = \<lparr>ci_loop = ioloop, ci_name = conname, ci_sock = sockfd,
                   ci_local = getLocalAddr localAddr, ci_peer = addr,
                   ci_connectionCb = sv_connectionCb S2, ci_messageCb = sv_messageCb S2,
                   ci_writeCompleteCb = sv_writeCompleteCb S2, ci_closeCb = True\<rparr>;
           S3 = S2\<lparr>sv_all := sv_all S2 @ [conn], sv_conns := map_put conname c (sv_conns S2)\<rparr> in
       Inr (sv_post (RunIn ioloop (SvEstablished c)) S3)))"

definition removeConnection :: "nat \<Rightarrow> ('k, 'l) server \<Rightarrow> ('k, 'l) server" where
  "removeConnection c S = sv_post (RunIn (sv_loop S) (SvRemove c)) S"

definition removeConnectionInLoop :: "bool \<Rightarrow> int \<Rightarrow> nat \<Rightarrow> ('k, 'l) server \<Rightarrow> ('k, 'l) server res" where
  "removeConnectionInLoop dbg me c S =
     sv_in_loop me S
      (if c < length (sv_all S)
       then let conn = sv_all S ! c; (n, conns) = map_erase (ci_name conn) (sv_conns S) in
         cassert dbg (n = 1)
          (Inr (sv_post (QueueIn (ci_loop conn) (SvDestroy c)) (S\<lparr>sv_conns := conns\<rparr>)))
       else Inl NullDeref)"

section \<open>Names\<close>

lemma conn_name_full:
  assumes "length (sv_ipPort S) \<le> 51" "0 \<le> i" "i < 2 ^ 31"
  shows "conn_name S i = sv_name S @ ''-'' @ sv_ipPort S @ ''#'' @ dec_nat (nat i)"
proof -
  have "nat i < 10 ^ 10" using assms(2,3) by simp
  then have "length (dec_nat (nat i)) \<le> 10" by (intro length_dec_nat) simp_all
  then show ?thesis using assms by (simp add: conn_name_def dec_int_def)
qed

lemma conn_name_inject:
  assumes "length (sv_ipPort S) \<le> 51" "0 \<le> i" "i < 2 ^ 31" "0 \<le> j" "j < 2 ^ 31"
  shows "conn_name S i = conn_name S j \<longleftrightarrow> i = j"
  using assms by (auto simp: conn_name_full)

section \<open>The life of a connection\<close>

datatype sv_op = SvNew int "sockaddr option" sockaddr | SvClose nat

fun sv_step :: "bool \<Rightarrow> int \<Rightarrow> sv_op \<Rightarrow> ('k, 'l) server \<Rightarrow> ('k, 'l) server res" where
  "sv_step dbg me (SvNew fd la pa) S = newConnection dbg me fd la pa S"
| "sv_step dbg me (SvClose c) S = removeConnectionInLoop dbg me c S"

definition destroys :: "'l post list \<Rightarrow> nat list" where
  "destroys ps = concat (map (\<lambda>p. case p of QueueIn l (SvDestroy c) \<Rightarrow> [c] | _ \<Rightarrow> []) ps)"

text \<open>
  Connection \<open>c\<close> carries the name of id \<open>c + 1\<close>; the map holds some connections, each under its
  name; and each connection made is either in the map or has been sent its destruction, once.
\<close>

definition sv_inv :: "('k, 'l) server \<Rightarrow> bool" where
  "sv_inv S \<longleftrightarrow> length (sv_ipPort S) \<le> 51 \<and> sv_nextConnId S = int (length (sv_all S)) + 1 \<and>
     (\<forall>c < length (sv_all S). ci_name (sv_all S ! c) = conn_name S (int c + 1)) \<and>
     map_ok (sv_conns S) \<and>
     (\<forall>(k, c) \<in> set (sv_conns S). c < length (sv_all S) \<and> k = ci_name (sv_all S ! c)) \<and>
     distinct (destroys (sv_posted S)) \<and>
     {0..<length (sv_all S)} = snd ` set (sv_conns S) \<union> set (destroys (sv_posted S)) \<and>
     snd ` set (sv_conns S) \<inter> set (destroys (sv_posted S)) = {}"

lemma destroys_snoc [simp]:
  "destroys (ps @ [RunIn l f]) = destroys ps" "destroys (ps @ [QueueIn l (SvDestroy c)]) = destroys ps @ [c]"
  by (simp_all add: destroys_def)

lemma conn_name_frame [simp]:
  "conn_name (sv_post p S) = conn_name S" "conn_name (S\<lparr>sv_pool := P\<rparr>) = conn_name S"
  "conn_name (S\<lparr>sv_nextConnId := n\<rparr>) = conn_name S" "conn_name (S\<lparr>sv_all := a\<rparr>) = conn_name S"
  "conn_name (S\<lparr>sv_conns := m\<rparr>) = conn_name S" "conn_name (S\<lparr>sv_posted := ps\<rparr>) = conn_name S"
  by (simp_all add: fun_eq_iff conn_name_def sv_post_def)

text \<open>Under the invariant the key of a connection's name leads to that connection.\<close>

lemma sv_inv_key:
  assumes "sv_inv S" "length (sv_all S) < 2 ^ 31 - 1" "(conn_name S (int c + 1), d) \<in> set (sv_conns S)"
    and "c < 2 ^ 31 - 1"
  shows "d = c"
proof -
  have "d < length (sv_all S)" "conn_name S (int c + 1) = conn_name S (int d + 1)"
    using assms(1,3) by (auto simp: sv_inv_def)
  then show ?thesis
    using conn_name_inject [of S "int c + 1" "int d + 1"] assms by (simp add: sv_inv_def)
qed

lemma newConnection_shape:
  assumes "newConnection dbg me fd la pa S = Inr S'"
  obtains l P where "S' = sv_post (RunIn l (SvEstablished (length (sv_all S))))
    (S\<lparr>sv_pool := P, sv_nextConnId := sv_nextConnId S + 1,
       sv_all := sv_all S @ [\<lparr>ci_loop = l, ci_name = conn_name S (sv_nextConnId S), ci_sock = fd,
                              ci_local = getLocalAddr la, ci_peer = pa, ci_connectionCb = sv_connectionCb S,
                              ci_messageCb = sv_messageCb S, ci_writeCompleteCb = sv_writeCompleteCb S, ci_closeCb = True\<rparr>],
       sv_conns := map_put (conn_name S (sv_nextConnId S)) (length (sv_all S)) (sv_conns S)\<rparr>)"
  using assms that by (auto simp: newConnection_def sv_in_loop_def res_simps Let_def split: if_splits)

lemma sv_inv_new:
  assumes inv: "sv_inv S" and small: "length (sv_all S) < 2 ^ 31 - 2"
    and step: "newConnection dbg me fd la pa S = Inr S'"
  shows "sv_inv S'"
proof -
  define n where "n = length (sv_all S)"
  obtain l P where S': "S' = sv_post (RunIn l (SvEstablished n))
    (S\<lparr>sv_pool := P, sv_nextConnId := sv_nextConnId S + 1,
       sv_all := sv_all S @ [\<lparr>ci_loop = l, ci_name = conn_name S (sv_nextConnId S), ci_sock = fd,
                              ci_local = getLocalAddr la, ci_peer = pa, ci_connectionCb = sv_connectionCb S,
                              ci_messageCb = sv_messageCb S, ci_writeCompleteCb = sv_writeCompleteCb S, ci_closeCb = True\<rparr>],
       sv_conns := map_put (conn_name S (sv_nextConnId S)) n (sv_conns S)\<rparr>)"
    by (rule newConnection_shape [OF step]) (simp add: n_def)
  define k where "k = conn_name S (int n + 1)"
  have id: "sv_nextConnId S = int n + 1" using inv by (simp add: sv_inv_def n_def)
  have fresh: "k \<notin> fst ` set (sv_conns S)"
  proof
    assume "k \<in> fst ` set (sv_conns S)"
    then obtain d where d: "(k, d) \<in> set (sv_conns S)" by auto
    then have "d = n" using sv_inv_key [OF inv _ d [unfolded k_def]] small by (simp add: n_def)
    then show False using d inv by (auto simp: sv_inv_def n_def)
  qed
  have set: "set (map_put k n (sv_conns S)) = insert (k, n) (set (sv_conns S))"
    by (rule set_map_put [OF fresh])
  have range: "{0..<Suc n} = insert n {0..<n}" by auto
  show ?thesis
    using inv map_ok_put [of "sv_conns S" k n] unfolding S' id k_def [symmetric]
    by (auto simp: sv_inv_def sv_post_def set range nth_append less_Suc_eq simp flip: n_def k_def)
qed

lemma live_key:
  assumes "sv_inv S" "c \<in> snd ` set (sv_conns S)"
  shows "c < length (sv_all S)" "(ci_name (sv_all S ! c), c) \<in> set (sv_conns S)"
  using assms by (auto simp: sv_inv_def)

lemma close_live:
  assumes inv: "sv_inv S" and small: "length (sv_all S) < 2 ^ 31 - 1" and c: "c < length (sv_all S)"
    and t: "sv_thread S = me"
  shows "removeConnectionInLoop True me c S =
    (if c \<in> snd ` set (sv_conns S)
     then Inr (sv_post (QueueIn (ci_loop (sv_all S ! c)) (SvDestroy c))
            (S\<lparr>sv_conns := snd (map_erase (ci_name (sv_all S ! c)) (sv_conns S))\<rparr>))
     else Inl AssertFail)"
proof -
  define k where "k = ci_name (sv_all S ! c)"
  have ok: "map_ok (sv_conns S)" using inv by (simp add: sv_inv_def)
  have k: "k = conn_name S (int c + 1)" using inv c by (simp add: sv_inv_def k_def)
  show ?thesis
  proof (cases "c \<in> snd ` set (sv_conns S)")
    case True
    then have "fst (map_erase k (sv_conns S)) = 1"
      using map_erase_present(1) [OF ok live_key(2) [OF inv True]] by (simp add: k_def)
    then show ?thesis
      using True c t by (simp add: removeConnectionInLoop_def sv_in_loop_def Let_def k_def case_prod_beta)
  next
    case False
    have "k \<notin> fst ` set (sv_conns S)"
    proof
      assume "k \<in> fst ` set (sv_conns S)"
      then obtain d where d: "(k, d) \<in> set (sv_conns S)" by auto
      have "d = c" using sv_inv_key [OF inv small d [unfolded k]] c small by simp
      then show False using d False by force
    qed
    then show ?thesis
      using False c t map_erase_absent [of k "sv_conns S"]
      by (simp add: removeConnectionInLoop_def sv_in_loop_def Let_def k_def cassert_def)
  qed
qed

lemma sv_inv_close:
  assumes inv: "sv_inv S" and small: "length (sv_all S) < 2 ^ 31 - 1"
    and step: "removeConnectionInLoop True me c S = Inr S'"
  shows "sv_inv S'"
proof -
  define k where "k = ci_name (sv_all S ! c)"
  have c: "c < length (sv_all S)" and t: "sv_thread S = me"
    using step by (simp_all add: removeConnectionInLoop_def sv_in_loop_def split: if_splits)
  have live: "c \<in> snd ` set (sv_conns S)"
    and S': "S' = sv_post (QueueIn (ci_loop (sv_all S ! c)) (SvDestroy c))
            (S\<lparr>sv_conns := snd (map_erase k (sv_conns S))\<rparr>)"
    using step close_live [OF inv small c t] by (auto simp: k_def split: if_splits)
  have ok: "map_ok (sv_conns S)" using inv by (simp add: sv_inv_def)
  have set: "set (snd (map_erase k (sv_conns S))) = set (sv_conns S) - {(k, c)}"
    using map_erase_present(2) [OF ok] live_key(2) [OF inv live] by (simp add: k_def)
  have "snd ` (set (sv_conns S) - {(k, c)}) = snd ` set (sv_conns S) - {c}"
    using inv by (auto simp: sv_inv_def k_def)
  then show ?thesis
    using inv live map_ok_erase [OF ok, of k] unfolding S'
    by (auto simp: sv_inv_def sv_post_def set)
qed

lemma sv_all_step: "sv_step dbg me op S = Inr S' \<Longrightarrow> length (sv_all S') \<le> Suc (length (sv_all S))"
  by (cases op) (auto simp: removeConnectionInLoop_def sv_in_loop_def res_simps Let_def sv_post_def
    split: if_splits prod.splits elim!: newConnection_shape)

lemma sv_inv_run:
  assumes "foldRes (sv_step True me) ops S = Inr S'" "sv_inv S" "length (sv_all S) + length ops < 2 ^ 31 - 1"
  shows "sv_inv S' \<and> length (sv_all S') < 2 ^ 31 - 1"
  using assms
proof (induction ops arbitrary: S)
  case (Cons op ops)
  then obtain S1 where s: "sv_step True me op S = Inr S1" and r: "foldRes (sv_step True me) ops S1 = Inr S'"
    by (auto simp: res_simps)
  have "sv_inv S1"
    using s Cons.prems by (cases op) (auto intro: sv_inv_new sv_inv_close)
  then show ?case using Cons.IH [OF r] sv_all_step [OF s] Cons.prems(3) by simp
qed simp


section \<open>From the first call to the last\<close>

text \<open>The loop and the connection a posted destruction is for; all of them, in order.\<close>

fun destroy_of :: "'l post \<Rightarrow> ('l \<times> nat) option" where
  "destroy_of (QueueIn l (SvDestroy c)) = Some (l, c)"
| "destroy_of (RunIn l (SvDestroy c)) = Some (l, c)"
| "destroy_of _ = None"

definition all_destroys :: "'l post list \<Rightarrow> nat list" where
  "all_destroys ps = concat (map (\<lambda>p. case destroy_of p of Some (l, c) \<Rightarrow> [c] | None \<Rightarrow> []) ps)"

text \<open>Every connection has been established on its loop, and every destruction posted so far comes
  behind the establishing of its connection on the same loop.\<close>

definition sv_ordered :: "('k, 'l) server \<Rightarrow> bool" where
  "sv_ordered S \<longleftrightarrow>
     (\<forall>c < length (sv_all S). RunIn (ci_loop (sv_all S ! c)) (SvEstablished c) \<in> set (sv_posted S)) \<and>
     (\<forall>i < length (sv_posted S). \<forall>l c. destroy_of (sv_posted S ! i) = Some (l, c) \<longrightarrow>
        c < length (sv_all S) \<and> l = ci_loop (sv_all S ! c) \<and>
        (\<exists>j < i. sv_posted S ! j = RunIn l (SvEstablished c)))"

lemma sv_ordered_post:
  assumes "sv_ordered S"
    and "\<And>l c. destroy_of p = Some (l, c) \<Longrightarrow> c < length (sv_all S) \<and> l = ci_loop (sv_all S ! c)"
  shows "sv_ordered (sv_post p S)"
proof -
  have "\<exists>j < length (sv_posted S). sv_posted S ! j = RunIn l (SvEstablished c)"
    if "destroy_of p = Some (l, c)" for l c
    using assms(1) assms(2) [OF that] by (auto simp: sv_ordered_def in_set_conv_nth)
  then show ?thesis
    using assms by (fastforce simp: sv_ordered_def sv_post_def nth_append less_Suc_eq)
qed

lemma sv_ordered_frame [simp]:
  "sv_ordered (S\<lparr>sv_conns := m\<rparr>) = sv_ordered S" "sv_ordered (S\<lparr>sv_pool := P\<rparr>) = sv_ordered S"
  "sv_ordered (S\<lparr>sv_nextConnId := n\<rparr>) = sv_ordered S"
  by (simp_all add: sv_ordered_def)

lemma sv_ordered_new:
  assumes "sv_ordered S"
  shows "sv_ordered (sv_post (RunIn (ci_loop conn) (SvEstablished (length (sv_all S)))) (S\<lparr>sv_all := sv_all S @ [conn]\<rparr>))"
  using assms by (fastforce simp: sv_ordered_def sv_post_def nth_append less_Suc_eq)

lemma sv_ordered_step:
  assumes "sv_ordered S" "sv_step dbg me op S = Inr S'"
  shows "sv_ordered S'"
proof (cases op)
  case (SvNew fd la pa)
  then obtain l P where S': "S' = sv_post (RunIn l (SvEstablished (length (sv_all S))))
    (S\<lparr>sv_pool := P, sv_nextConnId := sv_nextConnId S + 1,
       sv_all := sv_all S @ [\<lparr>ci_loop = l, ci_name = conn_name S (sv_nextConnId S), ci_sock = fd,
                              ci_local = getLocalAddr la, ci_peer = pa, ci_connectionCb = sv_connectionCb S,
                              ci_messageCb = sv_messageCb S, ci_writeCompleteCb = sv_writeCompleteCb S, ci_closeCb = True\<rparr>],
       sv_conns := map_put (conn_name S (sv_nextConnId S)) (length (sv_all S)) (sv_conns S)\<rparr>)"
    using assms(2) by (auto elim: newConnection_shape)
  show ?thesis
    using sv_ordered_new [OF assms(1), of "\<lparr>ci_loop = l, ci_name = conn_name S (sv_nextConnId S), ci_sock = fd,
      ci_local = getLocalAddr la, ci_peer = pa, ci_connectionCb = sv_connectionCb S,
                              ci_messageCb = sv_messageCb S, ci_writeCompleteCb = sv_writeCompleteCb S, ci_closeCb = True\<rparr>"]
    by (simp add: S' sv_ordered_def sv_post_def)
next
  case (SvClose c)
  then have c: "c < length (sv_all S)"
    and S': "S' = sv_post (QueueIn (ci_loop (sv_all S ! c)) (SvDestroy c))
      (S\<lparr>sv_conns := snd (map_erase (ci_name (sv_all S ! c)) (sv_conns S))\<rparr>)"
    using assms(2) by (auto simp: removeConnectionInLoop_def sv_in_loop_def Let_def res_simps split: if_splits prod.splits)
  show ?thesis unfolding S' by (rule sv_ordered_post) (use assms(1) c in auto)
qed

lemma sv_dtor_posts:
  assumes "sv_thread S = me" "\<forall>(k, c) \<in> set (sv_conns S). c < length (sv_all S)"
  shows "TcpServer_dtor me S = Inr (S\<lparr>sv_posted := sv_posted S @
    map (\<lambda>(k, c). RunIn (ci_loop (sv_all S ! c)) (SvDestroy c)) (sv_conns S)\<rparr>)"
proof -
  have "foldRes (\<lambda>(name, c) S. if c < length (sv_all S)
          then Inr (sv_post (RunIn (ci_loop (sv_all S ! c)) (SvDestroy c)) S) else Inl NullDeref) cs U =
      Inr (U\<lparr>sv_posted := sv_posted U @ map (\<lambda>(k, c). RunIn (ci_loop (sv_all U ! c)) (SvDestroy c)) cs\<rparr>)"
    if "\<forall>(k, c) \<in> set cs. c < length (sv_all U)" for cs and U :: "('a, 'b) server"
    using that by (induction cs arbitrary: U) (auto simp: sv_post_def)
  from this [OF assms(2)] show ?thesis using assms(1) by (simp add: TcpServer_dtor_def sv_in_loop_def)
qed

text \<open>The whole destruction of a server that has not started to listen: a Debug build aborts at
  the acceptor, a Release build posts one destruction for each live connection to its loop and closes
  the two descriptors of the acceptor.\<close>

lemma server_destroyed:
  assumes "sv_thread S = me" "\<forall>(k, c) \<in> set (sv_conns S). c < length (sv_all S)" and A: "A = sv_acceptor S"
    and "isInLoopThread me (ac_loop A)"
    and "chans (ac_loop A) (ac_chan A) = Some ((Channel_ctor (ac_sock A))\<lparr>readCallback := True\<rparr>)"
    and "kern (loop_poller (ac_loop A)) (ac_sock A) = None" "channels (loop_poller (ac_loop A)) (ac_sock A) = None"
  shows "TcpServer_destroy True epoll_set me S = Inl AssertFail"
    and "\<exists>S'. TcpServer_destroy False epoll_set me S = Inr S' \<and>
      sv_posted S' = sv_posted S @ map (\<lambda>(k, c). RunIn (ci_loop (sv_all S ! c)) (SvDestroy c)) (sv_conns S) \<and>
      ac_closed (sv_acceptor S') = ac_closed A @ [ac_idleFd A, ac_sock A]"
proof -
  note posts = sv_dtor_posts [OF assms(1,2)]
  show "TcpServer_destroy True epoll_set me S = Inl AssertFail"
    using acceptor_destroyed(1) [OF assms(4-7)] by (simp add: TcpServer_destroy_def posts A)
  obtain A' where "Acceptor_dtor False epoll_set me A = Inr A'" "ac_closed A' = ac_closed A @ [ac_idleFd A, ac_sock A]"
    using acceptor_destroyed(2) [OF assms(4-7)] by blast
  then show "\<exists>S'. TcpServer_destroy False epoll_set me S = Inr S' \<and>
      sv_posted S' = sv_posted S @ map (\<lambda>(k, c). RunIn (ci_loop (sv_all S ! c)) (SvDestroy c)) (sv_conns S) \<and>
      ac_closed (sv_acceptor S') = ac_closed A @ [ac_idleFd A, ac_sock A]"
    by (simp add: TcpServer_destroy_def posts A)
qed

lemma sv_ordered_posts:
  assumes "sv_ordered S" "\<forall>(k, c) \<in> set cs. c < length (sv_all S)"
  shows "sv_ordered (S\<lparr>sv_posted := sv_posted S @
    map (\<lambda>(k, c). RunIn (ci_loop (sv_all S ! c)) (SvDestroy c)) cs\<rparr>)"
  using assms
proof (induction cs arbitrary: S)
  case (Cons e cs)
  obtain k c where e: "e = (k, c)" by (cases e)
  have "sv_ordered (sv_post (RunIn (ci_loop (sv_all S ! c)) (SvDestroy c)) S)"
    by (rule sv_ordered_post) (use Cons.prems e in auto)
  from Cons.IH [OF this] Cons.prems(2) show ?case by (auto simp: e sv_post_def)
qed simp

lemma all_destroys_simps [simp]:
  "all_destroys (ps @ qs) = all_destroys ps @ all_destroys qs"
  "all_destroys (map (\<lambda>(k, c). RunIn (f c) (SvDestroy c)) cs) = map snd cs"
  by (simp add: all_destroys_def, induction cs) (auto simp: all_destroys_def)

lemma all_destroys_step:
  assumes "sv_step dbg me op S = Inr S'" "all_destroys (sv_posted S) = destroys (sv_posted S)"
  shows "all_destroys (sv_posted S') = destroys (sv_posted S')"
  using assms
  by (cases op) (auto simp: removeConnectionInLoop_def sv_in_loop_def res_simps Let_def sv_post_def
    all_destroys_def split: if_splits prod.splits elim!: newConnection_shape)

lemma sv_inv_map:
  assumes "sv_inv S"
  shows "distinct (map snd (sv_conns S))" "\<forall>(k, c) \<in> set (sv_conns S). c < length (sv_all S)"
proof -
  have "map_ok (sv_conns S)" using assms by (simp add: sv_inv_def)
  then have d: "distinct (map fst (sv_conns S))" by (rule map_ok_distinct)
  have k: "k = ci_name (sv_all S ! c)" if "(k, c) \<in> set (sv_conns S)" for k c
    using assms that by (auto simp: sv_inv_def)
  have "inj_on snd (set (sv_conns S))"
    by (rule inj_onI) (metis k prod.collapse)
  then show "distinct (map snd (sv_conns S))" using d by (simp add: distinct_map)
  show "\<forall>(k, c) \<in> set (sv_conns S). c < length (sv_all S)" using assms by (auto simp: sv_inv_def)
qed


section \<open>Witness\<close>

definition demo_server :: "(int \<Rightarrow> (nat \<times> 32 word) option, nat) server" where
  "demo_server =
     \<lparr>sv_loop = 0, sv_thread = 1, sv_ipPort = ''0.0.0.0:80'', sv_name = ''echo'',
      sv_acceptor = demo_acceptor,
      sv_pool = \<lparr>tp_base = 0, tp_thread = 1, tp_name = ''echo'', tp_started = True, tp_numThreads = 2,
                 tp_next = 0, tp_loops = [1, 2]\<rparr>,
      sv_connectionCb = True, sv_messageCb = True, sv_threadInitCb = None, sv_writeCompleteCb = False,
      sv_started = 1, sv_nextConnId = 1, sv_conns = [], sv_all = [], sv_posted = []\<rparr>"

lemma demo_server_run:
  "\<exists>S. foldRes (sv_step True 1) [SvNew 7 None [], SvNew 8 None [], SvClose 0] demo_server = Inr S \<and>
    length (sv_all S) = 2 \<and> sv_thread S = 1"
proof -
  have d: "dec_int 1 = ''1''" "dec_int 2 = ''2''"
    by (simp_all add: dec_int_def dec_nat.simps digit_char_def char_of_def bit_0)
  show ?thesis
    by (simp add: demo_server_def newConnection_def sv_in_loop_def getNextLoop_def pool_in_loop_def
      conn_name_def d removeConnectionInLoop_def map_erase_def sv_post_def Let_def)
qed



end
