(* ===== verification/Net_Connector.thy ===== *)
theory Net_Connector
  imports Net_EventLoop Net_SocketOps
begin

text \<open>
  The connector (\<open>net/connector.h\<close>, \<open>net/connector.cpp\<close>): it opens a socket, starts a
  non-blocking connect, waits for the socket to become writable and hands the descriptor to its
  callback, or retries later with a delay that doubles up to thirty seconds.

  The state keeps the loop, the flag and the state of the source, the channel as an address in the
  loop's store (\<open>channel_\<close> may be null), and what the outside sees: the delays of the timers
  asked for, the calls of \<open>connect\<close>, the descriptors handed over and the ones closed. \<open>stopInLoop\<close> is declared and
  bound by \<open>stop()\<close> and has no body in the sources, so it is an argument; so are the results of
  \<open>socket\<close>, \<open>connect\<close> and \<open>getsockopt\<close>.
\<close>

datatype States = CDisconnected | CConnecting | CConnected

datatype cn_functor = CnStartInLoop | CnStopInLoop | CnResetChannel

record 'k connector =
  cn_loop :: "('k, cn_functor) evloop"
  cn_serverAddr :: sockaddr
  cn_connect :: bool
  cn_state :: States
  cn_channel :: "nat option"
  cn_delay :: int
  cn_hasCb :: bool
  cn_tried :: "(int \<times> sockaddr) list"
  cn_timers :: "int list"
  cn_new :: "int list"
  cn_closed :: "int list"

definition KMaxRetryDelayMs :: int where "KMaxRetryDelayMs = 30 * 1000"

definition KInitRetryDelayMs :: int where "KInitRetryDelayMs = 500"

definition Connector_ctor :: "('k, cn_functor) evloop \<Rightarrow> sockaddr \<Rightarrow> 'k connector" where
  "Connector_ctor L serverAddr =
     \<lparr>cn_loop = L, cn_serverAddr = serverAddr, cn_connect = False, cn_state = CDisconnected, cn_channel = None,
      cn_delay = KInitRetryDelayMs, cn_hasCb = False, cn_tried = [], cn_timers = [], cn_new = [],
      cn_closed = []\<rparr>"

definition serverAddress :: "'k connector \<Rightarrow> sockaddr" where
  "serverAddress C = cn_serverAddr C"

definition Connector_dtor :: "bool \<Rightarrow> 'k connector \<Rightarrow> unit res" where
  "Connector_dtor dbg C = cassert dbg (cn_channel C = None) (Inr ())"

definition Connector_setNewConnectionCallback :: "'k connector \<Rightarrow> 'k connector" where
  "Connector_setNewConnectionCallback C = C\<lparr>cn_hasCb := True\<rparr>"

definition cn_on_loop ::
    "(('k, cn_functor) evloop \<Rightarrow> ('k, cn_functor) evloop res) \<Rightarrow> 'k connector \<Rightarrow> 'k connector res" where
  "cn_on_loop f C = andThen (f (cn_loop C)) (\<lambda>L. Inr (C\<lparr>cn_loop := L\<rparr>))"

definition with_cn_channel :: "'k connector \<Rightarrow> (nat \<Rightarrow> 'a res) \<Rightarrow> 'a res" where
  "with_cn_channel C k = (case cn_channel C of None \<Rightarrow> Inl NullDeref | Some cid \<Rightarrow> k cid)"

definition cn_close :: "int \<Rightarrow> 'k connector \<Rightarrow> 'k connector" where
  "cn_close sockfd C = C\<lparr>cn_closed := cn_closed C @ [sockfd]\<rparr>"

definition retry :: "int \<Rightarrow> 'k connector \<Rightarrow> 'k connector" where
  "retry sockfd C =
     (let C1 = (cn_close sockfd C)\<lparr>cn_state := CDisconnected\<rparr> in
      if cn_connect C1
      then C1\<lparr>cn_timers := cn_timers C1 @ [cn_delay C1],
              cn_delay := min (cn_delay C1 * 2) KMaxRetryDelayMs\<rparr>
      else C1)"

text \<open>\<open>connecting\<close> asserts that there is no channel and then uses it.\<close>

definition connecting ::
    "bool \<Rightarrow> 'k epoll_ctl \<Rightarrow> int \<Rightarrow> int \<Rightarrow> 'k connector \<Rightarrow> 'k connector res" where
  "connecting dbg ctl me sockfd C =
     (let C1 = C\<lparr>cn_state := CConnecting\<rparr> in
      cassert dbg (cn_channel C1 = None)
       (with_cn_channel C1 (\<lambda>cid.
        andThen (cn_on_loop (modify_channel (\<lambda>ch. ch\<lparr>writeCallback := True, errorCallback := True\<rparr>) cid) C1)
          (cn_on_loop (enableWriting dbg ctl me cid)))))"

text \<open>The error numbers of \<open>connect\<close> on Linux.\<close>

definition connect_pending :: "int set" where
  "connect_pending = {0, 115 \<comment> \<open>EINPROGRESS\<close>, 4 \<comment> \<open>EINTR\<close>, 106 \<comment> \<open>EISCONN\<close>}"

definition connect_refused :: "int set" where
  "connect_refused = {11 \<comment> \<open>EAGAIN\<close>, 98 \<comment> \<open>EADDRINUSE\<close>, 99 \<comment> \<open>EADDRNOTAVAIL\<close>,
     111 \<comment> \<open>ECONNREFUSED\<close>, 101 \<comment> \<open>ENETUNREACH\<close>}"

text \<open>One attempt of the network: the new socket, the result of \<open>connect\<close> and \<open>errno\<close>.\<close>

type_synonym attempt = "int \<times> int \<times> int"

definition Connector_connect ::
    "bool \<Rightarrow> 'k epoll_ctl \<Rightarrow> int \<Rightarrow> attempt \<Rightarrow> 'k connector \<Rightarrow> 'k connector res" where
  "Connector_connect dbg ctl me a C =
     (let (fd, ret, err) = a in
      andThen (createNonblockingOrDie fd) (\<lambda>sockfd.
      let C1 = C\<lparr>cn_tried := cn_tried C @ [(sockfd, cn_serverAddr C)]\<rparr>;
          savedErrno = (if ret = 0 then 0 else err) in
      if savedErrno \<in> connect_pending then connecting dbg ctl me sockfd C1
      else if savedErrno \<in> connect_refused then Inr (retry sockfd C1)
      else Inr (cn_close sockfd C1)))"

definition Connector_startInLoop ::
    "bool \<Rightarrow> 'k epoll_ctl \<Rightarrow> int \<Rightarrow> attempt \<Rightarrow> 'k connector \<Rightarrow> 'k connector res" where
  "Connector_startInLoop dbg ctl me a C =
     assertInLoopThread me (cn_loop C)
      (cassert dbg (cn_state C = CDisconnected)
        (if cn_connect C then Connector_connect dbg ctl me a C else Inr C))"

definition Connector_start ::
    "bool \<Rightarrow> 'k epoll_ctl \<Rightarrow> int \<Rightarrow> attempt \<Rightarrow> 'k connector \<Rightarrow> 'k connector res" where
  "Connector_start dbg ctl me a C =
     (let C1 = C\<lparr>cn_connect := True\<rparr> in
      if isInLoopThread me (cn_loop C1) then Connector_startInLoop dbg ctl me a C1
      else Inr (C1\<lparr>cn_loop := queueInLoop me CnStartInLoop (cn_loop C1)\<rparr>))"

definition Connector_restart ::
    "bool \<Rightarrow> 'k epoll_ctl \<Rightarrow> int \<Rightarrow> attempt \<Rightarrow> 'k connector \<Rightarrow> 'k connector res" where
  "Connector_restart dbg ctl me a C =
     assertInLoopThread me (cn_loop C)
      (Connector_startInLoop dbg ctl me a
        (C\<lparr>cn_state := CDisconnected, cn_delay := KInitRetryDelayMs, cn_connect := True\<rparr>))"

definition Connector_stop :: "int \<Rightarrow> 'k connector \<Rightarrow> 'k connector" where
  "Connector_stop me C =
     (let C1 = C\<lparr>cn_connect := False\<rparr> in
      C1\<lparr>cn_loop := queueInLoop me CnStopInLoop (cn_loop C1)\<rparr>)"

definition removeAndReserChannel ::
    "bool \<Rightarrow> 'k epoll_ctl \<Rightarrow> int \<Rightarrow> 'k connector \<Rightarrow> (int \<times> 'k connector) res" where
  "removeAndReserChannel dbg ctl me C =
     with_cn_channel C (\<lambda>cid.
      andThen (cn_on_loop (disAbleAll dbg ctl me cid) C) (\<lambda>C1.
      andThen (cn_on_loop (Channel_remove dbg ctl me cid) C1) (\<lambda>C2.
      case chans (cn_loop C2) cid of None \<Rightarrow> Inl NullDeref
      | Some ch \<Rightarrow> Inr (ch_fd ch, C2\<lparr>cn_loop := queueInLoop me CnResetChannel (cn_loop C2)\<rparr>))))"

definition resetChannel :: "bool \<Rightarrow> int \<Rightarrow> 'k connector \<Rightarrow> 'k connector res" where
  "resetChannel dbg me C =
     (case cn_channel C of None \<Rightarrow> Inr C
      | Some cid \<Rightarrow> cn_on_loop (Channel_dtor dbg me cid) (C\<lparr>cn_channel := None\<rparr>))"

text \<open>\<open>err\<close> is what \<open>getSocketError\<close> reads.\<close>

definition Connector_handleWrite ::
    "bool \<Rightarrow> 'k epoll_ctl \<Rightarrow> int \<Rightarrow> int \<Rightarrow> 'k connector \<Rightarrow> 'k connector res" where
  "Connector_handleWrite dbg ctl me err C =
     (if cn_state C = CConnecting
      then andThen (removeAndReserChannel dbg ctl me C) (\<lambda>(sockfd, C1).
           if err \<noteq> 0 then Inr (retry sockfd C1)
           else let C2 = C1\<lparr>cn_state := CConnected\<rparr> in
             if cn_connect C2
             then if cn_hasCb C2 then Inr (C2\<lparr>cn_new := cn_new C2 @ [sockfd]\<rparr>)
                  else Inl (LogicError ''bad_function_call'')
             else Inr (cn_close sockfd C2))
      else cassert dbg (cn_state C = CDisconnected) (Inr C))"

definition handleEror ::
    "bool \<Rightarrow> 'k epoll_ctl \<Rightarrow> int \<Rightarrow> int \<Rightarrow> 'k connector \<Rightarrow> 'k connector res" where
  "handleEror dbg ctl me err C =
     (if cn_state C = CConnecting
      then andThen (removeAndReserChannel dbg ctl me C) (\<lambda>(sockfd, C1). Inr (retry sockfd C1))
      else Inr C)"

section \<open>Runs\<close>

text \<open>
  The calls a connector sees, the firing of a retry timer and the draining of its functors
  included; every attempt to connect comes with the answer of the network.
\<close>

datatype cn_op =
    CnStart attempt
  | CnRestart attempt
  | CnStop
  | CnTimer attempt
  | CnWrite int
  | CnError int
  | CnPending attempt

fun cn_exec ::
    "bool \<Rightarrow> 'k epoll_ctl \<Rightarrow> ('k connector \<Rightarrow> 'k connector res) \<Rightarrow> int \<Rightarrow> attempt \<Rightarrow> cn_functor \<Rightarrow>
     'k connector \<Rightarrow> 'k connector res" where
  "cn_exec dbg ctl stopInLoop me a CnStartInLoop C = Connector_startInLoop dbg ctl me a C"
| "cn_exec dbg ctl stopInLoop me a CnStopInLoop C = stopInLoop C"
| "cn_exec dbg ctl stopInLoop me a CnResetChannel C = resetChannel dbg me C"

fun cn_step ::
    "bool \<Rightarrow> 'k epoll_ctl \<Rightarrow> ('k connector \<Rightarrow> 'k connector res) \<Rightarrow> int \<Rightarrow> cn_op \<Rightarrow>
     'k connector \<Rightarrow> 'k connector res" where
  "cn_step dbg ctl stopInLoop me (CnStart a) C = Connector_start dbg ctl me a C"
| "cn_step dbg ctl stopInLoop me (CnRestart a) C = Connector_restart dbg ctl me a C"
| "cn_step dbg ctl stopInLoop me CnStop C = Inr (Connector_stop me C)"
| "cn_step dbg ctl stopInLoop me (CnTimer a) C = Connector_startInLoop dbg ctl me a C"
| "cn_step dbg ctl stopInLoop me (CnWrite err) C = Connector_handleWrite dbg ctl me err C"
| "cn_step dbg ctl stopInLoop me (CnError err) C = handleEror dbg ctl me err C"
| "cn_step dbg ctl stopInLoop me (CnPending a) C =
     (let (functors, L) = swap_functors (cn_loop C) in
      andThen (foldRes (cn_exec dbg ctl stopInLoop me a) functors (C\<lparr>cn_loop := L\<rparr>)) (\<lambda>C1.
      Inr (C1\<lparr>cn_loop := (cn_loop C1)\<lparr>callingPendingFunctors := False\<rparr>\<rparr>)))"

text \<open>
  A connector that has not faulted is disconnected, has no channel, has reported nothing, and
  keeps its delay between the two constants.
\<close>

definition cn_inv :: "'k connector \<Rightarrow> bool" where
  "cn_inv C \<longleftrightarrow> cn_state C = CDisconnected \<and> cn_channel C = None \<and> cn_new C = [] \<and>
     KInitRetryDelayMs \<le> cn_delay C \<and> cn_delay C \<le> KMaxRetryDelayMs"

lemma cn_inv_ctor: "cn_inv (Connector_ctor L srv)"
  by (simp add: cn_inv_def Connector_ctor_def KInitRetryDelayMs_def KMaxRetryDelayMs_def)

lemma connecting_faults: "cn_channel C = None \<Longrightarrow> connecting dbg ctl me sockfd C = Inl NullDeref"
  by (simp add: connecting_def with_cn_channel_def cassert_def)

lemma cn_inv_retry: "cn_inv C \<Longrightarrow> cn_inv (retry sockfd C)"
  by (simp add: cn_inv_def retry_def cn_close_def Let_def KInitRetryDelayMs_def KMaxRetryDelayMs_def)

lemma cn_inv_connect:
  assumes "cn_inv C" "Connector_connect dbg ctl me a C = Inr C'"
  shows "cn_inv C'"
proof -
  obtain fd ret err where a: "a = (fd, ret, err)" by (cases a)
  have "cn_channel C = None" using assms(1) by (simp add: cn_inv_def)
  then show ?thesis
    using assms cn_inv_retry [of "C\<lparr>cn_tried := cn_tried C @ [(fd, cn_serverAddr C)]\<rparr>"]
    by (auto simp: a Connector_connect_def createNonblockingOrDie_def connecting_faults Let_def
      cn_inv_def cn_close_def split: if_splits)
qed

lemma startInLoop_cases:
  assumes "Connector_startInLoop dbg ctl me a C = Inr C'"
  shows "Connector_connect dbg ctl me a C = Inr C' \<or> C' = C"
  using assms by (cases "cn_connect C")
    (simp_all add: Connector_startInLoop_def assertInLoopThread_def cassert_eq_Inr split: if_splits)

lemma cn_inv_startInLoop:
  "cn_inv C \<Longrightarrow> Connector_startInLoop dbg ctl me a C = Inr C' \<Longrightarrow> cn_inv C'"
  by (drule startInLoop_cases) (blast intro: cn_inv_connect)

lemma cn_inv_frame: "cn_inv (C\<lparr>cn_loop := L\<rparr>) = cn_inv C" "cn_inv (C\<lparr>cn_connect := b\<rparr>) = cn_inv C"
  by (simp_all add: cn_inv_def)

lemma cn_inv_exec:
  assumes "cn_inv C" "cn_exec dbg ctl stopInLoop me a f C = Inr C'"
    and "\<And>C C'. cn_inv C \<Longrightarrow> stopInLoop C = Inr C' \<Longrightarrow> cn_inv C'"
  shows "cn_inv C'"
proof (cases f)
  case CnStartInLoop
  then show ?thesis using assms(1,2) by (auto intro: cn_inv_startInLoop)
next
  case CnStopInLoop
  then show ?thesis using assms by simp
next
  case CnResetChannel
  then show ?thesis using assms(1,2) by (simp add: resetChannel_def cn_inv_def)
qed

lemma cn_inv_step:
  assumes inv: "cn_inv C" and step: "cn_step dbg ctl stopInLoop me op C = Inr C'"
    and stop: "\<And>C C'. cn_inv C \<Longrightarrow> stopInLoop C = Inr C' \<Longrightarrow> cn_inv C'"
  shows "cn_inv C'"
proof (cases op)
  case (CnPending a)
  have "cn_inv C1" if "foldRes (cn_exec dbg ctl stopInLoop me a) fs (C\<lparr>cn_loop := L\<rparr>) = Inr C1"
    for fs L C1
    by (rule foldRes_invariant [where I = cn_inv, OF that])
      (simp add: cn_inv_frame inv, erule cn_inv_exec, assumption, rule stop)
  then show ?thesis
    using step CnPending by (auto simp: Let_def swap_functors_def res_simps cn_inv_frame)
next
  case (CnStart a)
  then show ?thesis
    using step inv
    by (auto simp: Connector_start_def Let_def cn_inv_frame split: if_splits
      dest!: cn_inv_startInLoop [rotated])
next
  case (CnRestart a)
  have "cn_inv (C\<lparr>cn_state := CDisconnected, cn_delay := KInitRetryDelayMs, cn_connect := True\<rparr>)"
    using inv by (simp add: cn_inv_def KInitRetryDelayMs_def KMaxRetryDelayMs_def)
  then show ?thesis
    using step CnRestart
    by (auto simp: Connector_restart_def assertInLoopThread_def split: if_splits
      dest!: cn_inv_startInLoop [rotated])
next
  case CnStop
  then show ?thesis using step inv by (auto simp: Connector_stop_def Let_def cn_inv_def)
next
  case (CnTimer a)
  then show ?thesis using step cn_inv_startInLoop [OF inv] by simp
next
  case (CnWrite err)
  then show ?thesis
    using step inv by (simp add: Connector_handleWrite_def cn_inv_def res_simps)
next
  case (CnError err)
  then show ?thesis using step inv by (simp add: handleEror_def cn_inv_def)
qed


text \<open>No connector ever connects. Whatever the network answers and however its calls, timers,
  events and functors are ordered, a run that has not ended in a fault leaves the connector
  disconnected, without a channel, with nothing handed to the connection callback, and with its
  delay between half a second and thirty seconds.\<close>

theorem connector_never_connects:
  assumes "foldRes (cn_step dbg ctl stopInLoop me) ops (Connector_ctor L srv) = Inr C"
    and "\<And>C C'. cn_inv C \<Longrightarrow> stopInLoop C = Inr C' \<Longrightarrow> cn_inv C'"
  shows "cn_state C = CDisconnected \<and> cn_channel C = None \<and> cn_new C = [] \<and>
    500 \<le> cn_delay C \<and> cn_delay C \<le> 30000"
proof -
  have "cn_inv C"
    by (rule foldRes_invariant [where I = cn_inv, OF assms(1) cn_inv_ctor])
      (erule cn_inv_step, assumption, rule assms(2))
  then show ?thesis by (simp add: cn_inv_def KInitRetryDelayMs_def KMaxRetryDelayMs_def)
qed

text \<open>The reason: as soon as the kernel accepts the attempt, at once or with the connection in
  progress, \<open>connecting\<close> uses the null channel, in the Debug build and in the Release build.\<close>

theorem accepted_attempt_faults:
  assumes "cn_inv C" and "isInLoopThread me (cn_loop C)" and "0 \<le> fd"
    and "ret = 0 \<or> err \<in> {115, 4, 106}"
  shows "Connector_start dbg ctl me (fd, ret, err) C = Inl NullDeref"
proof -
  have "cn_state C = CDisconnected" "cn_channel C = None" using assms(1) by (simp_all add: cn_inv_def)
  then show ?thesis
    using assms(2-4) connecting_faults [of "C\<lparr>cn_connect := True, cn_tried := cn_tried C @ [(fd, cn_serverAddr C)]\<rparr>" dbg ctl me fd]
    by (auto simp: Connector_start_def Connector_startInLoop_def assertInLoopThread_def Let_def
      isInLoopThread_def Connector_connect_def createNonblockingOrDie_def connect_pending_def)
qed

section \<open>The retry schedule\<close>

definition retry_delay :: "nat \<Rightarrow> int" where
  "retry_delay i = min (500 * 2 ^ i) 30000"

lemma retry_delay_Suc: "min (retry_delay i * 2) 30000 = retry_delay (Suc i)"
  by (simp add: retry_delay_def min_def)

definition refuses :: "attempt \<Rightarrow> bool" where
  "refuses a = (case a of (fd, ret, err) \<Rightarrow> 0 \<le> fd \<and> ret \<noteq> 0 \<and> err \<in> connect_refused)"

text \<open>One refused attempt: its socket is closed and a timer is asked for.\<close>

lemma refused_attempt:
  assumes "refuses a" "cn_inv C" "cn_connect C" "isInLoopThread me (cn_loop C)"
    and "cn_delay C = retry_delay n"
  shows "Connector_startInLoop dbg ctl me a C =
    Inr (C\<lparr>cn_tried := cn_tried C @ [(fst a, cn_serverAddr C)], cn_closed := cn_closed C @ [fst a], cn_timers := cn_timers C @ [retry_delay n],
           cn_delay := retry_delay (Suc n)\<rparr>)"
proof -
  obtain fd ret err where a: "a = (fd, ret, err)" by (cases a)
  have "err \<notin> connect_pending" using assms(1)
    by (auto simp: a refuses_def connect_refused_def connect_pending_def)
  then show ?thesis
    using assms by (simp add: a refuses_def Connector_startInLoop_def assertInLoopThread_def cn_inv_def
      Connector_connect_def createNonblockingOrDie_def retry_def cn_close_def Let_def
      KMaxRetryDelayMs_def flip: retry_delay_Suc)
qed

lemma refused_timers:
  assumes "list_all refuses as" "cn_inv C" "cn_connect C" "isInLoopThread me (cn_loop C)"
    and "cn_delay C = retry_delay n"
  shows "\<exists>C'. foldRes (cn_step dbg ctl stopInLoop me) (map CnTimer as) C = Inr C' \<and>
    cn_timers C' = cn_timers C @ map (\<lambda>i. retry_delay (n + i)) [0..<length as] \<and>
    cn_closed C' = cn_closed C @ map fst as \<and>
    cn_tried C' = cn_tried C @ map (\<lambda>a. (fst a, cn_serverAddr C)) as"
  using assms
proof (induction as arbitrary: C n)
  case (Cons a as)
  define C1 where "C1 = C\<lparr>cn_tried := cn_tried C @ [(fst a, cn_serverAddr C)], cn_closed := cn_closed C @ [fst a],
    cn_timers := cn_timers C @ [retry_delay n], cn_delay := retry_delay (Suc n)\<rparr>"
  have a: "refuses a" "list_all refuses as" using Cons.prems(1) by simp_all
  have step: "Connector_startInLoop dbg ctl me a C = Inr C1"
    unfolding C1_def by (rule refused_attempt [OF a(1) Cons.prems(2-5)])
  have C1: "cn_inv C1" "cn_connect C1" "isInLoopThread me (cn_loop C1)" "cn_delay C1 = retry_delay (Suc n)"
    using cn_inv_startInLoop [OF Cons.prems(2) step] Cons.prems by (simp_all add: C1_def)
  obtain C' where C': "foldRes (cn_step dbg ctl stopInLoop me) (map CnTimer as) C1 = Inr C'"
    "cn_timers C' = cn_timers C1 @ map (\<lambda>i. retry_delay (Suc n + i)) [0..<length as]"
    "cn_closed C' = cn_closed C1 @ map fst as"
    "cn_tried C' = cn_tried C1 @ map (\<lambda>a. (fst a, cn_serverAddr C1)) as"
    using Cons.IH [OF a(2) C1] by blast
  have "[0..<length (a # as)] = 0 # map Suc [0..<length as]"
    by (simp add: map_Suc_upt upt_conv_Cons del: upt_Suc)
  then show ?case using C' step by (simp add: C1_def o_def del: upt_Suc)
qed simp


section \<open>Witnesses\<close>

definition connector_loop :: "(unit, cn_functor) evloop" where
  "connector_loop = \<lparr>looping = False, quit_flag = False, loop_eventHandling = False,
     callingPendingFunctors = False, iteration = 0, threadId = 1,
     loop_poller = empty_poller 16 (), chans = (\<lambda>_. None), wakeupFd = 0, activeChannels = [],
     currentActiveChannel = None, pendingFunctors = [], pollReturnTime = 0,
     loop_context = None\<rparr>"

lemma connector_loop_thread: "isInLoopThread 1 connector_loop"
  by (simp add: isInLoopThread_def connector_loop_def)


theorem connector_never_connects_witness:
  "\<exists>C. foldRes (cn_step True (\<lambda>k op fd ev x. (True, k)) Inr 1)
      [CnStart (5, - 1, 111), CnStop, CnPending (6, 0, 0), CnWrite 0] (Connector_ctor connector_loop []) = Inr C \<and>
    cn_new C = []"
proof -
  have "\<exists>C. foldRes (cn_step True (\<lambda>k op fd ev x. (True, k)) Inr 1)
      [CnStart (5, - 1, 111), CnStop, CnPending (6, 0, 0), CnWrite 0] (Connector_ctor connector_loop []) = Inr C"
    by (simp add: Connector_start_def Connector_startInLoop_def assertInLoopThread_def isInLoopThread_def
      Connector_ctor_def connector_loop_def Connector_connect_def createNonblockingOrDie_def
      connect_pending_def connect_refused_def retry_def cn_close_def Connector_stop_def queueInLoop_def
      queue_push_def swap_functors_def Connector_handleWrite_def Let_def)
  then obtain C where C: "foldRes (cn_step True (\<lambda>k op fd ev x. (True, k)) Inr 1)
      [CnStart (5, - 1, 111), CnStop, CnPending (6, 0, 0), CnWrite 0] (Connector_ctor connector_loop []) = Inr C" ..
  have "cn_new C = []" using connector_never_connects [OF C] by simp
  then show ?thesis using C by blast
qed

theorem accepted_attempt_faults_witness:
  "Connector_start False (\<lambda>k op fd ev x. (True, k)) 1 (5, - 1, 115) (Connector_ctor connector_loop []) =
    Inl NullDeref"
proof (rule accepted_attempt_faults)
  show "cn_inv (Connector_ctor connector_loop [])" by (rule cn_inv_ctor)
  show "isInLoopThread 1 (cn_loop (Connector_ctor connector_loop []))"
    by (simp add: Connector_ctor_def connector_loop_thread)
qed simp_all

end
