(* ===== verification/Net_TcpClient.thy ===== *)
theory Net_TcpClient
  imports Net_Connector
begin

text \<open>
  The client (\<open>net/tcp_client.h\<close>, \<open>net/tcp_client.cpp\<close>): a connector and at most one
  connection, with an optional reconnect.

  A connection is its position in \<open>cl_all\<close>, the list of the connections made so far, with its
  name and socket; its loop is the client's, so that the assertions which compare the two hold. What the client asks of other objects is recorded in order in
  \<open>cl_calls\<close>. The constructor of the connection and \<open>connectEstablished\<close> belong to the
  connection component.
\<close>

datatype cl_call =
    ClEstablished nat
  | ClShutdown nat
  | ClForceClose nat
  | ClSetCloseCallback nat
  | ClQueueDestroy nat
  | ClRunAfterRemoveConnector

record 'k client =
  cl_thread :: int
  cl_connector :: "'k connector"
  cl_name :: string
  cl_connectionCb :: bool
  cl_messageCb :: bool
  cl_writeCompleteCb :: bool
  cl_retry :: bool
  cl_connect :: bool
  cl_nextConnId :: int
  cl_connection :: "nat option"
  cl_all :: "(string \<times> int) list"
  cl_calls :: "cl_call list"

definition cl_do :: "cl_call \<Rightarrow> 'k client \<Rightarrow> 'k client" where
  "cl_do c S = S\<lparr>cl_calls := cl_calls S @ [c]\<rparr>"

definition cl_in_loop :: "int \<Rightarrow> 'k client \<Rightarrow> 'a res \<Rightarrow> 'a res" where
  "cl_in_loop me S k = (if cl_thread S \<noteq> me then Inl LogFatal else k)"

definition TcpClient_ctor :: "(('k, cn_functor) evloop) option \<Rightarrow> sockaddr \<Rightarrow> string \<Rightarrow> 'k client res" where
  "TcpClient_ctor loop serverAddr nameArg =
     (case loop of
        None \<Rightarrow> Inl LogFatal
      | Some L \<Rightarrow>
          Inr \<lparr>cl_thread = threadId L,
               cl_connector = Connector_setNewConnectionCallback (Connector_ctor L serverAddr),
               cl_name = nameArg, cl_connectionCb = True, cl_messageCb = True, cl_writeCompleteCb = False,
               cl_retry = False, cl_connect = True, cl_nextConnId = 1,
               cl_connection = None, cl_all = [], cl_calls = []\<rparr>)"

text \<open>\<open>unique\<close> tells whether the client holds the only reference to its connection.\<close>

definition TcpClient_dtor :: "int \<Rightarrow> bool \<Rightarrow> 'k client \<Rightarrow> 'k client" where
  "TcpClient_dtor me unique S =
     (case cl_connection S of
        Some c \<Rightarrow>
          let S1 = cl_do (ClSetCloseCallback c) S in if unique then cl_do (ClForceClose c) S1 else S1
      | None \<Rightarrow>
          cl_do ClRunAfterRemoveConnector (S\<lparr>cl_connector := Connector_stop me (cl_connector S)\<rparr>))"

definition TcpClient_connect ::
    "bool \<Rightarrow> 'k epoll_ctl \<Rightarrow> int \<Rightarrow> attempt \<Rightarrow> 'k client \<Rightarrow> 'k client res" where
  "TcpClient_connect dbg ctl me a S =
     (let S1 = S\<lparr>cl_connect := True\<rparr> in
      andThen (Connector_start dbg ctl me a (cl_connector S1)) (\<lambda>C. Inr (S1\<lparr>cl_connector := C\<rparr>)))"

definition TcpClient_disconnect :: "'k client \<Rightarrow> 'k client" where
  "TcpClient_disconnect S =
     (let S1 = S\<lparr>cl_connect := False\<rparr> in
      case cl_connection S1 of None \<Rightarrow> S1 | Some c \<Rightarrow> cl_do (ClShutdown c) S1)"

definition TcpClient_stop :: "int \<Rightarrow> 'k client \<Rightarrow> 'k client" where
  "TcpClient_stop me S =
     (let S1 = S\<lparr>cl_connect := False\<rparr> in
      S1\<lparr>cl_connector := Connector_stop me (cl_connector S1)\<rparr>)"

definition client_setConnectionCallback :: "bool \<Rightarrow> 'k client \<Rightarrow> 'k client" where
  "client_setConnectionCallback cb S = S\<lparr>cl_connectionCb := cb\<rparr>"

definition client_setMessageCallback :: "bool \<Rightarrow> 'k client \<Rightarrow> 'k client" where
  "client_setMessageCallback cb S = S\<lparr>cl_messageCb := cb\<rparr>"

definition client_setWriteCompleteCallback :: "bool \<Rightarrow> 'k client \<Rightarrow> 'k client" where
  "client_setWriteCompleteCallback cb S = S\<lparr>cl_writeCompleteCb := cb\<rparr>"

definition enableretry :: "'k client \<Rightarrow> 'k client" where
  "enableretry S = S\<lparr>cl_retry := True\<rparr>"

text \<open>The name goes through \<open>char buf[32]\<close>: 31 characters behind the client's name.\<close>

definition client_conn_name :: "string \<Rightarrow> string \<Rightarrow> int \<Rightarrow> string" where
  "client_conn_name name peer i = name @ take 31 ('':'' @ peer @ ''#'' @ dec_int i)"

definition client_newConnection ::
    "bool \<Rightarrow> (16 word \<Rightarrow> byte list \<Rightarrow> string) \<Rightarrow> int \<Rightarrow> int \<Rightarrow> sockaddr option \<Rightarrow> 'k client \<Rightarrow> 'k client res" where
  "client_newConnection dbg ntop me sockfd peer S =
     cl_in_loop me S
      (andThen (InetAddress_toIpPort dbg ntop (getPeerAddr peer)) (\<lambda>p.
       let conname = client_conn_name (cl_name S) p (cl_nextConnId S);
           S1 = S\<lparr>cl_nextConnId := cl_nextConnId S + 1\<rparr>;
           c = length (cl_all S1);
           S2 = S1\<lparr>cl_all := cl_all S1 @ [(conname, sockfd)], cl_connection := Some c\<rparr> in
       Inr (cl_do (ClEstablished c) S2)))"

definition client_removeConnection ::
    "bool \<Rightarrow> 'k epoll_ctl \<Rightarrow> int \<Rightarrow> attempt \<Rightarrow> nat \<Rightarrow> 'k client \<Rightarrow> 'k client res" where
  "client_removeConnection dbg ctl me a c S =
     cl_in_loop me S
      (cassert dbg (cl_connection S = Some c)
        (let S1 = cl_do (ClQueueDestroy c) (S\<lparr>cl_connection := None\<rparr>) in
         if cl_retry S1 \<and> cl_connect S1
         then andThen (Connector_restart dbg ctl me a (cl_connector S1)) (\<lambda>C.
              Inr (S1\<lparr>cl_connector := C\<rparr>))
         else Inr S1))"

section \<open>Properties\<close>

text \<open>A client of a peer whose address text has 30 characters or more gives all its connections the
  same name.\<close>

lemma client_names_collide:
  assumes "30 \<le> length p"
  shows "client_conn_name name p i = client_conn_name name p j"
  using assms by (simp add: client_conn_name_def)

lemma client_names_differ:
  assumes "length p \<le> 19" "0 \<le> i" "i < 2 ^ 31" "0 \<le> j" "j < 2 ^ 31" "i \<noteq> j"
  shows "client_conn_name name p i \<noteq> client_conn_name name p j"
proof -
  have "length (dec_nat (nat k)) \<le> 10" if "k < 2 ^ 31" "0 \<le> k" for k
    using that by (intro length_dec_nat) simp_all
  then have "take (30 - length p) (CHR ''#'' # dec_nat (nat k)) = CHR ''#'' # dec_nat (nat k)"
    if "k < 2 ^ 31" "0 \<le> k" for k
    using that assms(1) by fastforce
  then show ?thesis using assms by (simp add: client_conn_name_def dec_int_def)
qed

text \<open>A client that connects from its loop's thread ends in a null dereference as soon as the
  kernel accepts the attempt; while the peer refuses, it never has a connection and its connector
  keeps retrying with the delays of the connector.\<close>

theorem client_connect_outcome:
  assumes "TcpClient_ctor (Some L) srv name = Inr S" and "isInLoopThread me L" and "0 \<le> fd"
  shows "(ret = 0 \<or> err \<in> {115, 4, 106} \<longrightarrow> TcpClient_connect dbg ctl me (fd, ret, err) S = Inl NullDeref) \<and>
    (ret \<noteq> 0 \<and> err \<in> connect_refused \<longrightarrow> (\<exists>S'. TcpClient_connect dbg ctl me (fd, ret, err) S = Inr S' \<and>
      cl_connection S' = None \<and> cn_timers (cl_connector S') = [500] \<and> cn_closed (cl_connector S') = [fd]))"
proof -
  have S: "cl_connector S = Connector_setNewConnectionCallback (Connector_ctor L srv)" "cl_connection S = None"
    using assms(1) by (auto simp: TcpClient_ctor_def)
  define C where "C = cl_connector S"
  have C: "cn_inv C" "isInLoopThread me (cn_loop C)" "cn_timers C = []" "cn_closed C = []"
    "cn_delay C = retry_delay 0" "cn_tried C = []" "cn_serverAddr C = srv"
    using assms(2) cn_inv_ctor [of L srv] unfolding C_def S
    by (simp_all add: Connector_setNewConnectionCallback_def cn_inv_def)
      (simp_all add: Connector_ctor_def retry_delay_def KInitRetryDelayMs_def)
  have "TcpClient_connect dbg ctl me (fd, ret, err) S = Inl NullDeref" if "ret = 0 \<or> err \<in> {115, 4, 106}"
    using accepted_attempt_faults [OF C(1,2) assms(3) that] by (simp add: TcpClient_connect_def C_def)
  moreover have "\<exists>S'. TcpClient_connect dbg ctl me (fd, ret, err) S = Inr S' \<and>
      cl_connection S' = None \<and> cn_timers (cl_connector S') = [500] \<and> cn_closed (cl_connector S') = [fd]"
    if "ret \<noteq> 0" "err \<in> connect_refused"
  proof -
    define C1 where "C1 = C\<lparr>cn_connect := True\<rparr>"
    have "refuses (fd, ret, err)" using that assms(3) by (simp add: refuses_def)
    moreover have "cn_inv C1" "cn_connect C1" "isInLoopThread me (cn_loop C1)" "cn_delay C1 = retry_delay 0"
      using C by (simp_all add: C1_def cn_inv_frame)
    ultimately have "Connector_startInLoop dbg ctl me (fd, ret, err) C1 =
        Inr (C1\<lparr>cn_tried := [(fd, srv)], cn_closed := [fd], cn_timers := [retry_delay 0], cn_delay := retry_delay 1\<rparr>)"
      using refused_attempt [of "(fd, ret, err)" C1 me 0 dbg ctl] C(3,4,6,7) by (simp add: C1_def)
    then have "Connector_start dbg ctl me (fd, ret, err) C =
        Inr (C1\<lparr>cn_tried := [(fd, srv)], cn_closed := [fd], cn_timers := [retry_delay 0], cn_delay := retry_delay 1\<rparr>)"
      using C(2) by (simp add: Connector_start_def Let_def flip: C1_def) (simp add: C1_def)
    then show ?thesis using S(2) by (simp add: TcpClient_connect_def retry_delay_def flip: C_def)
  qed
  ultimately show ?thesis by blast
qed

theorem client_connect_outcome_witness:
  "\<exists>S. TcpClient_ctor (Some connector_loop) [] ''cli'' = Inr S \<and>
    TcpClient_connect True (\<lambda>k op fd ev x. (True, k)) 1 (5, 0, 0) S = Inl NullDeref"
proof -
  obtain S where S: "TcpClient_ctor (Some connector_loop) [] ''cli'' = Inr S"
    by (simp add: TcpClient_ctor_def)
  from client_connect_outcome [OF S connector_loop_thread, of 5 0 0 True "\<lambda>k op fd ev x. (True, k)"]
  have "TcpClient_connect True (\<lambda>k op fd ev x. (True, k)) 1 (5, 0, 0) S = Inl NullDeref" by simp
  then show ?thesis using S by blast
qed

end
