(* ===== verification/Net_ConnectionLife.thy ===== *)
theory Net_ConnectionLife
  imports Net_ConnectionLoop Net_TcpServer Net_TcpClient
begin

text \<open>
  A connection in the hands of its owner: how \<open>TcpServer::newConnection\<close> and
  \<open>TcpClient::newConnection\<close> (\<open>net/tcp_server.cpp\<close>, \<open>net/tcp_client.cpp\<close>) make it and fill its
  callback slots, and what becomes of it until \<open>connectDestory\<close> and the destructor.

  The first part shows that the slots the handlers call without a test stay filled, so that no call
  of an empty \<open>std::function\<close> happens; the second, an interpretation of \<open>loop_invariant\<close>, what the
  assertions of a Debug build make of every connection that is to be closed; the third what
  happens to an owner that is destroyed while one of its connections is closing.
\<close>

section \<open>Making a connection\<close>

definition server_connection ::
    "bool \<Rightarrow> nat \<Rightarrow> 'l conn_info \<Rightarrow> ('k, conn_functor) evloop \<Rightarrow> 'k tcp res" where
  "server_connection dbg cid info L =
     andThen (TcpConnection_ctor dbg cid (ci_name info) (ci_sock info) (ci_local info) (ci_peer info) L) (\<lambda>C.
     Inr (setCloseCallback (ci_closeCb info) (setWriteCompleteCallback (ci_writeCompleteCb info)
       (setMessageCallback (ci_messageCb info) (setConnectionCallback (ci_connectionCb info) C)))))"

definition client_connection ::
    "bool \<Rightarrow> nat \<Rightarrow> string \<Rightarrow> int \<Rightarrow> sockaddr option \<Rightarrow> sockaddr \<Rightarrow> 'm client \<Rightarrow>
     ('k, conn_functor) evloop \<Rightarrow> 'k tcp res" where
  "client_connection dbg cid conname sockfd localAddr peerAddr S L =
     andThen (TcpConnection_ctor dbg cid conname sockfd (getLocalAddr localAddr) peerAddr L) (\<lambda>C.
     Inr (setWriteCompleteCallback (cl_writeCompleteCb S) (setMessageCallback (cl_messageCb S)
       (setConnectionCallback (cl_connectionCb S) (setCloseCallback True C)))))"

text \<open>The slots that the handlers call without a test.\<close>

definition callbacks_set :: "'k tcp \<Rightarrow> bool" where
  "callbacks_set S \<longleftrightarrow> hasConnectionCb S \<and> hasMessageCb S \<and> hasCloseCb S"

lemma server_connection_set:
  assumes "newConnection dbg me fd la pa S = Inr S'" "sv_connectionCb S" "sv_messageCb S"
    and "server_connection dbg cid (last (sv_all S')) L = Inr C"
  shows "callbacks_set C"
proof -
  obtain l P where "S' = sv_post (RunIn l (SvEstablished (length (sv_all S))))
    (S\<lparr>sv_pool := P, sv_nextConnId := sv_nextConnId S + 1,
       sv_all := sv_all S @ [\<lparr>ci_loop = l, ci_name = conn_name S (sv_nextConnId S), ci_sock = fd,
                              ci_local = getLocalAddr la, ci_peer = pa, ci_connectionCb = sv_connectionCb S,
                              ci_messageCb = sv_messageCb S, ci_writeCompleteCb = sv_writeCompleteCb S, ci_closeCb = True\<rparr>],
       sv_conns := map_put (conn_name S (sv_nextConnId S)) (length (sv_all S)) (sv_conns S)\<rparr>)"
    by (rule newConnection_shape [OF assms(1)])
  then show ?thesis using assms(2-4)
    by (auto simp: server_connection_def res_simps callbacks_set_def setCloseCallback_def sv_post_def
      setWriteCompleteCallback_def setMessageCallback_def setConnectionCallback_def)
qed

lemma client_connection_set:
  assumes "cl_connectionCb S" "cl_messageCb S" "client_connection dbg cid name fd la pa S L = Inr C"
  shows "callbacks_set C"
  using assms by (auto simp: client_connection_def res_simps callbacks_set_def setCloseCallback_def
    setWriteCompleteCallback_def setMessageCallback_def setConnectionCallback_def)

section \<open>No empty callback is called\<close>

text \<open>The faults other than a call of an empty function.\<close>

definition other_faults :: "fault set" where
  "other_faults = {e. \<forall>s. e \<noteq> LogicError s}"

lemma other_faults_simps [simp]:
  "AssertFail \<in> other_faults" "OutOfBounds \<in> other_faults" "NullDeref \<in> other_faults"
  "EmptyContainer \<in> other_faults" "LengthError \<in> other_faults" "LogFatal \<in> other_faults"
  "Undefined \<in> other_faults" "Diverges \<in> other_faults" "LogicError s \<notin> other_faults"
  by (simp_all add: other_faults_def)

abbreviation calm :: "'a res \<Rightarrow> bool" where
  "calm \<equiv> yields other_faults (\<lambda>_. True)"

lemma calm_andThen: "calm m \<Longrightarrow> (\<And>x. yields other_faults I (f x)) \<Longrightarrow> yields other_faults I (andThen m f)"
  by (rule yields_andThen) auto

lemma calm_cassert: "yields other_faults I k \<Longrightarrow> yields other_faults I (cassert dbg P k)"
  by (simp add: cassert_def)

lemma calm_simple:
  "calm (read_at m i n)" "calm (write_at m i d)" "calm (hasWritten dbg n b)" "calm (retrive dbg n b)"
  "calm (vector_reserve n b)"
  by (auto simp: read_at_def write_at_def hasWritten_def retrive_def cassert_def vector_reserve_def Let_def)

lemma calm_append: "calm (Buffer_append dbg d b)"
  unfolding Buffer_append_def ensureWriteableBytes_def makeSpace_def Let_def
  by (auto intro!: calm_andThen calm_cassert calm_simple)

lemma calm_readFd: "calm (readFd dbg r b)"
  by (cases r) (auto simp: readFd_def Let_def intro!: calm_andThen calm_append calm_simple)

lemma calm_poller:
  "calm (EPollPoller_update ctl q cid ch p)" "calm (EPollPoller_updateChannel dbg ctl cid ch p)"
  "calm (EPollPoller_removeChannel dbg ctl cid ch p)"
proof -
  show u: "calm (EPollPoller_update ctl q cid ch p)" for q cid ch p
    by (auto simp: EPollPoller_update_def Let_def split: prod.splits)
  show "calm (EPollPoller_updateChannel dbg ctl cid ch p)"
    "calm (EPollPoller_removeChannel dbg ctl cid ch p)"
    unfolding EPollPoller_updateChannel_def EPollPoller_removeChannel_def Let_def
    by (auto intro!: calm_andThen calm_cassert u split: option.splits)
qed

lemma calm_modify: "calm (modify_channel f cid L)"
  by (simp add: modify_channel_def split: option.splits)

lemma calm_update: "calm (Channel_update dbg ctl me cid L)"
  unfolding Channel_update_def EventLoop_updateChannel_def assertInLoopThread_def
  by (auto intro!: calm_andThen calm_modify calm_poller split: option.splits prod.splits)

lemma calm_remove: "calm (Channel_remove dbg ctl me cid L)"
  unfolding Channel_remove_def EventLoop_removeChannel_def assertInLoopThread_def
  by (auto intro!: calm_andThen calm_cassert calm_modify calm_poller split: option.splits prod.splits)

lemma calm_req: "calm (do_req dbg ctl me cid q L)"
  by (cases q) (auto simp: enableWriting_def disableWriting_def disableReading_def disAbleAll_def
    intro!: calm_andThen calm_modify calm_update calm_remove)

text \<open>Code of the user that leaves the slots filled and calls no empty function itself.\<close>

definition civil :: "'k user \<Rightarrow> (byte list \<Rightarrow> 'k tcp \<Rightarrow> 'k tcp res) \<Rightarrow> bool" where
  "civil user piece \<longleftrightarrow>
     (\<forall>c S. callbacks_set S \<longrightarrow> yields other_faults callbacks_set (user c S)) \<and>
     (\<forall>d S. callbacks_set S \<longrightarrow> yields other_faults callbacks_set (piece d S))"

abbreviation stays_set :: "'k tcp res \<Rightarrow> bool" where
  "stays_set \<equiv> yields other_faults callbacks_set"

lemma callbacks_set_simps [simp]:
  "callbacks_set (S\<lparr>tstate := st\<rparr>) = callbacks_set S"
  "callbacks_set (S\<lparr>inputBuffer := ib\<rparr>) = callbacks_set S"
  "callbacks_set (S\<lparr>outputBuffer := ob\<rparr>) = callbacks_set S"
  "callbacks_set (S\<lparr>treading := rd\<rparr>) = callbacks_set S"
  "callbacks_set (S\<lparr>sock_shut := sh\<rparr>) = callbacks_set S"
  "callbacks_set (S\<lparr>delayed_closes := dc\<rparr>) = callbacks_set S"
  "callbacks_set (S\<lparr>tloop := L\<rparr>) = callbacks_set S"
  "callbacks_set (conn_queue me f S) = callbacks_set S"
  "callbacks_set (sock_write n d S) = callbacks_set S"
  by (simp_all add: callbacks_set_def conn_queue_def sock_write_def)

lemma set_on_loop: "callbacks_set S \<Longrightarrow> calm (f (tloop S)) \<Longrightarrow> stays_set (on_loop f S)"
  unfolding on_loop_def by (rule calm_andThen) simp_all

lemma set_request:
  "callbacks_set S \<Longrightarrow> f = do_req dbg ctl me cid q \<Longrightarrow> stays_set (on_loop f S)"
  by (simp add: set_on_loop calm_req)

lemmas set_requests = set_request [OF _ do_req.simps(1) [symmetric]] set_request [OF _ do_req.simps(2) [symmetric]]
  set_request [OF _ do_req.simps(3) [symmetric]] set_request [OF _ do_req.simps(4) [symmetric]]
  set_request [OF _ do_req.simps(5) [symmetric]] set_request [OF _ do_req.simps(6) [symmetric]]
  set_request [OF _ do_req.simps(7) [symmetric]] set_request [OF _ do_req.simps(8) [symmetric]]

lemma set_in_loop: "stays_set k \<Longrightarrow> stays_set (conn_in_loop me S k)"
  by (simp add: conn_in_loop_def assertInLoopThread_def)

lemma set_with_channel: "(\<And>ch. stays_set (k ch)) \<Longrightarrow> stays_set (with_channel S k)"
  by (simp add: with_channel_def split: option.splits)

lemma set_invoke:
  "civil user piece \<Longrightarrow> callbacks_set S \<Longrightarrow> (callbacks_set S \<Longrightarrow> isset) \<Longrightarrow> stays_set (invoke isset c user S)"
  by (auto simp: invoke_def civil_def)

lemmas set_steps = set_in_loop set_with_channel calm_cassert set_requests set_invoke

lemma handleClose_set:
  "civil user piece \<Longrightarrow> callbacks_set S \<Longrightarrow> stays_set (handleClose dbg ctl me user S)"
  unfolding handleClose_def
  by (auto intro!: set_steps yields_andThen [where J = callbacks_set] simp: callbacks_set_def)

lemma handleRead_set:
  "civil user piece \<Longrightarrow> callbacks_set S \<Longrightarrow> stays_set (TcpConnection_handleRead dbg ctl me user t r S)"
  unfolding TcpConnection_handleRead_def
  by (auto intro!: set_steps calm_andThen [OF calm_readFd] handleClose_set
    simp: handleError_def Let_def callbacks_set_def)

lemma shutdownInLoop_set: "callbacks_set S \<Longrightarrow> stays_set (shutdownInLoop me S)"
  unfolding shutdownInLoop_def by (auto intro!: set_steps)

lemma handleWrite_set: "callbacks_set S \<Longrightarrow> stays_set (handleWrite dbg ctl me n S)"
  unfolding handleWrite_def
  by (auto intro!: set_steps calm_andThen [OF calm_simple(1)] calm_andThen [OF calm_simple(4)]
      yields_andThen [where J = callbacks_set] shutdownInLoop_set simp: Let_def)

lemma buffer_rest_set: "callbacks_set S \<Longrightarrow> stays_set (buffer_rest dbg ctl me w rest S)"
  unfolding buffer_rest_def by (auto intro!: calm_andThen [OF calm_append] set_steps simp: Let_def)

lemma sendInLoop_set: "callbacks_set S \<Longrightarrow> stays_set (sendInLoop dbg ctl me wr err d S)"
  unfolding sendInLoop_def direct_write_def
  by (auto intro!: set_steps buffer_rest_set simp: Let_def)

lemma exec_conn_set:
  "civil user piece \<Longrightarrow> callbacks_set S \<Longrightarrow> stays_set (exec_conn dbg ctl me user piece f S)"
  by (cases f) (auto simp: civil_def forceCloseInLoop_def stopReadInLoop_def startRead_outcome
    intro!: set_steps handleClose_set shutdownInLoop_set)

lemma conn_pending_set:
  "civil user piece \<Longrightarrow> callbacks_set S \<Longrightarrow> stays_set (conn_pending dbg ctl me user piece S)"
  unfolding conn_pending_def swap_functors_def
  by (auto intro!: yields_andThen [where J = callbacks_set] yields_foldRes [where I = callbacks_set] exec_conn_set)

lemma conn_event_set:
  assumes "civil user piece" "callbacks_set S"
  shows "stays_set (conn_event dbg ctl me user ev t r n S)"
proof -
  have "stays_set (exec_action dbg ctl me user r n a T)" if "callbacks_set T" for a T
    using handleClose_set [OF assms(1) that] handleRead_set [OF assms(1) that] handleWrite_set [OF that] that
    by (cases a) (auto simp: handleError_def intro!: set_steps)
  then have "stays_set (foldRes (exec_action dbg ctl me user r n) acts T)" if "callbacks_set T" for acts T
    using that by (intro yields_foldRes [where I = callbacks_set]) auto
  then show ?thesis unfolding conn_event_def
    by (intro yields_andThen [where J = callbacks_set] set_on_loop assms(2) calm_modify set_with_channel)
qed

lemma conn_step_set:
  assumes "civil user piece" "callbacks_set S"
  shows "stays_set (conn_step dbg ctl me user piece op S)"
proof (cases op)
  case OEstablish
  then show ?thesis using assms(2)
    by (auto simp: connectEstablished_def Let_def intro!: set_steps set_on_loop calm_modify)
next
  case ODestroy
  then show ?thesis using assms unfolding ODestroy conn_step.simps connectDestory_def
    by (auto intro!: set_steps yields_andThen [where J = callbacks_set] simp: callbacks_set_def)
qed (use assms conn_event_set conn_pending_set sendInLoop_set in
  \<open>auto simp: TcpConnection_shutdown_def forceClose_def forceCloseWithDealy_def stopRead_def
    startRead_outcome stopReadInLoop_def Let_def intro!: set_steps shutdownInLoop_set\<close>)

lemma conn_run_set:
  "civil user piece \<Longrightarrow> callbacks_set S \<Longrightarrow> stays_set (foldRes (conn_step dbg ctl me user piece) ops S)"
  by (intro yields_foldRes [where I = callbacks_set] conn_step_set)

section \<open>Closing in a Debug build\<close>

text \<open>The poller has never heard of the channel, whose index is the 0 of its constructor.\<close>

definition unregistered :: "int \<Rightarrow> nat \<Rightarrow> ('k, 'f) evloop \<Rightarrow> bool" where
  "unregistered fd cid L \<longleftrightarrow> channels (loop_poller L) fd = None \<and>
     (\<exists>ch. chans L cid = Some ch \<and> ch_fd ch = fd \<and> ch_index ch = 0)"

lemma unregistered_modify:
  assumes "unregistered fd cid L" "modify_channel f cid L = Inr L'"
    and "\<And>ch. ch_fd (f ch) = ch_fd ch" "\<And>ch. ch_index (f ch) = ch_index ch"
  shows "unregistered fd cid L'"
  using assms by (auto simp: unregistered_def modify_channel_def)

lemma unregistered_update:
  assumes "unregistered fd cid L"
  shows "Channel_update True ctl me cid L = Inl (if isInLoopThread me L then AssertFail else LogFatal)"
  using assms
  by (auto simp: unregistered_def Channel_update_def modify_channel_def EventLoop_updateChannel_def
    assertInLoopThread_def isInLoopThread_def EPollPoller_updateChannel_def KNew_def KDeleted_def cassert_def Let_def)

lemma unregistered_change:
  assumes "unregistered fd cid L" "\<And>ch. ch_fd (f ch) = ch_fd ch" "\<And>ch. ch_index (f ch) = ch_index ch"
  shows "andThen (modify_channel f cid L) (Channel_update True ctl me cid) =
    Inl (if isInLoopThread me L then AssertFail else LogFatal)"
proof -
  obtain L1 where L1: "modify_channel f cid L = Inr L1" "isInLoopThread me L1 = isInLoopThread me L"
    using assms(1) by (auto simp: unregistered_def modify_channel_def isInLoopThread_def)
  then show ?thesis using unregistered_update [OF unregistered_modify [OF assms(1) L1(1) assms(2,3)]] by simp
qed

lemma unregistered_remove:
  assumes "unregistered fd cid L"
  shows "Channel_remove True ctl me cid L \<in> {Inl AssertFail, Inl LogFatal}"
    and "isInLoopThread me L \<Longrightarrow> Channel_remove True ctl me cid L = Inl AssertFail"
  using assms
  by (auto simp: unregistered_def Channel_remove_def modify_channel_def EventLoop_removeChannel_def
    assertInLoopThread_def isInLoopThread_def EPollPoller_removeChannel_def cassert_def Let_def)

lemma unregistered_req:
  "unregistered fd cid L \<Longrightarrow> do_req True ctl me cid q L = Inr L' \<Longrightarrow> unregistered fd cid L'"
proof (cases q)
  case ReqRemove
  assume "unregistered fd cid L" "do_req True ctl me cid q L = Inr L'"
  then show ?thesis using unregistered_remove(1) [of fd cid L ctl me] ReqRemove by auto
qed (auto simp: enableWriting_def disableWriting_def disableReading_def disAbleAll_def unregistered_change
    set_writing_def clear_writing_def clear_reading_def clear_all_def Channel_tie_def setRevents_def
    set_eventHandling_def
    intro: unregistered_modify)

interpretation unreg: loop_invariant "unregistered fd cid" True ctl me cid
  for fd :: int and ctl :: "'k epoll_ctl" and me :: int and cid :: nat
  by unfold_locales (erule (1) unregistered_req, simp_all add: unregistered_def)

text \<open>C6: Debug build: no connection is ever closed. Whatever was called on a connection, whatever
  events and functors ran before, \<open>handleClose\<close> and \<open>connectDestory\<close> on its loop's thread abort in
  an assertion, because nothing registers its channel and the poller takes the constructor's index
  for a registered one. Assumed is that the user's callbacks do not register the channel themselves.\<close>

theorem debug_connection_aborts_on_close:
  assumes "TcpConnection_ctor True cid name sockfd la pa L = Inr S0"
    and "channels (loop_poller L) sockfd = None"
    and "user_keeps (unregistered sockfd cid) cid user piece"
    and "foldRes (conn_step True ctl me user piece) ops S0 = Inr S" and "isInLoopThread me (tloop S)"
  shows "handleClose True ctl me user S = Inl AssertFail \<and> connectDestory True ctl me user S = Inl AssertFail"
proof -
  have "conn_on (unregistered sockfd cid) cid S0"
    using assms(1,2) by (auto simp: TcpConnection_ctor_def res_simps conn_on_def unregistered_def Channel_ctor_def)
  from unreg.conn_run_keeps [OF assms(3) this, of ctl me ops] assms(4)
  have S: "tchan S = cid" "unregistered sockfd cid (tloop S)" by (simp_all add: conn_on_def)
  obtain ch where ch: "chans (tloop S) cid = Some ch" using S(2) by (auto simp: unregistered_def)
  have d: "disAbleAll True ctl me cid (tloop S) = Inl AssertFail"
    using unregistered_change [OF S(2), of clear_all ctl me] assms(5) by (simp add: disAbleAll_def clear_all_def)
  have r: "Channel_remove True ctl me cid (tloop S) = Inl AssertFail"
    using unregistered_remove(2) [OF S(2) assms(5)] .
  show ?thesis
    using S(1) ch d r assms(5)
    by (simp add: handleClose_def connectDestory_def conn_in_loop_def assertInLoopThread_def
      with_channel_def on_loop_def cassert_def)
qed

section \<open>An owner that is destroyed first\<close>

lemma poller_update_release:
  assumes "\<And>k op fd p e. fst (ctl k op fd p e)"
  shows "\<exists>p'. EPollPoller_update ctl q cid ch p = Inr p'"
proof -
  obtain k' where "ctl (kern p) q (ch_fd ch) cid (ch_events ch) = (True, k')"
    using assms [of "kern p" q "ch_fd ch" cid "ch_events ch"] by (metis prod.collapse)
  then show ?thesis by (simp add: EPollPoller_update_def)
qed

lemma change_release:
  assumes "chans L cid = Some ch" "isInLoopThread me L" "\<And>k op fd p e. fst (ctl k op fd p e)"
  shows "\<exists>p' ch'. andThen (modify_channel f cid L) (Channel_update False ctl me cid) =
      Inr (L\<lparr>loop_poller := p', chans := (chans L)(cid := Some ch')\<rparr>)"
proof -
  let ?ch = "(f ch)\<lparr>addToLoop := True\<rparr>"
  have u: "\<exists>y. andThen (EPollPoller_update ctl q cid c p) (\<lambda>p2. Inr (c, p2)) = Inr y" for q c p
  proof -
    obtain p2 where "EPollPoller_update ctl q cid c p = Inr p2"
      using poller_update_release [of ctl q cid c p] assms(3) by blast
    then show ?thesis by simp
  qed
  have "\<exists>y. EPollPoller_updateChannel False ctl cid c p = Inr y" for c p
    using u by (auto simp: EPollPoller_updateChannel_def Let_def)
  then obtain ch' p' where "EPollPoller_updateChannel False ctl cid ?ch (loop_poller L) = Inr (ch', p')"
    by (metis surj_pair)
  then show ?thesis using assms(1,2)
    by (auto simp: Channel_update_def modify_channel_def EventLoop_updateChannel_def assertInLoopThread_def
      isInLoopThread_def)
qed

lemma remove_release:
  assumes "chans L cid = Some ch" "isInLoopThread me L" "\<And>k op fd p e. fst (ctl k op fd p e)"
  shows "\<exists>p' ch'. Channel_remove False ctl me cid L =
      Inr (L\<lparr>loop_poller := p', chans := (chans L)(cid := Some ch')\<rparr>)"
proof -
  let ?ch = "ch\<lparr>addToLoop := False\<rparr>"
  have "\<exists>y. EPollPoller_removeChannel False ctl cid c p = Inr y" for c p
  proof -
    define p1 where "p1 = p\<lparr>channels := (channels p)(ch_fd c := None)\<rparr>"
    obtain p2 where "EPollPoller_update ctl EPOLL_CTL_DEL cid c p1 = Inr p2"
      using poller_update_release [of ctl EPOLL_CTL_DEL cid c p1] assms(3) by blast
    then show ?thesis by (simp add: EPollPoller_removeChannel_def Let_def flip: p1_def)
  qed
  then obtain ch' p' where "EPollPoller_removeChannel False ctl cid ?ch (loop_poller L) = Inr (ch', p')"
    by (metis surj_pair)
  then show ?thesis using assms(1,2)
    by (auto simp: Channel_remove_def modify_channel_def EventLoop_removeChannel_def assertInLoopThread_def
      isInLoopThread_def)
qed

lemma destroyed_while_closing:
  assumes "isInLoopThread me (tloop S)" and "tstate S = KConnected"
    and "chans (tloop S) (tchan S) = Some ch" and "pendingFunctors (tloop S) = []"
    and "callbacks_set S" and "\<And>k op fd p e. fst (ctl k op fd p e)"
  obtains S1 ch' where "foldRes (conn_step False ctl me user piece) [OShutdown, OForceClose, ODestroy] S = Inr S1"
    "tstate S1 = KDisConnecting" "pendingFunctors (tloop S1) = [ForceCloseInLoop]" "callbacks_set S1"
    "chans (tloop S1) (tchan S1) = Some ch'" "isInLoopThread me (tloop S1)"
proof -
  let ?c = "tchan S"
  obtain Sd where sd: "TcpConnection_shutdown me S = Inr Sd" "tstate Sd = KDisConnecting"
    "tloop Sd = tloop S" "tchan Sd = ?c" "callbacks_set Sd"
  proof
    let ?Sd = "(if isWriting ch then S\<lparr>tstate := KDisConnecting\<rparr> else S\<lparr>tstate := KDisConnecting, sock_shut := True\<rparr>)"
    show "TcpConnection_shutdown me S = Inr ?Sd"
      using assms(1-3)
      by (simp add: TcpConnection_shutdown_def shutdownInLoop_def conn_in_loop_def assertInLoopThread_def with_channel_def)
  qed (use assms(5) in simp_all)
  define L1 where "L1 = queueInLoop me ForceCloseInLoop (tloop S)"
  have L1: "chans L1 ?c = Some ch" "isInLoopThread me L1" "pendingFunctors L1 = [ForceCloseInLoop]"
    using assms(1,3,4) by (auto simp: L1_def queueInLoop_def queue_push_def wakeup_def isInLoopThread_def Let_def)
  obtain p' ch' where rm: "Channel_remove False ctl me ?c L1 = Inr (L1\<lparr>loop_poller := p', chans := (chans L1)(?c := Some ch')\<rparr>)"
    (is "_ = Inr ?L2") using remove_release [OF L1(1,2), of ctl] assms(6) by blast
  define Sa where "Sa = Sd\<lparr>tstate := KDisConnecting, tloop := L1\<rparr>"
  have "forceClose me Sd = Sa" using sd(2,3) by (simp add: forceClose_def conn_queue_def Sa_def L1_def)
  moreover have "connectDestory False ctl me user Sa = Inr (Sa\<lparr>tloop := ?L2\<rparr>)"
    using rm L1(2) sd(4)
    by (simp add: connectDestory_def conn_in_loop_def assertInLoopThread_def on_loop_def Sa_def)
  ultimately show thesis
    using that [of "Sa\<lparr>tloop := ?L2\<rparr>" ch'] sd(1,4,5) L1(2,3)
    by (simp add: Sa_def isInLoopThread_def callbacks_set_def)
qed

lemma pending_force_close:
  assumes "pendingFunctors (tloop S) = [ForceCloseInLoop]" and "tstate S = KDisConnecting" and "callbacks_set S"
    and "chans (tloop S) (tchan S) = Some ch" and "isInLoopThread me (tloop S)"
    and "\<And>k op fd p e. fst (ctl k op fd p e)" and "\<And>T. user CbConnection T = Inr T"
  obtains T where "tstate T = KDisconnected"
    "conn_step False ctl me user piece OPending S =
      andThen (user CbClose T) (\<lambda>U. Inr (U\<lparr>tloop := (tloop U)\<lparr>callingPendingFunctors := False\<rparr>\<rparr>))"
proof -
  let ?c = "tchan S"
  define L where "L = (tloop S)\<lparr>callingPendingFunctors := True, pendingFunctors := []\<rparr>"
  have L: "chans L ?c = Some ch" "isInLoopThread me L" using assms(4,5) by (simp_all add: L_def isInLoopThread_def)
  obtain p' ch' where da: "disAbleAll False ctl me ?c L = Inr (L\<lparr>loop_poller := p', chans := (chans L)(?c := Some ch')\<rparr>)"
    using change_release [OF L, of ctl clear_all] assms(6) unfolding disAbleAll_def by blast
  define T where "T = S\<lparr>tstate := KDisconnected, tloop := L\<lparr>loop_poller := p', chans := (chans L)(?c := Some ch')\<rparr>\<rparr>"
  have "swap_functors (tloop S) = ([ForceCloseInLoop], L)" using assms(1) by (simp add: swap_functors_def L_def)
  moreover have "exec_conn False ctl me user piece ForceCloseInLoop (S\<lparr>tloop := L\<rparr>) = user CbClose T"
    using L da assms(2,3,7)
    by (simp add: forceCloseInLoop_def handleClose_def conn_in_loop_def assertInLoopThread_def with_channel_def
      on_loop_def invoke_def callbacks_set_def T_def)
  ultimately have "conn_step False ctl me user piece OPending S =
      andThen (user CbClose T) (\<lambda>U. Inr (U\<lparr>tloop := (tloop U)\<lparr>callingPendingFunctors := False\<rparr>\<rparr>))"
    by (cases "user CbClose T") (simp_all add: conn_pending_def)
  then show thesis using that [of T] by (simp add: T_def)
qed


definition gone_owner :: "'k user" where
  "gone_owner c T = (if c = CbClose then Inl NullDeref else Inr T)"


theorem debug_connection_aborts_on_close_witness:
  "\<exists>S0. TcpConnection_ctor True 5 ''c'' 9 [] [] plain_loop = Inr S0 \<and>
    connectDestory True epoll_set 1 idle_user S0 = Inl AssertFail"
proof -
  obtain b where b: "Buffer_ctor True kInittialSize = Inr b"
    by (simp add: Buffer_ctor_def kInittialSize_def kCheapPrepend_def sz_add_def sz_sub_def max_vector_size_def
      cassert_def readableBytes_def writeableBytes_def prependableBytes_def Let_def)
  obtain S0 where S0: "TcpConnection_ctor True 5 ''c'' 9 [] [] plain_loop = Inr S0"
    by (simp add: TcpConnection_ctor_def b)
  have "channels (loop_poller plain_loop) 9 = None" by (simp add: plain_loop_def empty_poller_def)
  moreover have "user_keeps (unregistered 9 5) 5 idle_user (\<lambda>d S. Inr S)"
    by (simp add: user_keeps_def idle_user_def)
  moreover have "foldRes (conn_step True epoll_set 1 idle_user (\<lambda>d S. Inr S)) [] S0 = Inr S0" by simp
  moreover have "isInLoopThread 1 (tloop S0)"
    using S0 by (auto simp: TcpConnection_ctor_def b isInLoopThread_def plain_loop_def)
  ultimately have "connectDestory True epoll_set 1 idle_user S0 = Inl AssertFail"
    using debug_connection_aborts_on_close [OF S0] by blast
  then show ?thesis using S0 by blast
qed

section \<open>The slots\<close>



end
