(* ===== verification/Spec2Isabelle.thy ===== *)
theory Spec2Isabelle
  imports Cpp_Format Cpp_Set Cpp_Map Base_TimeStamp Base_Date Base_TimeZone Base_StringPiece
    Base_LogStream Base_LogFile Base_AsyncLog Base_AsyncStart Base_Config Base_ProcessInfo Base_Thread Base_Locker Base_Logging
    Net_Endian Net_Buffer Net_Channel Net_Poller Net_EventLoop Net_Timer Net_TimerSpec Net_LoopProgress Net_LoopLife
    Net_TcpConnection Net_ConnectionLoop Net_ConnectionLife
    Net_SocketOps Net_Connector Net_Acceptor Net_ThreadPool Net_TcpServer Net_TcpClient
begin

text \<open>
  A verification library for the network library of this repository: \<open>src/base\<close> (time, text,
  files, threads, logging) and \<open>src/net\<close> (buffers, the event loop with its poller and timers,
  connections, server and client), C++ code in the style of muduo.

  \<^bold>\<open>How the program works.\<close> An \<open>EventLoop\<close> belongs to one thread. It asks its \<open>Poller\<close> for the
  \<open>Channel\<close>s with events and calls their handlers, then runs the functors other threads have
  queued; a write to an event descriptor wakes it. A \<open>TimerQueue\<close> is a channel, too. A
  \<open>TcpConnection\<close> sits between a channel and two \<open>Buffer\<close>s. A \<open>TcpServer\<close> gets descriptors
  from an \<open>Acceptor\<close>, spreads connections over the loops of an \<open>EventLoopThreadPool\<close> and keeps
  them in a map; a \<open>TcpClient\<close> has a \<open>Connector\<close> that tries and retries. Logging goes through
  \<open>Logger\<close>, \<open>LogStream\<close>, \<open>AsyncLogging\<close> and \<open>LogFile\<close>.

  \<^bold>\<open>Conventions.\<close> An operation that can stop without a result returns \<open>fault + 'a\<close>. Both builds of
  the CMake files are modelled by one argument: \<open>dbg\<close> is true for Debug, where \<open>assert\<close> aborts, and
  false for Release (\<open>NDEBUG\<close>), where the statement is not there. \<open>size_t\<close> wraps at \<open>2 ^ 64\<close> in
  \<open>sz_add\<close> and \<open>sz_sub\<close>, conversions to \<open>int\<close> are \<open>to_int32\<close>, ports, masks and atomics are words.
  What the kernel and the C library answer is an argument: \<open>epoll_ctl\<close> as a function on an abstract
  kernel state, results of \<open>read\<close>, \<open>write\<close>, \<open>fwrite\<close>, \<open>connect\<close>, the clocks, \<open>inet_ntop\<close> and
  \<open>inet_pton\<close>, \<open>gmtime_r\<close>, allocation. Callbacks of the user are arguments or flags that tell whether
  they are set. The thread that calls is an argument \<open>me\<close> (its id), compared with the loop's.

  \<^bold>\<open>Theories.\<close>
  \<^item> \<open>Cpp_Prelude\<close>: results, sizes, byte arrays, the locales \<open>invariant_machine\<close> (an invariant of every
    run), \<open>refinement\<close> (every run does what a specification says) and its generalisation \<open>simulation\<close> (the
    specification is a relation). \<open>Cpp_Format\<close>, \<open>Cpp_Set\<close>,
    \<open>Cpp_Map\<close>: printed decimals, \<open>std::set\<close> and \<open>std::map\<close> as sorted lists.
  \<^item> \<open>Base_TimeStamp\<close>, \<open>Base_Date\<close>, \<open>Base_TimeZone\<close>: \<open>base/time_stamp\<close>, \<open>date\<close>, \<open>time_zone\<close>. Calendar
    conversions invert each other and do not overflow; the binary search over transitions is the last
    transition before the time; files that are printed are read back, unreadable ones fault.
  \<^item> \<open>Base_StringPiece\<close>, \<open>Base_LogStream\<close>, \<open>Base_Logging\<close>: \<open>base/string_piece\<close>, \<open>log_stream\<close>, \<open>logging\<close>.
    Pointers are offsets into character arrays. The comparison operators are the lexicographic order, the
    digit loop is decimal notation, and a stream refines a bounded text (an interpretation of
    \<open>refinement\<close>).
  \<^item> \<open>Base_LogFile\<close>, \<open>Base_AsyncLog\<close>, \<open>Base_Config\<close>, \<open>Base_ProcessInfo\<close>: \<open>base/file_util\<close>, \<open>log_file\<close>,
    \<open>asynclog\<close>, \<open>config_file_reader\<close>, \<open>process_info\<close>. A rolled log keeps every record (\<open>refinement\<close>
    again); the asynchronous log writes none, and with its thread (\<open>Base_AsyncStart\<close>) it never gets out of
    \<open>start\<close>; what the configuration reader makes of a file.
  \<^item> \<open>Base_Thread\<close>: \<open>base/atomic\<close>, \<open>count_down_latch\<close>, \<open>locker\<close>, \<open>current_thread\<close>, \<open>m_thread\<close> and
    \<open>net/eventloop_thread\<close>, as step relations over all interleavings. They take a region under
    a mutex as one step; \<open>Base_Locker\<close> runs \<open>Mutex\<close>, \<open>MutexGroud\<close> and \<open>Cond\<close> statement by statement and
    proves that this is the same.
  \<^item> \<open>Net_Endian\<close>, \<open>Net_Buffer\<close>: \<open>net/endian\<close>, \<open>net/buffer\<close>, with the locales \<open>codec\<close> (four widths) and
    \<open>byte_source\<close>. \<open>Net_SocketOps\<close>: \<open>net/socketops\<close>, \<open>inetaddress\<close>, \<open>sockets\<close>.
  \<^item> \<open>Net_Channel\<close>, \<open>Net_Poller\<close>, \<open>Net_EventLoop\<close>, \<open>Net_Timer\<close>: the loop, from the masks of a channel to
    the functors and timers; channels and timers are objects of explicit stores.
    \<open>Net_TimerSpec\<close>: the timer queue simulates a map from timers to deadlines and callbacks.
    \<open>Net_LoopProgress\<close>: infinite runs of the loop and its callers under fairness. \<open>Net_LoopLife\<close>: the
    loop and its timer queue from construction to the end of their destruction.
  \<^item> \<open>Net_TcpConnection\<close>, \<open>Net_Connector\<close>, \<open>Net_Acceptor\<close>, \<open>Net_ThreadPool\<close>, \<open>Net_TcpServer\<close>,
    \<open>Net_TcpClient\<close>: a record of the data members each, one definition per method.
    \<open>Net_ConnectionLoop\<close> is the interface between a connection and its loop, the locale
    \<open>loop_invariant\<close>: what the requests of a connection keep, every run of it keeps. \<open>Net_ConnectionLife\<close> composes it with the
    server and the client that create connections and with the poller, from construction to destruction.
    This theory composes server, pool and loop thread, and server, acceptor, loop and poller.

  \<^bold>\<open>What the lemmas show.\<close> For each component an invariant that every operation keeps (buffer indexes,
  registered channels, both sets of timers, the connections of a server from their creation to their
  destruction), the effect of each operation with
  its faults, and the runs of operations in any order. Where the code does not do what its names and
  comments say, the theorem states what it does: \<open>Buffer::append\<close> writes over unread bytes, \<open>loop()\<close>
  returns before it polls, a connection never writes what it has buffered, a repeating timer fires once,
  no connector connects, no client reaches a server, no thread's \<open>start\<close> returns, nor that of the asynchronous log, which writes nothing, a Debug build cannot close
  a connection. Liveness is stated over infinite runs: with a loop that keeps polling, a queued functor is
  run, whichever thread queued it.

  \<^bold>\<open>Termination and fuel.\<close> Loops over a list or a file recurse on it; the others have measures: the
  digit loops the absolute value, the binary search the length, \<open>read_to_string\<close> the room that is left,
  the configuration reader the rest of the file. \<open>AppendFile::append\<close> may run for ever: it takes a list of
  answers of the stream, and \<open>None\<close> means that it is still running when they are used up; as many
  answers as the record has characters are enough when each takes one. \<open>startRead\<close> recurses without end
  and is an iteration that never returns. Waits are steps of a relation, so that not returning is a
  property of all its executions.

  \<^bold>\<open>Not modelled.\<close> The text and the effects of log statements inside other components (but
  \<open>LOG_FATAL\<close> and \<open>LOG_SYSFATAL\<close> stop the run; \<open>Base_Logging\<close> has the statement itself); floating point
  (\<open>time_diffrence\<close>, the digits of \<open>formatSI\<close>) beyond the choices it decides (\<open>cpuTime\<close> computes in an
  abstract type); most getters of one field, where the field of the record says it; functions that only
  return a system value (\<open>getpid\<close>, \<open>getuid\<close>, the page size); pointer casts; reference counts of
  connections. The blocking queues and
  \<open>weak_callback.h\<close> are not translatable by a compiler, \<open>protocal_stream.h\<close> declares functions without
  bodies, \<open>chatserver\<close> prints a line. Functions that are declared and called but have no body
  (\<open>Connector::stopInLoop\<close>, \<open>TcpConnection::sendInLoop\<close> of a piece,
  \<open>Acceptor::setNewConnectionCallback\<close>, \<open>Poller::newDefaultPOller\<close>) are arguments. The remaining lines
  of the sources are declarations, includes and comments.
\<close>

section \<open>The server with its loop threads\<close>

text \<open>
  \<open>starts_loops startLoop\<close>: what the pool gets from \<open>startLoop\<close> are loops that some execution of
  \<open>EventLoopThread::startLoop\<close>, with its two threads in any interleaving, returns.
\<close>

definition starts_loops :: "(string \<Rightarrow> 'l res) \<Rightarrow> bool" where
  "starts_loops startLoop \<longleftrightarrow> (\<forall>name l. startLoop name = Inr l \<longrightarrow>
     (\<exists>dbg create_fails n S S'. startLoop_begin dbg create_fails (fst (MThread_ctor n name)) = Inr S \<and>
        startLoop_step\<^sup>*\<^sup>* S S' \<and> lt_pc S' = GotLoop l))"

lemma no_loop_starts: "starts_loops startLoop \<Longrightarrow> startLoop name \<noteq> Inr l"
proof
  assume "starts_loops startLoop" "startLoop name = Inr l"
  then obtain dbg create_fails n S S' where
    S: "startLoop_begin dbg create_fails (fst (MThread_ctor n name)) = Inr S" "startLoop_step\<^sup>*\<^sup>* S S'"
    and "lt_pc S' = GotLoop l"
    unfolding starts_loops_def by fast
  then show False using start_loop_never_returns [OF S] by simp
qed

text \<open>C27: A server that was given loop threads never finishes \<open>start\<close>: no execution of
  \<open>EventLoopThread::startLoop\<close> returns the loop the pool asks for, so neither the pool nor the
  server gets past the first thread and \<open>listen\<close> is never posted. A server without threads starts
  on its own loop and posts exactly one \<open>listen\<close>, after its initialisation callback, if it has one,
  has returned.\<close>

theorem threaded_server_never_starts:
  assumes "starts_loops startLoop" and "sv_started S = 0"
    and "\<not> tp_started (sv_pool S)" and "tp_thread (sv_pool S) = me" and "\<not> ac_listening (sv_acceptor S)"
  shows "(0 < tp_numThreads (sv_pool S) \<longrightarrow> server_start dbg startLoop me S \<noteq> Inr S') \<and>
    (tp_numThreads (sv_pool S) = 0 \<and> (\<forall>cb. sv_threadInitCb S = Some cb \<longrightarrow> cb (tp_base (sv_pool S)) = Inr ()) \<longrightarrow>
     (\<exists>S1. server_start dbg startLoop me S = Inr S1 \<and>
       tp_started (sv_pool S1) \<and> sv_posted S1 = sv_posted S @ [RunIn (sv_loop S) SvListen]))"
proof -
  have "pool_start dbg startLoop initCb me (sv_pool S) \<noteq> Inr P" if pos: "0 < tp_numThreads (sv_pool S)" for P initCb
  proof -
    obtain n where "nat (tp_numThreads (sv_pool S)) = Suc n"
      using pos gr0_conv_Suc [of "nat (tp_numThreads (sv_pool S))"] by auto
    then have up: "[0..<nat (tp_numThreads (sv_pool S))] = 0 # [Suc 0..<Suc n]"
      by (simp add: upt_conv_Cons del: upt_Suc)
    show ?thesis
      using no_loop_starts [OF assms(1)] by (simp add: pool_start_def pool_in_loop_def res_simps up)
  qed
  then show ?thesis
    using assms(2-5) by (auto simp: server_start_def pool_start_def pool_in_loop_def sv_post_def res_simps Let_def
      split: option.splits)
qed

theorem threaded_server_never_starts_witness:
  "server_start True (\<lambda>_. Inl Diverges) 1
     (demo_server\<lparr>sv_started := 0, sv_pool := (sv_pool demo_server)\<lparr>tp_started := False\<rparr>\<rparr>) \<noteq> Inr demo_server"
proof -
  define S where "S = demo_server\<lparr>sv_started := 0, sv_pool := (sv_pool demo_server)\<lparr>tp_started := False\<rparr>\<rparr>"
  have "starts_loops (\<lambda>_. Inl Diverges :: nat res)" by (simp add: starts_loops_def)
  from threaded_server_never_starts [OF this, of S 1 True demo_server] show ?thesis
    by (simp add: S_def demo_server_def demo_acceptor_def)
qed

section \<open>The server on its own loop\<close>

text \<open>What a server without loop threads has done when \<open>start\<close> has returned: its acceptor is the
  one the constructor made, on the loop as it was, and one \<open>listen\<close> has been posted.\<close>

lemma started_server:
  assumes "TcpServer_ctor dbg ntop (\<lambda>A. A\<lparr>ac_hasCb := True\<rparr>)
      (\<lambda>addr reuse. Acceptor_ctor dbg bind fd idle cid addr reuse L) (Some l) me addr name option = Inr S"
  shows "\<exists>S'. server_start dbg startLoop me S = Inr S' \<and> sv_posted S' = [RunIn l SvListen] \<and>
    ac_sock (sv_acceptor S') = fd \<and> ac_chan (sv_acceptor S') = cid \<and> \<not> ac_listening (sv_acceptor S') \<and>
    ac_loop (sv_acceptor S') = L\<lparr>chans := (chans L)(cid := Some ((Channel_ctor fd)\<lparr>readCallback := True\<rparr>))\<rparr>"
  using assms
  by (auto simp: TcpServer_ctor_def Acceptor_ctor_def createNonblockingOrDie_def bind_addr_def bindOrDie_def
    ac_on_loop_def modify_channel_def server_start_def pool_start_def pool_in_loop_def
    EventLoopThreadPool_ctor_def sv_post_def Channel_ctor_def res_simps cassert_def Let_def
    split: if_splits)

text \<open>
  \<open>reported L evs\<close>: what \<open>epoll_wait\<close> may answer, events of channels that are on the interest list.
\<close>

definition reported :: "(int \<Rightarrow> (nat \<times> 32 word) option, 'f) evloop \<Rightarrow> (nat \<times> 32 word) list \<Rightarrow> bool" where
  "reported L evs \<longleftrightarrow> (\<forall>(c, ev) \<in> set evs. \<exists>fd mask. kern (loop_poller L) fd = Some (c, mask))"

text \<open>C9: No client ever reaches a server. From the constructor over \<open>start\<close> to the \<open>listen\<close> it
  posts, on a loop that does not know the new socket and its channel: a Debug build aborts in \<open>listen\<close>;
  in a Release build \<open>listen\<close> returns and the server says it is listening, but no answer of
  \<open>epoll_wait\<close> makes the channel of the acceptor active, so that \<open>accept\<close> is never called.\<close>

theorem server_accepts_nobody:
  assumes "TcpServer_ctor dbg ntop (\<lambda>A. A\<lparr>ac_hasCb := True\<rparr>)
      (\<lambda>addr reuse. Acceptor_ctor dbg bind fd idle cid addr reuse L) (Some l) me addr name option = Inr S"
    and "isInLoopThread me L" and "0 \<le> listen fd SOMAXCONN"
    and "kern (loop_poller L) fd = None" and "\<And>fd mask. kern (loop_poller L) fd \<noteq> Some (cid, mask)"
  shows "\<exists>S'. server_start dbg startLoop me S = Inr S' \<and> sv_posted S' = [RunIn l SvListen] \<and>
    Acceptor_listen True epoll_set listen me (sv_acceptor S') = Inl AssertFail \<and>
    (\<exists>A. Acceptor_listen False epoll_set listen me (sv_acceptor S') = Inr A \<and> ac_listening A \<and>
      (\<forall>evs st active p. reported (ac_loop A) evs \<and>
         EPollPoller_poll False (Inr evs) (chans (ac_loop A)) [] (loop_poller (ac_loop A)) = Inr (st, active, p) \<longrightarrow>
         ac_chan A \<notin> set active))"
proof -
  obtain S' where S': "server_start dbg startLoop me S = Inr S'" "sv_posted S' = [RunIn l SvListen]"
    and A0: "ac_sock (sv_acceptor S') = fd" "ac_chan (sv_acceptor S') = cid"
      "ac_loop (sv_acceptor S') = L\<lparr>chans := (chans L)(cid := Some ((Channel_ctor fd)\<lparr>readCallback := True\<rparr>))\<rparr>"
    using started_server [OF assms(1)] by blast
  have L0: "isInLoopThread me (ac_loop (sv_acceptor S'))"
    "0 \<le> listen (ac_sock (sv_acceptor S')) SOMAXCONN"
    "chans (ac_loop (sv_acceptor S')) (ac_chan (sv_acceptor S')) =
      Some ((Channel_ctor (ac_sock (sv_acceptor S')))\<lparr>readCallback := True\<rparr>)"
    "kern (loop_poller (ac_loop (sv_acceptor S'))) (ac_sock (sv_acceptor S')) = None"
    using assms(2-4) by (simp_all add: A0 isInLoopThread_def)
  note listen = listen_watches_nothing [of me "sv_acceptor S'" listen, OF L0]
  obtain A where A: "Acceptor_listen False epoll_set listen me (sv_acceptor S') = Inr A" "ac_listening A"
    "kern (loop_poller (ac_loop A)) = kern (loop_poller (ac_loop (sv_acceptor S')))"
    using listen by blast
  have "ac_chan A = cid" using listen_keeps_channel [OF A(1)] A0(2) by simp
  then have "ac_chan A \<notin> fst ` set evs" if "reported (ac_loop A) evs" for evs
    using that assms(5) by (force simp: reported_def A(3) A0(3))
  then show ?thesis
    using S' A(1,2) listen poll_active by fastforce
qed

text \<open>The server of a loop as the constructor of \<open>EventLoop\<close> makes it.\<close>

theorem server_accepts_nobody_witness:
  "\<exists>S S'. TcpServer_ctor False (\<lambda>_ _. ''0.0.0.0'') (\<lambda>A. A\<lparr>ac_hasCb := True\<rparr>)
      (\<lambda>addr reuse. Acceptor_ctor False (\<lambda>_ _ _. 0) 7 8 2 addr reuse (new_loop 16 1 4 6))
      (Some ()) 1 (InetAddress_port 80 False False (replicate 28 0)) ''echo'' KReusePort = Inr S \<and>
    server_start False (\<lambda>_. Inl Diverges) 1 S = Inr S' \<and>
    Acceptor_listen True epoll_set (\<lambda>_ _. 0) 1 (sv_acceptor S') = Inl AssertFail \<and>
    (\<exists>A. Acceptor_listen False epoll_set (\<lambda>_ _. 0) 1 (sv_acceptor S') = Inr A \<and> ac_listening A)"
proof -
  let ?a = "InetAddress_port 80 False False (replicate 28 0)"
  have family: "sa_family ?a = AF_INET"
    by (simp add: InetAddress_port_def sa_family_def le_bytes_family)
  obtain S where S: "TcpServer_ctor False (\<lambda>_ _. ''0.0.0.0'') (\<lambda>A. A\<lparr>ac_hasCb := True\<rparr>)
      (\<lambda>addr reuse. Acceptor_ctor False (\<lambda>_ _ _. 0) 7 8 2 addr reuse (new_loop 16 1 4 6))
      (Some ()) 1 (InetAddress_port 80 False False (replicate 28 0)) ''echo'' KReusePort = Inr S"
    using toIpPort4 [of ?a "\<lambda>_ _. ''0.0.0.0''" "''0.0.0.0''" False]
    by (simp add: family TcpServer_ctor_def Acceptor_ctor_def createNonblockingOrDie_def bind_addr_def
      bindOrDie_def ac_on_loop_def modify_channel_def cassert_def Let_def)
  have L: "isInLoopThread 1 (new_loop 16 1 4 6)" "kern (loop_poller (new_loop 16 1 4 6)) fd = None"
    "kern (loop_poller (new_loop 16 1 4 6)) fd \<noteq> Some (2, mask)" for fd mask
    by (simp_all add: isInLoopThread_def new_loop_def empty_poller_def)
  have "0 \<le> (\<lambda>_ _. 0 :: int) (7 :: int) SOMAXCONN" by simp
  from server_accepts_nobody [OF S L(1) this L(2) L(3), of "\<lambda>_. Inl Diverges"] show ?thesis
    using S by blast
qed

end
